(* ===== verification/Prelude.thy ===== *)
theory Prelude
  imports Main "HOL-Library.Signed_Division"
begin

text \<open>
  Shared vocabulary of the development: the outcomes of C++ expressions whose behaviour may be
  undefined, fixed-width signed integers, the decimal printing of \<^verbatim>\<open>std::to_string\<close>
  and the generic list lemmas the component theories use.

  Signed C++ integers are \<^typ>\<open>int\<close> values together with their width. Signed overflow and
  division by zero are undefined in C++, so an operation that may run into them returns
  \<open>Inl\<close> of a \<open>ub\<close> value. Narrowing conversions are modular (C++20), so they are the
  total function \<open>narrow\<close>.
\<close>

named_theorems width_simps \<open>unfolding of the fixed-width vocabulary\<close>

section \<open>Outcomes with undefined behaviour\<close>

datatype ub = SignedOverflow | DivideByZero | OutOfRange

type_synonym 'a cpp = "ub + 'a"

definition cbind :: "'a cpp \<Rightarrow> ('a \<Rightarrow> 'b cpp) \<Rightarrow> 'b cpp" where
  "cbind m f = (case m of Inl e \<Rightarrow> Inl e | Inr x \<Rightarrow> f x)"

lemma cbind_simps [simp]:
  "cbind (Inl e) f = Inl e"
  "cbind (Inr x) f = f x"
  by (simp_all add: cbind_def)

lemma cbind_eq_Inr_iff: "cbind m f = Inr y \<longleftrightarrow> (\<exists>x. m = Inr x \<and> f x = Inr y)"
  by (cases m) auto

lemma cbind_eq_Inl_iff:
  "cbind m f = Inl e \<longleftrightarrow> m = Inl e \<or> (\<exists>x. m = Inr x \<and> f x = Inl e)"
  by (cases m) auto

section \<open>Fixed-width signed integers\<close>

definition fits :: "nat \<Rightarrow> int \<Rightarrow> bool" where
  "fits w x \<longleftrightarrow> - (2 ^ (w - 1)) \<le> x \<and> x < 2 ^ (w - 1)"

definition checked :: "nat \<Rightarrow> int \<Rightarrow> int cpp" where
  "checked w x = (if fits w x then Inr x else Inl SignedOverflow)"

definition narrow :: "nat \<Rightarrow> int \<Rightarrow> int" where
  "narrow w x = signed_take_bit (w - 1) x"

lemma fits_narrow [simp]: "fits w (narrow w x)"
  by (simp add: fits_def narrow_def)

lemma narrow_id: "fits w x \<Longrightarrow> narrow w x = x"
  by (simp add: fits_def narrow_def signed_take_bit_int_eq_self)

lemma checked_Inr_iff: "checked w x = Inr y \<longleftrightarrow> fits w x \<and> y = x"
  by (auto simp: checked_def)

lemma checked_Inl_iff: "checked w x = Inl e \<longleftrightarrow> \<not> fits w x \<and> e = SignedOverflow"
  by (auto simp: checked_def)

lemma checked_fits [simp]: "fits w x \<Longrightarrow> checked w x = Inr x"
  by (simp add: checked_def)

lemma fits32_iff [width_simps]: "fits 32 x \<longleftrightarrow> - 2147483648 \<le> x \<and> x < 2147483648"
  by (simp add: fits_def)

lemma fits64_iff [width_simps]:
  "fits 64 x \<longleftrightarrow> - 9223372036854775808 \<le> x \<and> x < 9223372036854775808"
  by (simp add: fits_def)

lemma fits128_iff [width_simps]:
  "fits 128 x \<longleftrightarrow> - 170141183460469231731687303715884105728 \<le> x
     \<and> x < 170141183460469231731687303715884105728"
  by (simp add: fits_def)

text \<open>Truncating division by a positive constant, the form in which the code uses it.\<close>

lemma sdiv_nonneg: "0 \<le> a \<Longrightarrow> 0 \<le> b \<Longrightarrow> (a :: int) sdiv b = a div b"
  by (cases "a = 0"; cases "b = 0") (simp_all add: signed_divide_int_def sgn_if)

lemma sdiv_neg: "a \<le> 0 \<Longrightarrow> 0 \<le> b \<Longrightarrow> (a :: int) sdiv b = - ((- a) div b)"
  by (cases "a = 0"; cases "b = 0") (simp_all add: signed_divide_int_def sgn_if)

lemma smod_nonneg: "0 \<le> a \<Longrightarrow> 0 \<le> b \<Longrightarrow> (a :: int) smod b = a mod b"
  by (rule smod_mod_positive)

lemma smod_neg: "a \<le> 0 \<Longrightarrow> 0 \<le> b \<Longrightarrow> (a :: int) smod b = - ((- a) mod b)"
  by (cases "a = 0") (simp_all add: signed_modulo_int_def sgn_if)

lemma zdiv_less_iff: "0 < b \<Longrightarrow> a div b < c \<longleftrightarrow> a < c * b" for a b c :: int
proof
  assume b: "0 < b"
  show "a < c * b" if "a div b < c"
  proof -
    from that have "(a div b + 1) * b \<le> c * b" using b by (intro mult_right_mono) auto
    moreover have "(a div b + 1) * b = a - a mod b + b"
      by (simp add: minus_mod_eq_div_mult algebra_simps)
    moreover have "a mod b < b" using b by simp
    ultimately show ?thesis by linarith
  qed
  show "a div b < c" if "a < c * b"
  proof (rule ccontr)
    assume "\<not> a div b < c"
    then have "c * b \<le> (a div b) * b" using b by (intro mult_right_mono) auto
    moreover have "(a div b) * b \<le> a" using b by (simp add: minus_mod_eq_div_mult [symmetric])
    ultimately show False using that by simp
  qed
qed

lemma sdiv_smod_split: "(t :: int) = (t sdiv b) * b + t smod b"
  by (simp add: sdiv_mult_smod_eq)

section \<open>Decimal printing\<close>

text \<open>The characters \<^verbatim>\<open>'0'\<close> to \<^verbatim>\<open>'9'\<close>, and \<^verbatim>\<open>s[i] - '0'\<close>.\<close>

definition digit_char :: "nat \<Rightarrow> char" where
  "digit_char d = char_of (48 + d)"

definition is_digit :: "char \<Rightarrow> bool" where
  "is_digit c \<longleftrightarrow> (48 :: nat) \<le> of_char c \<and> (of_char c :: nat) \<le> 57"

definition digit_val :: "char \<Rightarrow> nat" where
  "digit_val c = of_char c - 48"

text \<open>\<^verbatim>\<open>std::to_string\<close> of an unsigned and of a signed integer.\<close>

fun show_nat :: "nat \<Rightarrow> string" where
  "show_nat n = (if n < 10 then [digit_char n] else show_nat (n div 10) @ [digit_char (n mod 10)])"

declare show_nat.simps [simp del]

definition show_int :: "int \<Rightarrow> string" where
  "show_int i = (if i < 0 then CHR ''-'' # show_nat (nat (- i)) else show_nat (nat i))"

lemma of_char_digit_char [simp]: "d < 10 \<Longrightarrow> (of_char (digit_char d) :: nat) = 48 + d"
  by (simp add: digit_char_def)

lemma digit_chars:
  "digit_char 0 = CHR ''0''" "digit_char 1 = CHR ''1''" "digit_char (Suc 0) = CHR ''1''" "digit_char 2 = CHR ''2''"
  "digit_char 3 = CHR ''3''" "digit_char 4 = CHR ''4''" "digit_char 5 = CHR ''5''" "digit_char 6 = CHR ''6''"
  "digit_char 7 = CHR ''7''" "digit_char 8 = CHR ''8''" "digit_char 9 = CHR ''9''"
  by code_simp+

lemma is_digit_digit_char [simp]: "d < 10 \<Longrightarrow> is_digit (digit_char d)"
  by (simp add: is_digit_def)

lemma digit_val_digit_char [simp]: "d < 10 \<Longrightarrow> digit_val (digit_char d) = d"
  by (simp add: digit_val_def)

lemma digit_char_inj: "a < 10 \<Longrightarrow> b < 10 \<Longrightarrow> digit_char a = digit_char b \<Longrightarrow> a = b"
  by (metis digit_val_digit_char)

lemma not_digit_literals [simp]:
  "\<not> is_digit CHR ''-''" "\<not> is_digit CHR ''+''" "\<not> is_digit CHR ''.''" "\<not> is_digit CHR '',''"
  "\<not> is_digit CHR ''|''" "\<not> is_digit CHR ''/''"
  by (simp_all add: is_digit_def)

lemma show_nat_ne: "show_nat n \<noteq> []"
  by (subst show_nat.simps) simp

lemma show_nat_digits: "list_all is_digit (show_nat n)"
proof (induction n rule: show_nat.induct)
  case (1 n)
  then show ?case by (subst show_nat.simps) auto
qed

text \<open>Reading a digit string back, most significant digit first.\<close>

definition read_digits :: "nat \<Rightarrow> string \<Rightarrow> nat" where
  "read_digits acc s = foldl (\<lambda>u c. u * 10 + digit_val c) acc s"

lemma read_digits_simps [simp]:
  "read_digits acc [] = acc"
  "read_digits acc (c # s) = read_digits (acc * 10 + digit_val c) s"
  by (simp_all add: read_digits_def)

lemma read_digits_append: "read_digits acc (s @ t) = read_digits (read_digits acc s) t"
  by (simp add: read_digits_def)

lemma read_show_nat [simp]: "read_digits 0 (show_nat n) = n"
proof (induction n rule: show_nat.induct)
  case (1 n)
  then show ?case by (subst show_nat.simps) (auto simp: read_digits_append)
qed

lemma show_nat_inj: "show_nat a = show_nat b \<Longrightarrow> a = b"
  by (metis read_show_nat)

lemma show_nat_no_char: "\<not> is_digit c \<Longrightarrow> c \<notin> set (show_nat n)"
  using show_nat_digits [of n] by (auto simp: list_all_iff)

lemma show_int_inj: "show_int a = show_int b \<Longrightarrow> a = b"
proof -
  assume eq: "show_int a = show_int b"
  have minus: "show_nat n \<noteq> CHR ''-'' # s" for n s
    using show_nat_no_char [of "CHR ''-''" n] by auto
  show "a = b"
    using eq minus minus [symmetric]
    by (auto simp: show_int_def dest!: show_nat_inj split: if_splits)
qed

section \<open>Lists\<close>

text \<open>The trailing window of a stream of values: what a bounded deque holds.\<close>

definition last_n :: "nat \<Rightarrow> 'a list \<Rightarrow> 'a list" where
  "last_n n xs = drop (length xs - n) xs"

lemma length_last_n [simp]: "length (last_n n xs) = min n (length xs)"
  by (simp add: last_n_def)

lemma last_n_Nil [simp]: "last_n n [] = []"
  by (simp add: last_n_def)

lemma last_n_snoc:
  "last_n n (xs @ [x]) =
     (if n < length (last_n n xs @ [x]) then tl (last_n n xs @ [x]) else last_n n xs @ [x])"
proof (cases "n \<le> length xs")
  case True
  show ?thesis
  proof (cases n)
    case 0
    then show ?thesis by (simp add: last_n_def)
  next
    case (Suc m)
    with True have ne: "drop (length xs - n) xs \<noteq> []" by simp
    from True Suc have "length xs - m = Suc (length xs - n)" by simp
    then have "drop (length xs - m) xs = tl (drop (length xs - n) xs)"
      by (simp only: drop_Suc tl_drop)
    with True Suc ne show ?thesis
      by (simp add: last_n_def Suc_diff_le)
  qed
next
  case False
  then show ?thesis by (simp add: last_n_def)
qed


text \<open>Counting the elements of a list that satisfy a condition.\<close>

lemma filter_length_le:
  "(\<And>u. u \<in> set ts \<Longrightarrow> P u \<Longrightarrow> Q u) \<Longrightarrow> length (filter P ts) \<le> length (filter Q ts)"
  by (induction ts) auto

lemma filter_length_split:
  assumes "\<And>u. u \<in> set ts \<Longrightarrow> P u \<Longrightarrow> Q u \<or> R u"
  shows "length (filter P ts) \<le> length (filter Q ts) + length (filter R ts)"
  using assms
proof (induction ts)
  case (Cons a ts)
  then have "length (filter P ts) \<le> length (filter Q ts) + length (filter R ts)" by simp
  then show ?case using Cons.prems [of a] by auto
qed simp

end
