(* ===== verification/Error.thy ===== *)
theory Error
  imports Prelude
begin

text \<open>
  \<^verbatim>\<open>include/tinvest/error.hpp\<close>: the error value of an API call, its rendering, and
  \<^verbatim>\<open>Result<T>\<close>, a variant of a value and an error. The status codes are those of the
  public enumeration \<^verbatim>\<open>grpc::StatusCode\<close>, with their documented numbers.
\<close>

section \<open>Status codes\<close>

datatype status_code =
    OK | CANCELLED | UNKNOWN | INVALID_ARGUMENT | DEADLINE_EXCEEDED | NOT_FOUND
  | ALREADY_EXISTS | PERMISSION_DENIED | RESOURCE_EXHAUSTED | FAILED_PRECONDITION | ABORTED
  | OUT_OF_RANGE | UNIMPLEMENTED | INTERNAL | UNAVAILABLE | DATA_LOSS | UNAUTHENTICATED

primrec code_int :: "status_code \<Rightarrow> int" where
  "code_int OK = 0"
| "code_int CANCELLED = 1"
| "code_int UNKNOWN = 2"
| "code_int INVALID_ARGUMENT = 3"
| "code_int DEADLINE_EXCEEDED = 4"
| "code_int NOT_FOUND = 5"
| "code_int ALREADY_EXISTS = 6"
| "code_int PERMISSION_DENIED = 7"
| "code_int RESOURCE_EXHAUSTED = 8"
| "code_int FAILED_PRECONDITION = 9"
| "code_int ABORTED = 10"
| "code_int OUT_OF_RANGE = 11"
| "code_int UNIMPLEMENTED = 12"
| "code_int INTERNAL = 13"
| "code_int UNAVAILABLE = 14"
| "code_int DATA_LOSS = 15"
| "code_int UNAUTHENTICATED = 16"

section \<open>Errors\<close>

record rate_limit_info =
  rli_limit :: int
  rli_remaining :: int
  rli_reset_seconds :: int

definition no_rate_limit_info :: rate_limit_info where
  "no_rate_limit_info = \<lparr>rli_limit = - 1, rli_remaining = - 1, rli_reset_seconds = - 1\<rparr>"

record error =
  err_code :: status_code
  err_message :: string
  err_api_code :: string
  err_tracking_id :: string
  err_ratelimit :: rate_limit_info

text \<open>A default-constructed \<^verbatim>\<open>Error\<close>.\<close>

definition default_error :: error where
  "default_error = \<lparr>err_code = UNKNOWN, err_message = [], err_api_code = [],
     err_tracking_id = [], err_ratelimit = no_rate_limit_info\<rparr>"

definition rate_limited :: "error \<Rightarrow> bool" where
  "rate_limited e \<longleftrightarrow> err_code e = RESOURCE_EXHAUSTED"

definition error_to_string :: "error \<Rightarrow> string" where
  "error_to_string e =
     ''grpc='' @ show_int (code_int (err_code e))
     @ (if err_api_code e \<noteq> [] then '' api='' @ err_api_code e else [])
     @ (if err_message e \<noteq> [] then '' '' @ err_message e else [])
     @ (if err_tracking_id e \<noteq> [] then '' [x-tracking-id: '' @ err_tracking_id e @ '']'' else [])"

section \<open>Results\<close>

datatype 'a result = Value 'a | Failure error

text \<open>
  \<^verbatim>\<open>std::get<0>\<close> and \<^verbatim>\<open>std::get<1>\<close> throw \<^verbatim>\<open>bad_variant_access\<close> on the
  other alternative: that is the value \<^term>\<open>None\<close> here.
\<close>

primrec result_ok :: "'a result \<Rightarrow> bool" where
  "result_ok (Value x) = True"
| "result_ok (Failure e) = False"

primrec result_value :: "'a result \<Rightarrow> 'a option" where
  "result_value (Value x) = Some x"
| "result_value (Failure e) = None"

primrec result_error :: "'a result \<Rightarrow> error option" where
  "result_error (Value x) = None"
| "result_error (Failure e) = Some e"

definition value_or :: "'a result \<Rightarrow> 'a \<Rightarrow> 'a" where
  "value_or r fallback = (if result_ok r then the (result_value r) else fallback)"

lemma code_int_inj: "code_int a = code_int b \<Longrightarrow> a = b"
  by (cases a; cases b) simp_all

lemma result_access:
  "result_ok r \<longleftrightarrow> (\<exists>x. result_value r = Some x)"
  "result_ok r \<longleftrightarrow> result_error r = None"
  by (cases r; simp)+

lemma value_or_simps [simp]:
  "value_or (Value x) y = x"
  "value_or (Failure e) y = y"
  by (simp_all add: value_or_def)

lemma takeWhile_digits_show_int:
  "0 \<le> n \<Longrightarrow> r = [] \<or> \<not> is_digit (hd r) \<Longrightarrow> takeWhile is_digit (show_int n @ r) = show_int n"
proof -
  assume n: "0 \<le> n" and r: "r = [] \<or> \<not> is_digit (hd r)"
  have "list_all is_digit (show_int n)" using n by (simp add: show_int_def show_nat_digits)
  then have "takeWhile is_digit (show_int n @ r) = show_int n @ takeWhile is_digit r"
    by (simp add: takeWhile_append2 list_all_iff)
  also have "takeWhile is_digit r = []" using r by (cases r) simp_all
  finally show ?thesis by simp
qed

text \<open>
  The numeric status code can be read back from the rendering of any error, whatever the texts
  supplied by the server are: the code is followed by a blank or by nothing.
\<close>

lemma error_to_string_code:
  "error_to_string a = error_to_string b \<Longrightarrow> err_code a = err_code b"
proof -
  have *: "takeWhile is_digit (drop 5 (error_to_string e)) = show_int (code_int (err_code e))" for e
  proof -
    have "0 \<le> code_int (err_code e)" by (cases "err_code e") simp_all
    moreover have "\<not> is_digit CHR '' ''" by (simp add: is_digit_def)
    ultimately show ?thesis
      by (simp add: error_to_string_def takeWhile_digits_show_int)
  qed
  assume "error_to_string a = error_to_string b"
  with * [of a] * [of b] have "show_int (code_int (err_code a)) = show_int (code_int (err_code b))"
    by simp
  then show ?thesis by (blast dest: show_int_inj code_int_inj)
qed

end
