(* ===== verification/Rate_Limiter.thy ===== *)
theory Rate_Limiter
  imports Prelude "HOL-Library.AList"
begin

text \<open>
  \<^verbatim>\<open>include/tinvest/rate_limiter.hpp\<close>: the client-side limiter. Its groups are shared
  (\<^verbatim>\<open>shared_ptr<Group>\<close>) between the entries of the method table and the threads blocked in
  \<^verbatim>\<open>acquire\<close>, so the model has a store of groups and the table maps a method to an address
  in it. The hash table is an association list with distinct keys. Clock readings
  (\<^verbatim>\<open>steady_clock::now()\<close>, in nanoseconds) are arguments.

  Every operation holds the mutex for its whole body except \<^verbatim>\<open>acquire\<close>, which gives it up
  in \<^verbatim>\<open>wait_until\<close>; \<open>acquire_attempt\<close> is one pass through its loop, and the
  interleavings of all threads are the sequences of such atomic steps (\<open>rl_sys\<close>).

  The locale \<open>window_counter\<close> states what a fixed-window counter promises, and derives the
  bound on any sliding window; the interpretation \<open>grp\<close> discharges it for the groups.
\<close>

section \<open>State\<close>

record group =
  g_limit :: int
  g_count :: int
  g_window_start :: int

record limiter =
  rl_window_ms :: int
  rl_groups :: "group list"
  rl_by_method :: "(string \<times> nat) list"

text \<open>The part of \<^verbatim>\<open>GetUserTariffResponse\<close> that is read: the repeated unary limits.\<close>

record unary_limit =
  ul_limit_per_minute :: int
  ul_methods :: "string list"

type_synonym tariff = "unary_limit list"

definition mk_limiter :: "int \<Rightarrow> limiter" where
  "mk_limiter window = \<lparr>rl_window_ms = window, rl_groups = [], rl_by_method = []\<rparr>"

text \<open>
  The window as a duration of the steady clock. The conversion is exact here; the code computes it in 64
  bits, which is the same for windows below 292 years.
\<close>

definition window_ns :: "limiter \<Rightarrow> int" where
  "window_ns l = rl_window_ms l * 1000000"

definition default_window_ms :: int where
  "default_window_ms = 60000"

section \<open>Operations\<close>

definition normalize_method :: "string \<Rightarrow> string" where
  "normalize_method m = (if m \<noteq> [] \<and> hd m = CHR ''/'' then tl m else m)"

definition assign_group :: "string list \<Rightarrow> nat \<Rightarrow> (string \<times> nat) list \<Rightarrow> (string \<times> nat) list" where
  "assign_group ms a tab = fold (\<lambda>m. AList.update (normalize_method m) a) ms tab"

text \<open>\<^verbatim>\<open>make_shared<Group>()\<close>, its limit, and the table entries that point to it.\<close>

definition add_group :: "string list \<Rightarrow> int \<Rightarrow> limiter \<Rightarrow> limiter" where
  "add_group ms n l =
     l\<lparr>rl_groups := rl_groups l @ [\<lparr>g_limit = n, g_count = 0, g_window_start = 0\<rparr>],
       rl_by_method := assign_group ms (length (rl_groups l)) (rl_by_method l)\<rparr>"

definition configure :: "tariff \<Rightarrow> limiter \<Rightarrow> limiter" where
  "configure t l =
     fold (\<lambda>ul. add_group (ul_methods ul) (ul_limit_per_minute ul)) t (l\<lparr>rl_by_method := []\<rparr>)"

definition set_limit :: "string list \<Rightarrow> int \<Rightarrow> limiter \<Rightarrow> limiter" where
  "set_limit ms n l = add_group ms n l"

definition enabled :: "limiter \<Rightarrow> bool" where
  "enabled l \<longleftrightarrow> rl_by_method l \<noteq> []"

definition roll_window :: "int \<Rightarrow> int \<Rightarrow> group \<Rightarrow> group" where
  "roll_window w now g =
     (if now - g_window_start g \<ge> w then g\<lparr>g_window_start := now, g_count := 0\<rparr> else g)"

text \<open>The step shared by both loops: roll the window, then take a slot if one is left.\<close>

definition take_slot :: "int \<Rightarrow> int \<Rightarrow> group \<Rightarrow> bool \<times> group" where
  "take_slot w now g =
     (let g' = roll_window w now g in
      if g_count g' < g_limit g' then (True, g'\<lparr>g_count := g_count g' + 1\<rparr>) else (False, g'))"

definition try_acquire :: "string \<Rightarrow> int \<Rightarrow> limiter \<Rightarrow> bool \<times> limiter" where
  "try_acquire m now l =
     (case map_of (rl_by_method l) m of
        None \<Rightarrow> (True, l)
      | Some a \<Rightarrow>
          if g_limit (rl_groups l ! a) \<le> 0 then (True, l)
          else let (ok, g) = take_slot (window_ns l) now (rl_groups l ! a)
               in (ok, l\<lparr>rl_groups := (rl_groups l)[a := g]\<rparr>))"

text \<open>One pass through the loop of \<^verbatim>\<open>acquire\<close> on the captured group.\<close>

definition acquire_attempt :: "nat \<Rightarrow> int \<Rightarrow> limiter \<Rightarrow> bool \<times> limiter" where
  "acquire_attempt a now l =
     (if g_limit (rl_groups l ! a) \<le> 0 then (True, l)
      else let (ok, g) = take_slot (window_ns l) now (rl_groups l ! a)
           in (ok, l\<lparr>rl_groups := (rl_groups l)[a := g]\<rparr>))"

text \<open>
  The whole loop of one thread. Its first pass sees the clock reading \<open>now\<close>; \<^verbatim>\<open>wait_until\<close> gives up
  the mutex, so every later pass comes after whatever the other threads have done to the limiter since
  the last one, at the clock reading of that wake-up (timed, notified or spurious). \<open>False\<close>: the thread is
  still waiting after the last wake-up.
\<close>

type_synonym wake = "(limiter \<Rightarrow> limiter) \<times> int"

fun acquire_loop :: "nat \<Rightarrow> int \<Rightarrow> wake list \<Rightarrow> limiter \<Rightarrow> bool \<times> limiter" where
  "acquire_loop a now [] l = acquire_attempt a now l"
| "acquire_loop a now ((others, u) # ws) l =
     (case acquire_attempt a now l of
        (True, l') \<Rightarrow> (True, l')
      | (False, l') \<Rightarrow> acquire_loop a u ws (others l'))"

definition acquire :: "string \<Rightarrow> int \<times> wake list \<Rightarrow> limiter \<Rightarrow> bool \<times> limiter" where
  "acquire m ts l =
     (case map_of (rl_by_method l) m of None \<Rightarrow> (True, l) | Some a \<Rightarrow> acquire_loop a (fst ts) (snd ts) l)"

section \<open>Fixed-window counters\<close>

locale window_counter =
  fixes inv :: "'s \<Rightarrow> bool"
    and cap used start :: "'s \<Rightarrow> int"
    and take_at :: "int \<Rightarrow> int \<Rightarrow> 's \<Rightarrow> bool \<times> 's"
  assumes inv_used: "inv s \<Longrightarrow> 0 < cap s \<and> 0 \<le> used s \<and> used s \<le> cap s"
    and take_inv: "inv s \<Longrightarrow> inv (snd (take_at w now s)) \<and> cap (snd (take_at w now s)) = cap s"
    and take_rolled: "inv s \<Longrightarrow> w \<le> now - start s \<Longrightarrow>
      fst (take_at w now s) \<and> start (snd (take_at w now s)) = now \<and> used (snd (take_at w now s)) = 1"
    and take_same: "inv s \<Longrightarrow> now - start s < w \<Longrightarrow>
      start (snd (take_at w now s)) = start s
      \<and> fst (take_at w now s) = (used s < cap s)
      \<and> used (snd (take_at w now s)) = (if used s < cap s then used s + 1 else used s)"
begin

text \<open>
  The history of grants of a counter: those of the current window are what the counter says,
  at most one full budget lies less than a window before its start, and no window of length
  \<open>w\<close>, wherever it starts, holds more than two budgets.
\<close>

definition history_ok :: "int \<Rightarrow> 's \<Rightarrow> int list \<Rightarrow> bool" where
  "history_ok w s ts \<longleftrightarrow> inv s
     \<and> int (length (filter (\<lambda>u. start s \<le> u) ts)) = used s
     \<and> (\<forall>u\<in>set ts. u < start s + w)
     \<and> int (length (filter (\<lambda>u. start s - w < u \<and> u < start s) ts)) \<le> cap s
     \<and> (\<forall>a. int (length (filter (\<lambda>u. a \<le> u \<and> u < a + w) ts)) \<le> 2 * cap s)"

definition record_grant :: "bool \<Rightarrow> int \<Rightarrow> int list \<Rightarrow> int list" where
  "record_grant ok now ts = (if ok then now # ts else ts)"

lemma history_ok_init: "inv s \<Longrightarrow> used s = 0 \<Longrightarrow> history_ok w s []"
  using inv_used [of s] by (simp add: history_ok_def)

lemma sliding_step:
  assumes h: "history_ok w s ts" and now: "start s \<le> now" "now < start s + w"
    and room: "used s < cap s"
  shows "int (length (filter (\<lambda>u. a \<le> u \<and> u < a + w) (now # ts))) \<le> 2 * cap s"
proof (cases "a \<le> now \<and> now < a + w")
  case True
  have "length (filter (\<lambda>u. a \<le> u \<and> u < a + w) ts)
      \<le> length (filter (\<lambda>u. start s \<le> u) ts)
        + length (filter (\<lambda>u. start s - w < u \<and> u < start s) ts)"
    using True now by (intro filter_length_split) auto
  with h room True show ?thesis by (simp add: history_ok_def)
next
  case False
  then have "filter (\<lambda>u. a \<le> u \<and> u < a + w) (now # ts) = filter (\<lambda>u. a \<le> u \<and> u < a + w) ts"
    by auto
  then show ?thesis using h by (simp add: history_ok_def)
qed

lemma history_same:
  assumes h: "history_ok w s ts" and now: "start s \<le> now" "now < start s + w"
  shows "history_ok w (snd (take_at w now s)) (record_grant (fst (take_at w now s)) now ts)"
proof -
  let ?s = "snd (take_at w now s)"
  have i: "inv s" using h by (simp add: history_ok_def)
  have eq: "start ?s = start s" "cap ?s = cap s" "inv ?s"
    "fst (take_at w now s) = (used s < cap s)"
    "used ?s = (if used s < cap s then used s + 1 else used s)"
    using take_same [OF i, of now w] take_inv [OF i] now by auto
  show ?thesis
  proof (cases "used s < cap s")
    case True
    then show ?thesis
      using h now eq sliding_step [OF h now True]
      by (auto simp: history_ok_def record_grant_def)
  next
    case False
    then show ?thesis using h eq by (simp add: history_ok_def record_grant_def)
  qed
qed

lemma history_rolled:
  assumes w: "0 < w" and h: "history_ok w s ts" and now: "start s + w \<le> now"
  shows "history_ok w (snd (take_at w now s)) (record_grant (fst (take_at w now s)) now ts)"
proof -
  let ?s = "snd (take_at w now s)"
  have i: "inv s" using h by (simp add: history_ok_def)
  have eq: "start ?s = now" "cap ?s = cap s" "inv ?s" "fst (take_at w now s)" "used ?s = 1"
    using take_rolled [OF i, of w now] take_inv [OF i] now by auto
  have old: "u < now" if "u \<in> set ts" for u
    using that h now by (auto simp: history_ok_def)
  have cur: "int (length (filter (\<lambda>u. start s \<le> u) ts)) \<le> cap s"
    using h inv_used [OF i] by (simp add: history_ok_def)
  have "length (filter (\<lambda>u. now - w < u \<and> u < now) ts) \<le> length (filter (\<lambda>u. start s \<le> u) ts)"
    using now by (intro filter_length_le) auto
  with cur have prev: "int (length (filter (\<lambda>u. now - w < u \<and> u < now) ts)) \<le> cap s" by simp
  have "filter (\<lambda>u. now \<le> u) ts = []"
    using old by (auto simp: filter_empty_conv linorder_not_le)
  then have one: "int (length (filter (\<lambda>u. now \<le> u) (now # ts))) = 1" by simp
  have slide: "int (length (filter (\<lambda>u. a \<le> u \<and> u < a + w) (now # ts))) \<le> 2 * cap s" for a
  proof (cases "a \<le> now \<and> now < a + w")
    case True
    have "length (filter (\<lambda>u. a \<le> u \<and> u < a + w) ts)
        \<le> length (filter (\<lambda>u. now - w < u \<and> u < now) ts)"
      using True old by (intro filter_length_le) auto
    with prev True inv_used [OF i] show ?thesis by simp
  next
    case False
    then have "filter (\<lambda>u. a \<le> u \<and> u < a + w) (now # ts) = filter (\<lambda>u. a \<le> u \<and> u < a + w) ts"
      by auto
    then show ?thesis using h by (simp add: history_ok_def)
  qed
  have "\<forall>u\<in>set (now # ts). u < now + w" using old w by force
  with eq one prev slide show ?thesis
    by (simp add: history_ok_def record_grant_def)
qed

lemma history_step:
  assumes "0 < w" "history_ok w s ts" "start s \<le> now"
  shows "history_ok w (snd (take_at w now s)) (record_grant (fst (take_at w now s)) now ts)"
  using history_same [OF assms(2,3)] history_rolled [OF assms(1,2)]
  by (cases "now < start s + w") auto

text \<open>A run of calls within one window: exactly the remaining budget is granted.\<close>

fun take_run :: "int \<Rightarrow> int list \<Rightarrow> 's \<Rightarrow> bool list" where
  "take_run w [] s = []"
| "take_run w (t # ts) s = fst (take_at w t s) # take_run w ts (snd (take_at w t s))"

lemma take_run_window:
  assumes "inv s" "\<forall>t\<in>set ts. t < start s + w"
  shows "take_run w ts s = map (\<lambda>i. used s + int i < cap s) [0..<length ts]"
  using assms
proof (induction ts arbitrary: s)
  case (Cons t ts)
  let ?s = "snd (take_at w t s)"
  have st: "start ?s = start s" "cap ?s = cap s" "inv ?s"
    "fst (take_at w t s) = (used s < cap s)"
    "used ?s = (if used s < cap s then used s + 1 else used s)"
    using take_same [OF Cons.prems(1), of t w] take_inv [OF Cons.prems(1)] Cons.prems(2) by auto
  have "take_run w ts ?s = map (\<lambda>i. used ?s + int i < cap s) [0..<length ts]"
    using Cons.IH [OF st(3)] Cons.prems(2) st by simp
  also have "\<dots> = map (\<lambda>i. used s + int (Suc i) < cap s) [0..<length ts]"
    using inv_used [OF Cons.prems(1)] st(5) by auto
  finally have tail: "take_run w ts ?s = map (\<lambda>i. used s + int (Suc i) < cap s) [0..<length ts]" .
  have "[0..<length (t # ts)] = 0 # map Suc [0..<length ts]"
    by (simp add: upt_conv_Cons map_Suc_upt del: upt_Suc)
  then show ?case using st(4) tail by (simp add: o_def del: upt_Suc)
qed simp

text \<open>Calls that do not look at their outcome, and a caller that tries again after those of others.\<close>

fun take_all :: "int \<Rightarrow> int list \<Rightarrow> 's \<Rightarrow> 's" where
  "take_all w [] s = s"
| "take_all w (t # ts) s = take_all w ts (snd (take_at w t s))"

fun wait_run :: "int \<Rightarrow> int \<Rightarrow> (int list \<times> int) list \<Rightarrow> 's \<Rightarrow> bool \<times> 's" where
  "wait_run w t [] s = take_at w t s"
| "wait_run w t ((ts, u) # ws) s =
     (case take_at w t s of (True, s') \<Rightarrow> (True, s') | (False, s') \<Rightarrow> wait_run w u ws (take_all w ts s'))"

definition readings :: "(int list \<times> int) list \<Rightarrow> int list" where
  "readings ws = concat (map (\<lambda>(ts, u). ts @ [u]) ws)"

lemma readings_simps [simp]: "readings [] = []" "readings ((ts, u) # ws) = ts @ u # readings ws"
  by (simp_all add: readings_def)

lemma take_all_append: "take_all w (ts @ us) s = take_all w us (take_all w ts s)"
  by (induction ts arbitrary: s) simp_all

lemma take_all_window:
  assumes "inv s" "\<forall>t\<in>set ts. t < start s + w"
  shows "inv (take_all w ts s) \<and> cap (take_all w ts s) = cap s \<and> start (take_all w ts s) = start s
    \<and> used (take_all w ts s) = min (cap s) (used s + int (length ts))"
  using assms
proof (induction ts arbitrary: s)
  case (Cons t ts)
  have st: "start (snd (take_at w t s)) = start s" "cap (snd (take_at w t s)) = cap s" "inv (snd (take_at w t s))"
    "used (snd (take_at w t s)) = min (cap s) (used s + 1)"
    using take_same [OF Cons.prems(1), of t w] take_inv [OF Cons.prems(1)] inv_used [OF Cons.prems(1)] Cons.prems(2) by auto
  then show ?case using Cons.IH [OF st(3)] Cons.prems(2) inv_used [OF Cons.prems(1)] by auto
qed (use inv_used in auto)

lemma wait_full:
  assumes "inv s" "used s = cap s" "\<forall>r\<in>set (t # readings ws). r < start s + w"
  shows "\<not> fst (wait_run w t ws s)"
  using assms
proof (induction ws arbitrary: s t)
  case (Cons x ws)
  obtain ts u where x: "x = (ts, u)" by (cases x)
  obtain s' where s': "take_at w t s = (False, s')" "inv s'" "cap s' = cap s" "start s' = start s" "used s' = used s"
    using take_same [OF Cons.prems(1), of t w] take_inv [OF Cons.prems(1), of w t] Cons.prems(2,3)
    by (cases "take_at w t s") auto
  let ?s = "take_all w ts s'"
  have "inv ?s" "cap ?s = cap s" "start ?s = start s" "used ?s = cap s"
    using take_all_window [OF s'(2), of ts w] s' Cons.prems(2,3) x by auto
  then have "\<not> fst (wait_run w u ws ?s)" using Cons.IH [of ?s u] Cons.prems(3) x by auto
  then show ?case using x s'(1) by simp
qed (use take_same in auto)

text \<open>
  A caller that finds the counter exhausted: it gets through exactly when it is awake at or after the end
  of the window while fewer than a full budget of other calls have been made since that end.
\<close>

lemma wait_run_rolled:
  assumes "inv s" "w \<le> u - start s"
  shows "\<exists>s'. wait_run w u ws s = (True, s') \<and> start s' = u \<and> used s' = 1"
  using take_rolled [OF assms] by (cases ws; cases "take_at w u s") auto

lemma wait_run_slot:
  assumes "inv s" "used s < cap s" "u < start s + w"
  shows "\<exists>s'. wait_run w u ws s = (True, s') \<and> start s' = start s \<and> used s' = used s + 1"
  using take_same [OF assms(1), of u w] assms(2,3) by (cases ws; cases "take_at w u s") auto

lemma take_all_rolls:
  assumes "inv s" "used s = cap s" "\<forall>t\<in>set pre. t < start s + w" "start s + w \<le> t0" "\<forall>t\<in>set post. t < t0 + w"
  shows "let s' = take_all w (pre @ t0 # post) s in
    inv s' \<and> cap s' = cap s \<and> start s' = t0 \<and> used s' = min (cap s) (1 + int (length post))"
proof -
  let ?s = "take_all w pre s"
  let ?r = "snd (take_at w t0 ?s)"
  have p: "inv ?s" "cap ?s = cap s" "start ?s = start s" using take_all_window [OF assms(1,3)] by simp_all
  have r: "inv ?r" "cap ?r = cap s" "start ?r = t0" "used ?r = 1"
    using take_rolled [OF p(1), of w t0] take_inv [OF p(1), of w t0] p assms(4) by simp_all
  show ?thesis using take_all_window [OF r(1), of post w] r assms(5) by (simp add: take_all_append Let_def)
qed

lemma late_split:
  fixes ts :: "int list"
  assumes "sorted ts" "\<not> (\<forall>t\<in>set ts. t < e)"
  obtains pre t0 post where "ts = pre @ t0 # post" "\<forall>t\<in>set pre. t < e" "\<forall>t\<in>set (t0 # post). e \<le> t"
proof -
  let ?d = "dropWhile (\<lambda>t. t < e) ts"
  have "?d \<noteq> []" using assms(2) by (simp add: dropWhile_eq_Nil_conv)
  then obtain t0 post where d: "?d = t0 # post" by (cases ?d) auto
  have ts: "ts = takeWhile (\<lambda>t. t < e) ts @ t0 # post" using d takeWhile_dropWhile_id [of "\<lambda>t. t < e" ts] by simp
  have "e \<le> t0" using hd_dropWhile [of "\<lambda>t. t < e" ts] d by simp
  moreover have "sorted (t0 # post)" using assms(1) ts by (metis sorted_append)
  ultimately have "\<forall>t\<in>set (t0 # post). e \<le> t" by auto
  moreover have "\<forall>t\<in>set (takeWhile (\<lambda>t. t < e) ts). t < e" by (auto dest: set_takeWhileD)
  ultimately show thesis using ts that by blast
qed

definition gets_through :: "int \<Rightarrow> int \<Rightarrow> (int list \<times> int) list \<Rightarrow> bool" where
  "gets_through c e ws \<longleftrightarrow> (\<exists>k<length ws. e \<le> snd (ws ! k)
     \<and> int (length (filter (\<lambda>t. e \<le> t) (concat (map fst (take (Suc k) ws))))) < c)"

lemma gets_through_Cons:
  "gets_through c e ((ts, u) # ws) \<longleftrightarrow>
     (e \<le> u \<and> int (length (filter (\<lambda>t. e \<le> t) ts)) < c)
     \<or> gets_through (c - int (length (filter (\<lambda>t. e \<le> t) ts))) e ws"
  unfolding gets_through_def by (auto simp: Ex_less_Suc2)

lemma gets_through_none: "c \<le> 0 \<Longrightarrow> \<not> gets_through c e ws"
  by (simp add: gets_through_def)

lemma wait_run_next:
  assumes "inv s" "used s = cap s" "now < start s + w" "sorted (readings ws)" "0 < w"
    and "\<forall>t\<in>set (readings ws). \<forall>t'\<in>set (readings ws). start s + w \<le> t' \<longrightarrow> t < t' + w"
  shows "(fst (wait_run w now ws s) \<longleftrightarrow> gets_through (cap s) (start s + w) ws)
    \<and> (fst (wait_run w now ws s) \<longrightarrow> start s + w \<le> start (snd (wait_run w now ws s))
        \<and> start (snd (wait_run w now ws s)) \<in> set (readings ws)
        \<and> 0 < used (snd (wait_run w now ws s)) \<and> used (snd (wait_run w now ws s)) \<le> cap s)"
  using assms
proof (induction ws arbitrary: s now)
  case Nil
  then show ?case using take_same [of s now w] by (simp add: gets_through_def)
next
  case (Cons x ws)
  obtain ts u where x: "x = (ts, u)" by (cases x)
  let ?e = "start s + w"
  obtain s1 where s1: "take_at w now s = (False, s1)" "inv s1" "cap s1 = cap s" "start s1 = start s" "used s1 = cap s"
    using take_same [OF Cons.prems(1), of now w] take_inv [OF Cons.prems(1), of w now] Cons.prems(2,3)
    by (cases "take_at w now s") auto
  let ?s = "take_all w ts s1"
  have run: "wait_run w now (x # ws) s = wait_run w u ws ?s" using s1(1) x by simp
  have pos: "0 < cap s" using inv_used [OF Cons.prems(1)] by simp
  have srt: "sorted ts" "sorted (readings ws)" "\<forall>t\<in>set ts. t \<le> u" "\<forall>t\<in>set (readings ws). u \<le> t"
    using Cons.prems(4) x by (auto simp: sorted_append)
  show ?case
  proof (cases "\<forall>t\<in>set ts. t < ?e")
    case early: True
    have st: "inv ?s" "cap ?s = cap s" "start ?s = start s" "used ?s = cap s"
      using take_all_window [OF s1(2), of ts w] s1 early by auto
    have none: "filter (\<lambda>t. ?e \<le> t) ts = []" using early by (auto simp: filter_empty_conv)
    show ?thesis
    proof (cases "u < ?e")
      case True
      from Cons.IH [of ?s u] st True srt(2) Cons.prems(5,6) x none
      show ?thesis unfolding run by (auto simp: gets_through_Cons)
    next
      case False
      then obtain s' where "wait_run w u ws ?s = (True, s')" "start s' = u" "used s' = 1"
        using wait_run_rolled [OF st(1), of w u ws] st(3) by auto
      then show ?thesis unfolding run using False none pos x by (auto simp: gets_through_Cons)
    qed
  next
    case False
    obtain pre t0 post where p: "ts = pre @ t0 # post" "\<forall>t\<in>set pre. t < ?e" "\<forall>t\<in>set (t0 # post). ?e \<le> t"
      using late_split [OF srt(1) False] .
    have win: "\<forall>t\<in>set (readings (x # ws)). t < t0 + w" using Cons.prems(6) x p by auto
    have st: "inv ?s" "cap ?s = cap s" "start ?s = t0" "used ?s = min (cap s) (1 + int (length post))"
      using take_all_rolls [OF s1(2), of pre w t0 post] s1 p win x by (auto simp: Let_def)
    have late: "int (length (filter (\<lambda>t. ?e \<le> t) ts)) = 1 + int (length post)" using p by (auto simp: filter_empty_conv)
    have u: "?e \<le> u" "u < t0 + w" using srt(3) p win x by auto
    show ?thesis
    proof (cases "1 + int (length post) < cap s")
      case True
      then obtain s' where "wait_run w u ws ?s = (True, s')" "start s' = t0" "used s' = 2 + int (length post)"
        using wait_run_slot [OF st(1), of u w ws] st u by auto
      then show ?thesis unfolding run using True late u p x by (auto simp: gets_through_Cons)
    next
      case False
      then have "\<not> fst (wait_run w u ws ?s)" using wait_full [OF st(1), of u ws w] st win x by auto
      moreover have "\<not> gets_through (cap s) ?e (x # ws)" using False late x gets_through_none by (simp add: gets_through_Cons)
      ultimately show ?thesis unfolding run by blast
    qed
  qed
qed

end

section \<open>The groups are such counters\<close>

definition group_inv :: "group \<Rightarrow> bool" where
  "group_inv g \<longleftrightarrow> 0 < g_limit g \<and> 0 \<le> g_count g \<and> g_count g \<le> g_limit g"

interpretation grp: window_counter group_inv g_limit g_count g_window_start take_slot
  by unfold_locales (auto simp: group_inv_def take_slot_def roll_window_def Let_def)

section \<open>All interleavings\<close>

text \<open>
  The atomic steps of the threads that share a limiter. \<open>Attempt a\<close> is a pass of a thread that
  has captured the group \<open>a\<close>, right after \<^verbatim>\<open>find\<close> or after a wake-up.
\<close>

datatype rl_op =
    Configure tariff
  | SetLimit "string list" int
  | TryAcquire string
  | Attempt nat

text \<open>The group from which a step took a slot, if it took one.\<close>

definition granted_group :: "limiter \<Rightarrow> nat \<Rightarrow> bool \<Rightarrow> nat option" where
  "granted_group l a ok = (if ok \<and> 0 < g_limit (rl_groups l ! a) then Some a else None)"

primrec rl_exec :: "rl_op \<Rightarrow> int \<Rightarrow> limiter \<Rightarrow> nat option \<times> limiter" where
  "rl_exec (Configure t) now l = (None, configure t l)"
| "rl_exec (SetLimit ms n) now l = (None, set_limit ms n l)"
| "rl_exec (TryAcquire m) now l =
     (case map_of (rl_by_method l) m of
        None \<Rightarrow> (None, snd (try_acquire m now l))
      | Some a \<Rightarrow> (granted_group l a (fst (try_acquire m now l)), snd (try_acquire m now l)))"
| "rl_exec (Attempt a) now l =
     (granted_group l a (fst (acquire_attempt a now l)), snd (acquire_attempt a now l))"

text \<open>Reachable limiters with the latest clock reading and the grants so far, newest first.\<close>

inductive rl_sys :: "limiter \<Rightarrow> int \<Rightarrow> (nat \<times> int) list \<Rightarrow> bool" where
  rl_init: "0 \<le> t \<Longrightarrow> rl_sys (mk_limiter w) t []"
| rl_step: "rl_sys l t gs \<Longrightarrow> t \<le> now \<Longrightarrow> (\<forall>a. op = Attempt a \<longrightarrow> a < length (rl_groups l)) \<Longrightarrow>
    rl_exec op now l = (gr, l') \<Longrightarrow>
    rl_sys l' now (case gr of None \<Rightarrow> gs | Some a \<Rightarrow> (a, now) # gs)"

definition grants_of :: "nat \<Rightarrow> (nat \<times> int) list \<Rightarrow> int list" where
  "grants_of a gs = map snd (filter (\<lambda>p. fst p = a) gs)"

definition table_ok :: "limiter \<Rightarrow> bool" where
  "table_ok l \<longleftrightarrow> distinct (map fst (rl_by_method l))
     \<and> (\<forall>a\<in>snd ` set (rl_by_method l). a < length (rl_groups l))"

text \<open>What every interleaving keeps.\<close>

definition group_ok :: "int \<Rightarrow> int \<Rightarrow> (nat \<times> int) list \<Rightarrow> nat \<Rightarrow> group \<Rightarrow> bool" where
  "group_ok w t gs a g \<longleftrightarrow> g_window_start g \<le> t
     \<and> (0 < g_limit g \<longrightarrow> grp.history_ok w g (grants_of a gs))
     \<and> (g_limit g \<le> 0 \<longrightarrow> grants_of a gs = [])"

definition rl_inv :: "limiter \<Rightarrow> int \<Rightarrow> (nat \<times> int) list \<Rightarrow> bool" where
  "rl_inv l t gs \<longleftrightarrow> 0 \<le> t \<and> table_ok l
     \<and> (\<forall>p\<in>set gs. fst p < length (rl_groups l))
     \<and> (\<forall>a<length (rl_groups l). group_ok (window_ns l) t gs a (rl_groups l ! a))"

lemma grants_of_Cons [simp]:
  "grants_of a ((b, u) # gs) = (if b = a then u # grants_of a gs else grants_of a gs)"
  by (simp add: grants_of_def)

lemma grants_of_none: "\<forall>p\<in>set gs. fst p < n \<Longrightarrow> grants_of n gs = []"
  by (auto simp: grants_of_def filter_empty_conv)

lemma group_ok_later: "group_ok w t gs a g \<Longrightarrow> t \<le> now \<Longrightarrow> group_ok w now gs a g"
  by (simp add: group_ok_def)

lemma update_values: "snd ` set (AList.update k v al) \<subseteq> insert v (snd ` set al)"
  by (induction al) auto

lemma assign_group_table:
  assumes "distinct (map fst tab)" "\<forall>b\<in>snd ` set tab. b < n" "a < n"
  shows "distinct (map fst (assign_group ms a tab)) \<and> (\<forall>b\<in>snd ` set (assign_group ms a tab). b < n)"
  using assms(1,2) unfolding assign_group_def
proof (induction ms arbitrary: tab)
  case (Cons m ms)
  have "b < n" if "b \<in> snd ` set (AList.update (normalize_method m) a tab)" for b
  proof -
    have "b = a \<or> b \<in> snd ` set tab" using rev_subsetD [OF that update_values] by (rule insertE) simp_all
    then show ?thesis using assms(3) bspec [OF Cons.prems(2)] by (elim disjE) simp_all
  qed
  then have "\<forall>b\<in>snd ` set (AList.update (normalize_method m) a tab). b < n" by (rule ballI)
  moreover have "distinct (map fst (AList.update (normalize_method m) a tab))"
    using Cons.prems(1) by (rule distinct_update)
  ultimately show ?case unfolding fold_simps o_apply using Cons.IH by blast
qed simp

lemma add_group_inv: "rl_inv l t gs \<Longrightarrow> rl_inv (add_group ms n l) t gs"
proof -
  assume inv: "rl_inv l t gs"
  have len: "length (rl_groups (add_group ms n l)) = Suc (length (rl_groups l))"
    by (simp add: add_group_def)
  have d: "distinct (map fst (rl_by_method l))"
    and b: "\<forall>b\<in>snd ` set (rl_by_method l). b < Suc (length (rl_groups l))"
    using inv by (auto simp: rl_inv_def table_ok_def intro: less_SucI)
  have tab: "table_ok (add_group ms n l)"
    using assign_group_table [OF d b, of "length (rl_groups l)" ms] by (simp add: table_ok_def add_group_def)
  let ?g = "\<lparr>g_limit = n, g_count = 0, g_window_start = 0\<rparr>"
  have "grants_of (length (rl_groups l)) gs = []"
    using inv by (intro grants_of_none) (auto simp: rl_inv_def)
  then have new: "group_ok (window_ns l) t gs (length (rl_groups l)) ?g"
    using inv grp.history_ok_init [of ?g "window_ns l"]
    by (auto simp: group_ok_def rl_inv_def group_inv_def)
  have "group_ok (window_ns l) t gs a (rl_groups (add_group ms n l) ! a)"
    if "a < Suc (length (rl_groups l))" for a
    using that inv new by (auto simp: add_group_def nth_append rl_inv_def less_Suc_eq)
  with inv len tab show ?thesis
    by (auto simp: rl_inv_def add_group_def window_ns_def less_Suc_eq)
qed

lemma configure_inv: "rl_inv l t gs \<Longrightarrow> rl_inv (configure tf l) t gs"
proof -
  have "rl_inv l t gs \<Longrightarrow>
      rl_inv (fold (\<lambda>ul. add_group (ul_methods ul) (ul_limit_per_minute ul)) tf l) t gs" for l
    by (induction tf arbitrary: l) (simp_all add: add_group_inv)
  moreover assume "rl_inv l t gs"
  then have "rl_inv (l\<lparr>rl_by_method := []\<rparr>) t gs"
    by (auto simp: rl_inv_def table_ok_def window_ns_def)
  ultimately show ?thesis by (simp add: configure_def)
qed

text \<open>Taking a slot from a group with a limit.\<close>

lemma take_slot_inv:
  assumes inv: "rl_inv l t gs" and t: "t \<le> now" and w: "0 < window_ns l"
    and a: "a < length (rl_groups l)" and lim: "0 < g_limit (rl_groups l ! a)"
    and run: "take_slot (window_ns l) now (rl_groups l ! a) = (ok, g)"
  shows "rl_inv (l\<lparr>rl_groups := (rl_groups l)[a := g]\<rparr>) now (if ok then (a, now) # gs else gs)"
proof -
  let ?g = "rl_groups l ! a"
  have ok: "group_ok (window_ns l) t gs a ?g" using inv a by (auto simp: rl_inv_def)
  have "grp.history_ok (window_ns l) g (grp.record_grant ok now (grants_of a gs))"
    using grp.history_step [OF w, of ?g "grants_of a gs" now] ok lim t run
    by (auto simp: group_ok_def)
  moreover have "g_limit g = g_limit ?g" "g_window_start g \<le> now"
    using run ok t by (auto simp: take_slot_def roll_window_def Let_def group_ok_def split: if_splits)
  ultimately have new: "group_ok (window_ns l) now (if ok then (a, now) # gs else gs) a g"
    using lim by (auto simp: group_ok_def grp.record_grant_def)
  have other: "group_ok (window_ns l) now (if ok then (a, now) # gs else gs) b (rl_groups l ! b)"
    if "b < length (rl_groups l)" "b \<noteq> a" for b
    using inv t that by (auto simp: rl_inv_def group_ok_def)
  show ?thesis
    using inv t a new other
    by (auto simp: rl_inv_def table_ok_def window_ns_def nth_list_update)
qed

lemma rl_inv_later: "rl_inv l t gs \<Longrightarrow> t \<le> now \<Longrightarrow> rl_inv l now gs"
  by (auto simp: rl_inv_def intro: group_ok_later)

lemma attempt_inv:
  assumes inv: "rl_inv l t gs" and t: "t \<le> now" and w: "0 < window_ns l"
    and a: "a < length (rl_groups l)" and run: "acquire_attempt a now l = (ok, l')"
  shows "rl_inv l' now (case granted_group l a ok of None \<Rightarrow> gs | Some b \<Rightarrow> (b, now) # gs)"
proof (cases "g_limit (rl_groups l ! a) \<le> 0")
  case True
  then show ?thesis
    using run rl_inv_later [OF inv t] by (simp add: acquire_attempt_def granted_group_def)
next
  case False
  obtain ok' g where slot: "take_slot (window_ns l) now (rl_groups l ! a) = (ok', g)"
    by (cases "take_slot (window_ns l) now (rl_groups l ! a)")
  from False take_slot_inv [OF inv t w a _ slot] run slot show ?thesis
    by (auto simp: acquire_attempt_def granted_group_def split: if_splits)
qed

lemma try_acquire_attempt:
  "map_of (rl_by_method l) m = Some a \<Longrightarrow> try_acquire m now l = acquire_attempt a now l"
  by (simp add: try_acquire_def acquire_attempt_def)

lemma table_ok_lookup: "table_ok l \<Longrightarrow> map_of (rl_by_method l) m = Some a \<Longrightarrow> a < length (rl_groups l)"
  by (force simp: table_ok_def dest: map_of_SomeD)

lemma add_group_window [simp]: "rl_window_ms (add_group ms n l) = rl_window_ms l"
  by (simp add: add_group_def)

lemma configure_window [simp]: "rl_window_ms (configure t l) = rl_window_ms l"
proof -
  have "rl_window_ms (fold (\<lambda>ul. add_group (ul_methods ul) (ul_limit_per_minute ul)) t l)
      = rl_window_ms l" for l
    by (induction t arbitrary: l) simp_all
  then show ?thesis by (simp add: configure_def)
qed

lemma acquire_attempt_window [simp]: "rl_window_ms (snd (acquire_attempt a now l)) = rl_window_ms l"
  by (simp add: acquire_attempt_def split: prod.split)

lemma try_acquire_window [simp]: "rl_window_ms (snd (try_acquire m now l)) = rl_window_ms l"
  by (cases "map_of (rl_by_method l) m") (simp add: try_acquire_def, simp add: try_acquire_attempt)

lemma rl_exec_window: "rl_exec op now l = (gr, l') \<Longrightarrow> rl_window_ms l' = rl_window_ms l"
  by (cases op) (auto simp: set_limit_def split: option.splits)

lemma rl_exec_inv:
  assumes inv: "rl_inv l t gs" and t: "t \<le> now" and w: "0 < window_ns l"
    and valid: "\<forall>a. op = Attempt a \<longrightarrow> a < length (rl_groups l)"
    and run: "rl_exec op now l = (gr, l')"
  shows "rl_inv l' now (case gr of None \<Rightarrow> gs | Some a \<Rightarrow> (a, now) # gs)"
proof (cases op)
  case (Configure tf)
  then show ?thesis using run configure_inv [OF rl_inv_later [OF inv t]] by auto
next
  case (SetLimit ms n)
  then show ?thesis using run add_group_inv [OF rl_inv_later [OF inv t]] by (auto simp: set_limit_def)
next
  case (TryAcquire m)
  show ?thesis
  proof (cases "map_of (rl_by_method l) m")
    case None
    then show ?thesis
      using run TryAcquire rl_inv_later [OF inv t] by (auto simp: try_acquire_def)
  next
    case (Some a)
    then have a: "a < length (rl_groups l)" using inv table_ok_lookup by (auto simp: rl_inv_def)
    from run TryAcquire Some attempt_inv [OF inv t w a prod.collapse [symmetric]]
    show ?thesis by (auto simp: try_acquire_attempt)
  qed
next
  case (Attempt a)
  then show ?thesis
    using run valid attempt_inv [OF inv t w _ prod.collapse [symmetric], of a] by auto
qed

lemma rl_sys_inv: "rl_sys l t gs \<Longrightarrow> 0 < rl_window_ms l \<Longrightarrow> rl_inv l t gs"
proof (induction rule: rl_sys.induct)
  case (rl_init t w)
  then show ?case by (simp add: rl_inv_def mk_limiter_def table_ok_def)
next
  case (rl_step l t gs now op gr l')
  then have "0 < rl_window_ms l" using rl_exec_window by metis
  then have "rl_inv l t gs" "0 < window_ns l" using rl_step.IH by (simp_all add: window_ns_def)
  with rl_step.hyps show ?case by (intro rl_exec_inv)
qed

text \<open>
  C3: in every interleaving of configuration, blocking and non-blocking calls, a group with a
  positive limit grants at most its limit since its window started, and at most twice its limit
  in any period of one window length, wherever that period begins.
\<close>

theorem grants_bounded:
  assumes "rl_sys l t gs" "0 < rl_window_ms l" "a < length (rl_groups l)"
    "0 < g_limit (rl_groups l ! a)"
  shows "int (length (filter (\<lambda>u. g_window_start (rl_groups l ! a) \<le> u) (grants_of a gs)))
        = g_count (rl_groups l ! a)
    \<and> g_count (rl_groups l ! a) \<le> g_limit (rl_groups l ! a)
    \<and> (\<forall>s. int (length (filter (\<lambda>u. s \<le> u \<and> u < s + window_ns l) (grants_of a gs)))
        \<le> 2 * g_limit (rl_groups l ! a))"
proof -
  have "grp.history_ok (window_ns l) (rl_groups l ! a) (grants_of a gs)"
    using rl_sys_inv [OF assms(1,2)] assms(3,4) by (simp add: rl_inv_def group_ok_def)
  then show ?thesis by (simp add: grp.history_ok_def group_inv_def)
qed

text \<open>A limiter with one group of two calls per second, after three non-blocking attempts.\<close>

definition demo_limiter :: limiter where
  "demo_limiter = set_limit [''/S/A'', ''S/B''] 2 (mk_limiter 1000)"

lemma demo_limiter_simps:
  "rl_by_method demo_limiter = [(''S/A'', 0), (''S/B'', 0)]"
  "rl_groups demo_limiter = [\<lparr>g_limit = 2, g_count = 0, g_window_start = 0\<rparr>]"
  "rl_window_ms demo_limiter = 1000"
  by (simp_all add: demo_limiter_def set_limit_def add_group_def mk_limiter_def assign_group_def
      normalize_method_def)

lemma demo_run:
  "rl_sys (demo_limiter\<lparr>rl_groups := [\<lparr>g_limit = 2, g_count = 1, g_window_start = 5000000000\<rparr>]\<rparr>)
     5000000000 [(0, 5000000000)]"
proof -
  have 0: "rl_sys (mk_limiter 1000) 0 []" by (rule rl_init) simp
  have 1: "rl_sys demo_limiter 0 []"
    using rl_step [OF 0, of 0 "SetLimit [''/S/A'', ''S/B''] 2"] by (simp add: demo_limiter_def)
  show ?thesis
    using rl_step [OF 1, of 5000000000 "TryAcquire ''S/A''" "Some 0"]
    by (simp add: demo_limiter_simps try_acquire_def take_slot_def roll_window_def window_ns_def
        granted_group_def Let_def)
qed

theorem grants_bounded_witness:
  "length (filter (\<lambda>u. (4500000000::int) \<le> u \<and> u < 4500000000 + 1000000000)
     (grants_of 0 [(0, 5000000000)])) = 1 \<and> (1::int) \<le> 2 * 2"
  using grants_bounded [OF demo_run, of 0]
  by (simp add: demo_limiter_simps window_ns_def grants_of_def)

section \<open>The method table\<close>

lemma assign_group_lookup:
  "map_of (assign_group ms a tab) m = (if m \<in> normalize_method ` set ms then Some a else map_of tab m)"
  unfolding assign_group_def by (induction ms arbitrary: tab) (auto simp: update_conv')

lemma add_group_lookup:
  "map_of (rl_by_method (add_group ms n l)) m =
     (if m \<in> normalize_method ` set ms then Some (length (rl_groups l))
      else map_of (rl_by_method l) m)"
  by (simp add: add_group_def assign_group_lookup)

text \<open>The limit that governs a method: that of the last group of the tariff that lists it.\<close>

definition tariff_limit :: "tariff \<Rightarrow> string \<Rightarrow> int option" where
  "tariff_limit t m =
     fold (\<lambda>ul r. if m \<in> normalize_method ` set (ul_methods ul)
                  then Some (ul_limit_per_minute ul) else r) t None"

definition limit_of :: "limiter \<Rightarrow> string \<Rightarrow> int option" where
  "limit_of l m = map_option (\<lambda>a. g_limit (rl_groups l ! a)) (map_of (rl_by_method l) m)"

text \<open>The configuration of a limiter: everything but the counters and the starts of the windows.\<close>

definition rl_config :: "limiter \<Rightarrow> int \<times> (string \<times> nat) list \<times> int list" where
  "rl_config l = (rl_window_ms l, rl_by_method l, map g_limit (rl_groups l))"

lemma attempt_config: "rl_config (snd (acquire_attempt a now l)) = rl_config l"
proof -
  obtain ok g where t: "take_slot (window_ns l) now (rl_groups l ! a) = (ok, g)"
    by (cases "take_slot (window_ns l) now (rl_groups l ! a)")
  have "g_limit (snd (take_slot (window_ns l) now (rl_groups l ! a))) = g_limit (rl_groups l ! a)"
    by (simp add: take_slot_def roll_window_def Let_def)
  moreover have "(map g_limit (rl_groups l))[a := g_limit (rl_groups l ! a)] = map g_limit (rl_groups l)"
    by (simp add: map_update [symmetric])
  ultimately show ?thesis by (simp add: acquire_attempt_def rl_config_def map_update t)
qed

lemma acquire_config:
  assumes "\<forall>w\<in>set (snd ts). \<forall>l. rl_config (fst w l) = rl_config l"
  shows "rl_config (snd (acquire m ts l)) = rl_config l"
proof -
  have "rl_config (snd (acquire_loop a now ws l)) = rl_config l"
    if "\<forall>w\<in>set ws. \<forall>l. rl_config (fst w l) = rl_config l" for a now ws l
    using that
  proof (induction a now ws l rule: acquire_loop.induct)
    case (2 a now others u ws l)
    obtain ok l1 where "acquire_attempt a now l = (ok, l1)" by (cases "acquire_attempt a now l")
    then show ?case using 2 attempt_config [of a now l] by (cases ok) auto
  qed (simp add: attempt_config)
  then show ?thesis using assms by (simp add: acquire_def split: option.split)
qed

lemma add_group_limit:
  assumes "table_ok l"
  shows "limit_of (add_group ms n l) m =
      (if m \<in> normalize_method ` set ms then Some n else limit_of l m)"
proof -
  have "rl_groups (add_group ms n l) ! a = rl_groups l ! a" if "map_of (rl_by_method l) m = Some a" for a
    using table_ok_lookup [OF assms that] by (simp add: add_group_def nth_append)
  then show ?thesis
    by (cases "map_of (rl_by_method l) m")
      (auto simp: limit_of_def add_group_lookup, auto simp: add_group_def)
qed

lemma add_group_table: "table_ok l \<Longrightarrow> table_ok (add_group ms n l)"
proof -
  assume ok: "table_ok l"
  then have d: "distinct (map fst (rl_by_method l))"
    and b: "\<forall>b\<in>snd ` set (rl_by_method l). b < Suc (length (rl_groups l))"
    by (auto simp: table_ok_def intro: less_SucI)
  show ?thesis
    using assign_group_table [OF d b, of "length (rl_groups l)" ms]
    by (simp add: table_ok_def add_group_def)
qed

lemma configure_fold_limit:
  "table_ok l \<Longrightarrow>
   limit_of (fold (\<lambda>ul. add_group (ul_methods ul) (ul_limit_per_minute ul)) t l) m =
   fold (\<lambda>ul r. if m \<in> normalize_method ` set (ul_methods ul)
                then Some (ul_limit_per_minute ul) else r) t (limit_of l m)"
  by (induction t arbitrary: l) (simp_all add: add_group_table add_group_limit)

lemma configure_limit: "limit_of (configure t l) m = tariff_limit t m"
  unfolding configure_def tariff_limit_def
  by (subst configure_fold_limit) (simp_all add: table_ok_def limit_of_def)

lemma unlimited_passes:
  "(case limit_of l m of None \<Rightarrow> True | Some n \<Rightarrow> n \<le> 0) \<Longrightarrow>
     try_acquire m now l = (True, l) \<and> acquire m ts l = (True, l)"
proof -
  assume h: "case limit_of l m of None \<Rightarrow> True | Some n \<Rightarrow> n \<le> 0"
  have "acquire_loop a t ws l = (True, l)" if "g_limit (rl_groups l ! a) \<le> 0" for a t ws
    using that by (cases ws) (auto simp: acquire_attempt_def)
  then show ?thesis
    using h by (cases "map_of (rl_by_method l) m") (auto simp: limit_of_def try_acquire_def acquire_def)
qed

text \<open>
  \<^verbatim>\<open>configure\<close> replaces the whole table: afterwards a method is governed by the limit of
  the last tariff group that lists it (with or without a leading slash), and a method that no
  group lists, or whose group reports a limit of zero, passes both kinds of acquisition at once
  and leaves the limiter untouched.
\<close>

lemma configure_governs:
  "limit_of (configure t l) m = tariff_limit t m
   \<and> ((tariff_limit t m = None \<or> tariff_limit t m = Some 0) \<longrightarrow>
        try_acquire m now (configure t l) = (True, configure t l)
        \<and> acquire m ts (configure t l) = (True, configure t l))"
  using unlimited_passes [of "configure t l" m now ts] configure_limit [of t l m] by auto

section \<open>A group is one shared budget\<close>

text \<open>A sequence of non-blocking calls, each with the clock reading it sees.\<close>

fun try_run :: "(string \<times> int) list \<Rightarrow> limiter \<Rightarrow> bool list" where
  "try_run [] l = []"
| "try_run ((m, now) # cs) l =
     (let (ok, l') = try_acquire m now l in ok # try_run cs l')"

lemma try_run_group:
  assumes "\<forall>c\<in>set cs. map_of (rl_by_method l) (fst c) = Some a"
    and "a < length (rl_groups l)" "group_inv (rl_groups l ! a)"
  shows "try_run cs l = grp.take_run (window_ns l) (map snd cs) (rl_groups l ! a)"
  using assms
proof (induction cs arbitrary: l)
  case (Cons c cs)
  obtain m now where c: "c = (m, now)" by (cases c)
  obtain ok g where slot: "take_slot (window_ns l) now (rl_groups l ! a) = (ok, g)"
    by (cases "take_slot (window_ns l) now (rl_groups l ! a)")
  let ?l = "l\<lparr>rl_groups := (rl_groups l)[a := g]\<rparr>"
  have tried: "try_acquire m now l = (ok, ?l)"
    using Cons.prems c slot by (simp add: try_acquire_def group_inv_def)
  have "group_inv g" using grp.take_inv [OF Cons.prems(3), of "window_ns l" now] slot by simp
  then have "try_run cs ?l = grp.take_run (window_ns ?l) (map snd cs) (rl_groups ?l ! a)"
    using Cons.prems by (intro Cons.IH) simp_all
  then show ?case using c tried slot Cons.prems(2) by (simp add: window_ns_def)
qed simp

text \<open>
  After \<^verbatim>\<open>set_limit(methods, n)\<close> the listed methods share one budget: of any sequence of
  non-blocking calls on any of them within one window of the first call, exactly the first
  \<open>n\<close> are let through.
\<close>

lemma set_limit_shared_budget:
  assumes "0 < n" "\<forall>c\<in>set cs. fst c \<in> normalize_method ` set ms"
    and "cs \<noteq> []" "window_ns l \<le> snd (hd cs)"
    and "\<forall>c\<in>set cs. snd c < snd (hd cs) + window_ns l"
  shows "try_run cs (set_limit ms n l) = map (\<lambda>i. int i < n) [0..<length cs]"
proof -
  let ?g = "\<lparr>g_limit = n, g_count = 0, g_window_start = 0\<rparr>"
  let ?w = "window_ns l"
  obtain m t cs' where cs: "cs = (m, t) # cs'" using assms(3) by (cases cs) auto
  have inv: "group_inv ?g" using assms(1) by (simp add: group_inv_def)
  have "try_run cs (set_limit ms n l) = grp.take_run ?w (map snd cs) ?g"
    using try_run_group [of cs "set_limit ms n l" "length (rl_groups l)"] assms(2) inv
    by (simp add: set_limit_def add_group_lookup) (simp add: add_group_def window_ns_def)
  also have "\<dots> = True # grp.take_run ?w (map snd cs') (snd (take_slot ?w t ?g))"
    using cs grp.take_rolled [OF inv, of ?w t] assms(4) by simp
  also have "grp.take_run ?w (map snd cs') (snd (take_slot ?w t ?g))
      = map (\<lambda>i. 1 + int i < n) [0..<length cs']"
    using grp.take_rolled [OF inv, of ?w t] grp.take_inv [OF inv, of ?w t] assms(4,5) cs
    by (subst grp.take_run_window) auto
  also have "True # map (\<lambda>i. 1 + int i < n) [0..<length cs'] = map (\<lambda>i. int i < n) [0..<length cs]"
    using assms(1) cs
    by (simp add: upt_conv_Cons map_Suc_upt [symmetric] o_def del: upt_Suc)
  finally show ?thesis .
qed

section \<open>Blocking\<close>

text \<open>
  Reconfiguration does not touch the groups that exist: a thread that captured one before
  \<^verbatim>\<open>configure\<close> keeps waiting for the old window, although it is notified.
\<close>

lemma configure_keeps_groups:
  "a < length (rl_groups l) \<Longrightarrow> rl_groups (configure t l) ! a = rl_groups l ! a
     \<and> a < length (rl_groups (configure t l))"
proof -
  have "a < length (rl_groups l) \<Longrightarrow>
      rl_groups (fold (\<lambda>ul. add_group (ul_methods ul) (ul_limit_per_minute ul)) t l) ! a = rl_groups l ! a
      \<and> a < length (rl_groups (fold (\<lambda>ul. add_group (ul_methods ul) (ul_limit_per_minute ul)) t l))" for l
  proof (induction t arbitrary: l)
    case (Cons ul t)
    then show ?case
      using Cons.IH [of "add_group (ul_methods ul) (ul_limit_per_minute ul) l"]
      by (simp add: add_group_def nth_append)
  qed simp
  from this [of "l\<lparr>rl_by_method := []\<rparr>"] show "a < length (rl_groups l) \<Longrightarrow> ?thesis"
    by (simp add: configure_def)
qed

text \<open>
  What the other threads do while one is waiting: any sequence of atomic steps, each with its clock
  reading. A non-blocking call is a pass on the group that it finds in the table, so it is enough to
  consider sequences in which it appears as \<open>Attempt\<close> (\<open>others_run_plain\<close>). The passes on the group of
  the waiting thread, and the readings that the group sees.
\<close>

definition others_run :: "(rl_op \<times> int) list \<Rightarrow> limiter \<Rightarrow> limiter" where
  "others_run ops l = fold (\<lambda>(op, t) l. snd (rl_exec op t l)) ops l"

definition plain_ops :: "(rl_op \<times> int) list \<Rightarrow> bool" where
  "plain_ops ops \<longleftrightarrow> list_all (\<lambda>p. case fst p of TryAcquire m \<Rightarrow> False | _ \<Rightarrow> True) ops"

definition group_passes :: "nat \<Rightarrow> (rl_op \<times> int) list \<Rightarrow> int list" where
  "group_passes a ops = map snd (filter (\<lambda>p. fst p = Attempt a) ops)"

definition group_readings :: "nat \<Rightarrow> ((rl_op \<times> int) list \<times> int) list \<Rightarrow> int list" where
  "group_readings a ws = concat (map (\<lambda>(ops, u). group_passes a ops @ [u]) ws)"

definition wakes :: "((rl_op \<times> int) list \<times> int) list \<Rightarrow> wake list" where
  "wakes ws = map (\<lambda>(ops, u). (others_run ops, u)) ws"

lemma others_run_plain: "\<exists>ops'. plain_ops ops' \<and> others_run ops' l = others_run ops l"
proof (induction ops arbitrary: l)
  case Nil
  then show ?case by (intro exI [of _ "[]"]) (simp add: plain_ops_def)
next
  case (Cons p ops)
  obtain op t where p: "p = (op, t)" by (cases p)
  obtain qs where qs: "plain_ops qs" "others_run qs l = snd (rl_exec op t l)"
  proof (cases "\<exists>m. op = TryAcquire m")
    case True
    then obtain m where m: "op = TryAcquire m" by blast
    show thesis
    proof (cases "map_of (rl_by_method l) m")
      case None
      then show thesis using m that [of "[]"] by (simp add: plain_ops_def others_run_def try_acquire_def)
    next
      case (Some b)
      then show thesis
        using m that [of "[(Attempt b, t)]"]
        by (simp add: plain_ops_def others_run_def try_acquire_def acquire_attempt_def)
    qed
  next
    case False
    then show thesis using that [of "[(op, t)]"] by (cases op) (simp_all add: plain_ops_def others_run_def)
  qed
  obtain ops' where "plain_ops ops'" "others_run ops' (snd (rl_exec op t l)) = others_run ops (snd (rl_exec op t l))"
    using Cons.IH by blast
  then show ?case
    using qs p by (intro exI [of _ "qs @ ops'"]) (simp add: plain_ops_def others_run_def)
qed

lemma attempt_group:
  assumes "a < length (rl_groups l)" "group_inv (rl_groups l ! a)"
  shows "fst (acquire_attempt a t l) = fst (take_slot (window_ns l) t (rl_groups l ! a))"
    and "rl_groups (snd (acquire_attempt a t l)) ! a = snd (take_slot (window_ns l) t (rl_groups l ! a))"
    and "length (rl_groups (snd (acquire_attempt b t l))) = length (rl_groups l)"
    and "b \<noteq> a \<Longrightarrow> rl_groups (snd (acquire_attempt b t l)) ! a = rl_groups l ! a"
    and "window_ns (snd (acquire_attempt b t l)) = window_ns l"
  using assms by (simp_all add: acquire_attempt_def window_ns_def group_inv_def split: prod.splits)

lemma others_run_group:
  assumes "a < length (rl_groups l)" "group_inv (rl_groups l ! a)" "plain_ops ops"
  shows "rl_groups (others_run ops l) ! a = grp.take_all (window_ns l) (group_passes a ops) (rl_groups l ! a)
    \<and> a < length (rl_groups (others_run ops l)) \<and> window_ns (others_run ops l) = window_ns l
    \<and> group_inv (rl_groups (others_run ops l) ! a)"
  using assms
proof (induction ops arbitrary: l)
  case Nil
  then show ?case by (simp add: others_run_def group_passes_def grp.take_all.simps)
next
  case (Cons p ops)
  obtain op t where p: "p = (op, t)" by (cases p)
  let ?l = "snd (rl_exec op t l)"
  have pl: "plain_ops ops" using Cons.prems(3) by (simp add: plain_ops_def)
  have tl: "others_run (p # ops) l = others_run ops ?l" by (simp add: others_run_def p)
  show ?case
  proof (cases "op = Attempt a")
    case True
    let ?g = "snd (take_slot (window_ns l) t (rl_groups l ! a))"
    have "rl_groups ?l ! a = ?g" "a < length (rl_groups ?l)" "window_ns ?l = window_ns l" "group_inv ?g"
      using True attempt_group [OF Cons.prems(1,2)] Cons.prems(1) grp.take_inv [OF Cons.prems(2)] by simp_all
    then show ?thesis
      using Cons.IH [of ?l] pl True p tl by (auto simp: group_passes_def grp.take_all.simps)
  next
    case False
    have "rl_groups ?l ! a = rl_groups l ! a" "a < length (rl_groups ?l)" "window_ns ?l = window_ns l"
      using False Cons.prems attempt_group(3-5) [OF Cons.prems(1,2)] configure_keeps_groups [OF Cons.prems(1)] p
      by (cases op; simp add: plain_ops_def set_limit_def add_group_def nth_append window_ns_def)+
    then show ?thesis using Cons.IH [of ?l] Cons.prems(2) pl False p tl by (auto simp: group_passes_def)
  qed
qed

lemma acquire_loop_group:
  assumes "a < length (rl_groups l)" "group_inv (rl_groups l ! a)" "\<forall>x\<in>set ws. plain_ops (fst x)"
  shows "fst (acquire_loop a now (wakes ws) l)
      = fst (grp.wait_run (window_ns l) now (map (\<lambda>(ops, u). (group_passes a ops, u)) ws) (rl_groups l ! a))
    \<and> rl_groups (snd (acquire_loop a now (wakes ws) l)) ! a
      = snd (grp.wait_run (window_ns l) now (map (\<lambda>(ops, u). (group_passes a ops, u)) ws) (rl_groups l ! a))"
  using assms
proof (induction ws arbitrary: l now)
  case Nil
  then show ?case using attempt_group(1,2) [OF Nil.prems(1,2)] by (simp add: wakes_def grp.wait_run.simps)
next
  case (Cons x ws)
  obtain ops u where x: "x = (ops, u)" by (cases x)
  obtain ok l1 where at: "acquire_attempt a now l = (ok, l1)" by (cases "acquire_attempt a now l")
  obtain g where l1: "take_slot (window_ns l) now (rl_groups l ! a) = (ok, g)" "rl_groups l1 ! a = g" "a < length (rl_groups l1)"
    "window_ns l1 = window_ns l" "group_inv g"
    using attempt_group(1,2) [OF Cons.prems(1,2), of now] attempt_group(3,5) [OF Cons.prems(1,2), of a now] at Cons.prems(1)
      grp.take_inv [OF Cons.prems(2), of "window_ns l" now] by (cases "take_slot (window_ns l) now (rl_groups l ! a)") auto
  then have o: "rl_groups (others_run ops l1) ! a = grp.take_all (window_ns l) (group_passes a ops) g"
    "a < length (rl_groups (others_run ops l1))" "window_ns (others_run ops l1) = window_ns l"
    "group_inv (rl_groups (others_run ops l1) ! a)"
    using others_run_group [of a l1 ops] Cons.prems(3) x by auto
  show ?case
    using Cons.IH [of "others_run ops l1" u] Cons.prems(3) o at l1(1,2) x
    by (cases ok) (simp_all add: wakes_def grp.wait_run.simps)
qed

text \<open>
  C32: a thread that finds its group exhausted shares the next window with the other waiting threads.
  Whatever the others do while it waits, with the mutex released: it stays blocked at every wake-up before
  the end of the window, spurious ones and notifications included, and among the passes of the
  threads after that end it is one of the first \<open>limit\<close>: it returns exactly if at one of its
  wake-ups the window is over and fewer than \<open>limit\<close> other passes on the group have come
  since. The window it is counted in was opened by a pass after the end of the old one,
  its own or another's, and is not overbooked. (The clock is monotone and the readings after the end lie
  within one window.)
\<close>

theorem acquire_waits_for_window:
  assumes "map_of (rl_by_method l) m = Some a" "a < length (rl_groups l)" "0 < window_ns l"
    and "group_inv (rl_groups l ! a)" "g_count (rl_groups l ! a) = g_limit (rl_groups l ! a)"
    and "e = g_window_start (rl_groups l ! a) + window_ns l" "now < e"
    and "\<forall>x\<in>set ws. plain_ops (fst x)" "sorted (group_readings a ws)"
    and "\<forall>t\<in>set (group_readings a ws). \<forall>t'\<in>set (group_readings a ws). e \<le> t' \<longrightarrow> t < t' + window_ns l"
    and "acquire m (now, wakes ws) l = (ok, l')"
  shows "(ok \<longleftrightarrow> (\<exists>k<length ws. e \<le> snd (ws ! k)
        \<and> int (length (filter (\<lambda>t. e \<le> t) (concat (map (\<lambda>x. group_passes a (fst x)) (take (Suc k) ws)))))
            < g_limit (rl_groups l ! a)))
    \<and> (ok \<longrightarrow> e \<le> g_window_start (rl_groups l' ! a) \<and> g_window_start (rl_groups l' ! a) \<in> set (group_readings a ws)
        \<and> 0 < g_count (rl_groups l' ! a) \<and> g_count (rl_groups l' ! a) \<le> g_limit (rl_groups l ! a))"
proof -
  let ?vs = "map (\<lambda>(ops, u). (group_passes a ops, u)) ws"
  let ?r = "grp.wait_run (window_ns l) now ?vs (rl_groups l ! a)"
  have r: "ok = fst ?r" "rl_groups l' ! a = snd ?r"
    using acquire_loop_group [OF assms(2,4,8), of now] assms(1,11) by (simp_all add: acquire_def)
  have rd: "window_counter.readings ?vs = group_readings a ws"
    by (induction ws) (auto simp: grp.readings_def group_readings_def)
  have k: "window_counter.gets_through c e ?vs \<longleftrightarrow> (\<exists>k<length ws. e \<le> snd (ws ! k)
      \<and> int (length (filter (\<lambda>t. e \<le> t) (concat (map (\<lambda>x. group_passes a (fst x)) (take (Suc k) ws))))) < c)" for c
    by (auto simp: grp.gets_through_def take_map comp_def case_prod_beta)
  show ?thesis
    using grp.wait_run_next [OF assms(4,5), of now "window_ns l" ?vs, folded assms(6)] assms(3,7,9,10) unfolding rd r k by simp
qed

text \<open>
  Two threads wait for a group of two calls per second; a third one makes one pass right after the end of
  the window. The first wake-up is too early, the second one lets the thread through in the window that
  the other one has opened; after two passes of others it would have kept waiting.
\<close>

definition full_limiter :: limiter where
  "full_limiter = demo_limiter\<lparr>rl_groups := [\<lparr>g_limit = 2, g_count = 2, g_window_start = 5000000000\<rparr>]\<rparr>"

theorem acquire_waits_for_window_witness:
  "fst (acquire ''S/A'' (5500000000, wakes [([], 5900000000), ([(Attempt 0, 6000000000)], 6100000000)]) full_limiter)
   \<and> \<not> fst (acquire ''S/A'' (5500000000, wakes [([], 5900000000),
        ([(Attempt 0, 6000000000), (Attempt 0, 6000000000)], 6100000000)]) full_limiter)"
proof -
  let ?w1 = "[([], 5900000000), ([(Attempt 0, 6000000000)], 6100000000)] :: ((rl_op \<times> int) list \<times> int) list"
  let ?w2 = "[([], 5900000000), ([(Attempt 0, 6000000000), (Attempt 0, 6000000000)], 6100000000)] :: ((rl_op \<times> int) list \<times> int) list"
  have h: "map_of (rl_by_method full_limiter) ''S/A'' = Some 0" "0 < length (rl_groups full_limiter)"
    "0 < window_ns full_limiter" "group_inv (rl_groups full_limiter ! 0)"
    "g_count (rl_groups full_limiter ! 0) = g_limit (rl_groups full_limiter ! 0)"
    "6000000000 = g_window_start (rl_groups full_limiter ! 0) + window_ns full_limiter"
    "(5500000000 :: int) < 6000000000"
    by (simp_all add: full_limiter_def demo_limiter_simps group_inv_def window_ns_def)
  have w: "\<forall>x\<in>set ws. plain_ops (fst x)" "sorted (group_readings 0 ws)"
    "\<forall>t\<in>set (group_readings 0 ws). \<forall>t'\<in>set (group_readings 0 ws). 6000000000 \<le> t' \<longrightarrow> t < t' + window_ns full_limiter"
    if "ws = ?w1 \<or> ws = ?w2" for ws
    using that by (auto simp: plain_ops_def group_readings_def group_passes_def full_limiter_def demo_limiter_simps window_ns_def)
  note waits = acquire_waits_for_window [OF h w prod.collapse [symmetric]]
  have "fst (acquire ''S/A'' (5500000000, wakes ?w1) full_limiter)"
    using waits [of ?w1] by (simp add: group_passes_def full_limiter_def Ex_less_Suc2)
  moreover have "\<not> fst (acquire ''S/A'' (5500000000, wakes ?w2) full_limiter)"
    using waits [of ?w2] by (simp add: group_passes_def full_limiter_def Ex_less_Suc2)
  ultimately show ?thesis by blast
qed

text \<open>
  So a thread that captured an exhausted group before \<^verbatim>\<open>configure\<close> waits on, even when the new
  tariff does not limit its method at all.
\<close>

lemma reconfigure_keeps_waiting:
  assumes "a < length (rl_groups l)" "group_inv (rl_groups l ! a)"
    and "g_count (rl_groups l ! a) = g_limit (rl_groups l ! a)"
    and "now < g_window_start (rl_groups l ! a) + window_ns l" "u < g_window_start (rl_groups l ! a) + window_ns l"
  shows "\<not> fst (acquire_loop a now [(configure t, u)] l)"
proof -
  have ws: "[(configure t, u)] = wakes [([(Configure t, now)], u)]"
    by (simp add: wakes_def others_run_def fun_eq_iff)
  have "group_passes a [(Configure t, now)] = []" by (simp add: group_passes_def)
  then show ?thesis
    using acquire_loop_group [OF assms(1,2), of "[([(Configure t, now)], u)]" now] grp.wait_full [OF assms(2,3), of now "[([], u)]" "window_ns l"]
      assms(4,5) unfolding ws by (simp add: plain_ops_def grp.readings_def)
qed

end
