(* ===== verification/Client.thy ===== *)
theory Client
  imports Error Rate_Limiter
begin

text \<open>
  \<^verbatim>\<open>include/tinvest/client.hpp\<close>, \<^verbatim>\<open>include/tinvest/call_options.hpp\<close> and
  \<^verbatim>\<open>src/client.cpp\<close>: the configuration and its defaults, the construction of the channel
  (arguments, choice of trusted roots) and the metadata and deadline of a call. The gRPC objects
  are the data the code hands to them: the settings made on \<^verbatim>\<open>ChannelArguments\<close> in order,
  the kind of credentials, and the metadata and deadline put on a \<^verbatim>\<open>ClientContext\<close>. The
  file system is an argument: the contents of the readable files.
\<close>

section \<open>Configuration\<close>

record retry_policy =
  rp_max_attempts :: int
  rp_on_rate_limit :: bool
  rp_on_unavailable :: bool
  rp_max_wait :: int

definition default_retry_policy :: retry_policy where
  "default_retry_policy = \<lparr>rp_max_attempts = 3, rp_on_rate_limit = True, rp_on_unavailable = True,
     rp_max_wait = 65000\<rparr>"

datatype channel_arg =
    KeepaliveTimeMs int
  | KeepaliveTimeoutMs int
  | KeepalivePermitWithoutCalls int
  | Http2MaxPingsWithoutData int
  | MaxReceiveMessageSize int
  | UserAgentPrefix string

record config =
  cfg_token :: string
  cfg_endpoint :: string
  cfg_app_name :: string
  cfg_use_tls :: bool
  cfg_ca_file :: string
  cfg_default_timeout :: "int option"
  cfg_retry :: retry_policy
  cfg_tune_channel :: "(channel_arg list \<Rightarrow> channel_arg list) option"

definition kDefaultEndpoint :: string where
  "kDefaultEndpoint = ''invest-public-api.tbank.ru:443''"

definition kLegacyEndpoint :: string where
  "kLegacyEndpoint = ''invest-public-api.tinkoff.ru:443''"

definition default_config :: config where
  "default_config = \<lparr>cfg_token = [], cfg_endpoint = kDefaultEndpoint, cfg_app_name = ''tinvest-cpp'',
     cfg_use_tls = True, cfg_ca_file = [], cfg_default_timeout = None,
     cfg_retry = default_retry_policy, cfg_tune_channel = None\<rparr>"

record call_options =
  co_timeout :: "int option"
  co_metadata :: "(string \<times> string) list"
  co_retry :: "bool option"

definition default_call_options :: call_options where
  "default_call_options = \<lparr>co_timeout = None, co_metadata = [], co_retry = None\<rparr>"

section \<open>Construction\<close>

datatype credentials = SslCredentials string | InsecureChannelCredentials

record channel =
  ch_endpoint :: string
  ch_credentials :: credentials
  ch_args :: "channel_arg list"

record client =
  cl_config :: config
  cl_auth_header :: string
  cl_channel :: channel
  cl_limiter :: limiter

type_synonym file_system = "string \<Rightarrow> string option"

definition channel_args :: "config \<Rightarrow> channel_arg list" where
  "channel_args cfg =
     (let args = [KeepaliveTimeMs 30000, KeepaliveTimeoutMs 10000, KeepalivePermitWithoutCalls 1,
        Http2MaxPingsWithoutData 0, MaxReceiveMessageSize (64 * 1024 * 1024),
        UserAgentPrefix (cfg_app_name cfg)]
      in case cfg_tune_channel cfg of None \<Rightarrow> args | Some tune \<Rightarrow> tune args)"

definition system_bundle :: string where
  "system_bundle = ''/etc/ssl/certs/ca-certificates.crt''"

definition ca_path :: "file_system \<Rightarrow> config \<Rightarrow> string" where
  "ca_path fs cfg =
     (if cfg_ca_file cfg \<noteq> [] then cfg_ca_file cfg
      else if fs system_bundle \<noteq> None then system_bundle else [])"

text \<open>Streaming from a file that could not be opened inserts nothing.\<close>

definition read_file :: "file_system \<Rightarrow> string \<Rightarrow> string" where
  "read_file fs p = (case fs p of None \<Rightarrow> [] | Some s \<Rightarrow> s)"

definition credentials_of :: "file_system \<Rightarrow> config \<Rightarrow> credentials" where
  "credentials_of fs cfg =
     (if cfg_use_tls cfg
      then SslCredentials (let p = ca_path fs cfg in if p \<noteq> [] then read_file fs p else [])
      else InsecureChannelCredentials)"

definition mk_client :: "file_system \<Rightarrow> config \<Rightarrow> client" where
  "mk_client fs cfg =
     \<lparr>cl_config = cfg,
      cl_auth_header = ''Bearer '' @ cfg_token cfg,
      cl_channel = \<lparr>ch_endpoint = cfg_endpoint cfg, ch_credentials = credentials_of fs cfg,
                    ch_args = channel_args cfg\<rparr>,
      cl_limiter = mk_limiter default_window_ms\<rparr>"

section \<open>Call contexts\<close>

record client_context =
  ctx_metadata :: "(string \<times> string) list"
  ctx_deadline :: "int option"

definition empty_context :: client_context where
  "empty_context = \<lparr>ctx_metadata = [], ctx_deadline = None\<rparr>"

definition add_metadata :: "string \<Rightarrow> string \<Rightarrow> client_context \<Rightarrow> client_context" where
  "add_metadata k v ctx = ctx\<lparr>ctx_metadata := ctx_metadata ctx @ [(k, v)]\<rparr>"

text \<open>
  \<open>now\<close> is the reading of \<^verbatim>\<open>system_clock\<close>, in nanoseconds; timeouts are milliseconds. The
  sum is computed in 64 bits.
\<close>

definition effective_timeout :: "client \<Rightarrow> call_options \<Rightarrow> int option" where
  "effective_timeout c opts =
     (case co_timeout opts of Some t \<Rightarrow> Some t | None \<Rightarrow> cfg_default_timeout (cl_config c))"

definition setup_context :: "client \<Rightarrow> call_options \<Rightarrow> int \<Rightarrow> client_context \<Rightarrow> client_context cpp" where
  "setup_context c opts now ctx =
     (let ctx1 = add_metadata ''authorization'' (cl_auth_header c) ctx;
          ctx2 = add_metadata ''x-app-name'' (cfg_app_name (cl_config c)) ctx1;
          ctx3 = fold (\<lambda>kv. add_metadata (fst kv) (snd kv)) (co_metadata opts) ctx2
      in case effective_timeout c opts of
           None \<Rightarrow> Inr ctx3
         | Some t \<Rightarrow>
             cbind (checked 64 (t * 1000000)) (\<lambda>d. cbind (checked 64 (now + d))
               (\<lambda>deadline. Inr (ctx3\<lparr>ctx_deadline := Some deadline\<rparr>))))"

lemma fold_add_metadata:
  "fold (\<lambda>kv. add_metadata (fst kv) (snd kv)) kvs ctx = ctx\<lparr>ctx_metadata := ctx_metadata ctx @ kvs\<rparr>"
  by (induction kvs arbitrary: ctx) (simp_all add: add_metadata_def)

text \<open>
  A call context built by a freshly constructed client carries the bearer token, the
  application name and then the caller's pairs in order, and a deadline exactly when the call or
  the configuration sets a timeout, the call's own one winning.
\<close>

lemma setup_context_contents:
  assumes "\<forall>t. effective_timeout c opts = Some t \<longrightarrow> fits 64 (t * 1000000) \<and> fits 64 (now + t * 1000000)"
    and "c = mk_client fs cfg"
  shows "\<exists>ctx. setup_context c opts now empty_context = Inr ctx
    \<and> ctx_metadata ctx = (''authorization'', ''Bearer '' @ cfg_token cfg)
         # (''x-app-name'', cfg_app_name cfg) # co_metadata opts
    \<and> ctx_deadline ctx = map_option (\<lambda>t. now + t * 1000000)
         (if co_timeout opts \<noteq> None then co_timeout opts else cfg_default_timeout cfg)"
  using assms
  by (cases "co_timeout opts"; cases "cfg_default_timeout cfg")
    (simp_all add: setup_context_def fold_add_metadata add_metadata_def empty_context_def Let_def
      effective_timeout_def mk_client_def)

text \<open>
  TLS is used unless it is switched off; the trusted roots are those of the configured file,
  or of the system bundle when no file is configured and the bundle is readable, or gRPC's
  defaults (no roots given). The channel arguments are the six defaults, as tuned by the hook.
\<close>

lemma channel_roots:
  "(ch_credentials (cl_channel (mk_client fs cfg)) = InsecureChannelCredentials \<longleftrightarrow> \<not> cfg_use_tls cfg)
   \<and> (\<forall>pem. ch_credentials (cl_channel (mk_client fs cfg)) = SslCredentials pem \<longrightarrow>
        pem = (if cfg_ca_file cfg \<noteq> [] then read_file fs (cfg_ca_file cfg) else read_file fs system_bundle))
   \<and> (cfg_tune_channel cfg = None \<longrightarrow>
        UserAgentPrefix (cfg_app_name cfg) \<in> set (ch_args (cl_channel (mk_client fs cfg)))
        \<and> length (ch_args (cl_channel (mk_client fs cfg))) = 6)"
  by (auto simp: mk_client_def credentials_of_def ca_path_def channel_args_def read_file_def
      system_bundle_def Let_def split: if_splits)

end
