(* ===== verification/Unary.thy ===== *)
theory Unary
  imports Client
begin

text \<open>
  \<^verbatim>\<open>include/tinvest/detail/unary.hpp\<close>: reading the trailing metadata of a finished call,
  building an \<^verbatim>\<open>Error\<close> from it, and the blocking call with its retry loop; the callback call is in
  \<open>Async_Calls\<close>. The RPC itself is a parameter: what the server answers to the n-th attempt, given the
  context it was sent with. So are the clocks and what other threads do to the shared limiter
  between the attempts and while the call waits for a slot. The loop is a recursive function whose termination is proved from the
  bound on the attempts; its events (slots taken, calls made, sleeps) are part of its result.
\<close>

section \<open>Metadata\<close>

text \<open>
  A \<^verbatim>\<open>multimap\<close> is the list of its pairs in iteration order; \<^verbatim>\<open>find\<close> gives the first
  pair with the key.
\<close>

type_synonym metadata = "(string \<times> string) list"

definition get_metadata :: "metadata \<Rightarrow> string \<Rightarrow> string" where
  "get_metadata md key = (case map_of md key of None \<Rightarrow> [] | Some v \<Rightarrow> v)"

text \<open>\<^verbatim>\<open>std::atoi\<close>: blanks, a sign, digits; a value that does not fit is undefined.\<close>

definition is_space :: "char \<Rightarrow> bool" where
  "is_space c \<longleftrightarrow> (of_char c :: nat) = 32 \<or> (9 \<le> (of_char c :: nat) \<and> (of_char c :: nat) \<le> 13)"

definition atoi_digits :: "string \<Rightarrow> int" where
  "atoi_digits s = int (read_digits 0 (takeWhile is_digit s))"

definition atoi :: "string \<Rightarrow> int cpp" where
  "atoi s =
     (let s' = dropWhile is_space s in
      checked 32
        (if s' \<noteq> [] \<and> hd s' = CHR ''-'' then - atoi_digits (tl s')
         else if s' \<noteq> [] \<and> hd s' = CHR ''+'' then atoi_digits (tl s')
         else atoi_digits s'))"

definition get_int_metadata :: "metadata \<Rightarrow> string \<Rightarrow> int cpp" where
  "get_int_metadata md key =
     (let v = get_metadata md key in if v = [] then Inr (- 1) else atoi v)"

section \<open>Errors of finished calls\<close>

record 'r reply =
  rep_code :: status_code
  rep_error_message :: string
  rep_trailing :: metadata
  rep_resp :: 'r

definition make_error :: "'r reply \<Rightarrow> error cpp" where
  "make_error r =
     (let md = rep_trailing r;
          sm = rep_error_message r;
          message = get_metadata md ''message'';
          numeric = (sm \<noteq> [] \<and> list_all is_digit sm)
      in cbind (get_int_metadata md ''x-ratelimit-limit'') (\<lambda>lim.
         cbind (get_int_metadata md ''x-ratelimit-remaining'') (\<lambda>rem.
         cbind (get_int_metadata md ''x-ratelimit-reset'') (\<lambda>reset.
           Inr \<lparr>err_code = rep_code r,
                err_message = (if message = [] then sm else message),
                err_api_code = (if numeric then sm else []),
                err_tracking_id = get_metadata md ''x-tracking-id'',
                err_ratelimit = \<lparr>rli_limit = lim, rli_remaining = rem, rli_reset_seconds = reset\<rparr>\<rparr>))))"

section \<open>Blocking calls\<close>

text \<open>
  The environment of a call, indexed by the attempt: what other threads did to the limiter since
  the previous attempt, the clock readings seen in \<^verbatim>\<open>acquire\<close> with what others do to the limiter at
  its waits, the system clock, and the answer.
\<close>

record 'r call_env =
  env_others :: "int \<Rightarrow> limiter \<Rightarrow> limiter"
  env_clock :: "int \<Rightarrow> int \<times> wake list"
  env_now :: "int \<Rightarrow> int"
  env_call :: "int \<Rightarrow> client_context \<Rightarrow> 'r reply"

datatype call_event = Acquired string | Called client_context | Slept int

datatype 'a outcome = Returned 'a | Waiting | Undefined ub

definition retryable :: "retry_policy \<Rightarrow> call_options \<Rightarrow> error \<Rightarrow> bool" where
  "retryable rp opts err =
     (let r = (err_code err = RESOURCE_EXHAUSTED \<and> rp_on_rate_limit rp)
           \<or> (err_code err = UNAVAILABLE \<and> rp_on_unavailable rp)
      in case co_retry opts of None \<Rightarrow> r | Some b \<Rightarrow> r \<and> b)"

definition retry_delay :: "int \<Rightarrow> error \<Rightarrow> int" where
  "retry_delay attempt err =
     (if err_code err = RESOURCE_EXHAUSTED
      then (if rli_reset_seconds (err_ratelimit err) \<ge> 0
            then rli_reset_seconds (err_ratelimit err) * 1000 + 200
            else attempt * 1000)
      else 100 * 2 ^ nat (min (attempt - 1) 8))"

definition max_calls :: "client \<Rightarrow> int" where
  "max_calls c = max 1 (rp_max_attempts (cfg_retry (cl_config c)))"

function unary_loop :: "client \<Rightarrow> call_options \<Rightarrow> string \<Rightarrow> 'r call_env \<Rightarrow> int \<Rightarrow> limiter \<Rightarrow>
    call_event list \<times> limiter \<times> 'r result outcome" where
  "unary_loop c opts m env attempt l =
     (case acquire m (env_clock env attempt) (env_others env attempt l) of
        (False, l1) \<Rightarrow> ([], l1, Waiting)
      | (True, l1) \<Rightarrow>
          (case setup_context c opts (env_now env attempt) empty_context of
             Inl u \<Rightarrow> ([Acquired m], l1, Undefined u)
           | Inr ctx \<Rightarrow>
               (let r = env_call env attempt ctx; ev = [Acquired m, Called ctx] in
                if rep_code r = OK then (ev, l1, Returned (Value (rep_resp r)))
                else case make_error r of
                  Inl u \<Rightarrow> (ev, l1, Undefined u)
                | Inr err \<Rightarrow>
                    if \<not> retryable (cfg_retry (cl_config c)) opts err \<or> attempt \<ge> max_calls c
                    then (ev, l1, Returned (Failure err))
                    else if retry_delay attempt err > rp_max_wait (cfg_retry (cl_config c))
                    then (ev, l1, Returned (Failure err))
                    else (case unary_loop c opts m env (attempt + 1) l1 of
                            (ev', l2, out) \<Rightarrow> (ev @ Slept (retry_delay attempt err) # ev', l2, out)))))"
  by pat_completeness auto
termination
  by (relation "measure (\<lambda>(c, opts, m, env, attempt, l). nat (max_calls c - attempt))") auto

declare unary_loop.simps [simp del]

definition unary_sync :: "client \<Rightarrow> call_options \<Rightarrow> string \<Rightarrow> 'r call_env \<Rightarrow> limiter \<Rightarrow>
    call_event list \<times> limiter \<times> 'r result outcome" where
  "unary_sync c opts m env l = unary_loop c opts m env 1 l"

section \<open>Facts on metadata\<close>

lemma read_takeWhile_show_nat [simp]: "read_digits 0 (takeWhile is_digit (show_nat n)) = n"
  using show_nat_digits [of n] by (simp add: list_all_iff takeWhile_eq_all_conv [THEN iffD2])

lemma digit_not_space: "is_digit c \<Longrightarrow> \<not> is_space c"
  by (auto simp: is_digit_def is_space_def)

lemma show_nat_Cons: "\<exists>d s. show_nat n = d # s \<and> is_digit d"
  using show_nat_ne [of n] show_nat_digits [of n] by (cases "show_nat n") auto

lemma atoi_show_int: "fits 32 n \<Longrightarrow> atoi (show_int n) = Inr n"
proof -
  assume n: "fits 32 n"
  show ?thesis
  proof (cases "n < 0")
    case True
    have "\<not> is_space CHR ''-''" by (simp add: is_space_def)
    with True n show ?thesis by (simp add: atoi_def show_int_def atoi_digits_def)
  next
    case False
    obtain d s where ds: "show_nat (nat n) = d # s" "is_digit d" using show_nat_Cons by blast
    then have "\<not> is_space d" "d \<noteq> CHR ''-''" "d \<noteq> CHR ''+''"
      using digit_not_space not_digit_literals by auto
    moreover have "read_digits 0 (takeWhile is_digit (d # s)) = nat n"
      using read_takeWhile_show_nat [of "nat n"] ds by simp
    ultimately show ?thesis
      using False n ds by (simp add: atoi_def show_int_def atoi_digits_def)
  qed
qed

lemma get_int_metadata_show:
  "map_of md key = Some (show_int n) \<Longrightarrow> fits 32 n \<Longrightarrow> get_int_metadata md key = Inr n"
  using show_nat_Cons [of "nat n"]
  by (cases "show_int n = []")
    (auto simp: get_int_metadata_def get_metadata_def atoi_show_int, simp add: show_int_def split: if_splits)

lemma get_int_metadata_absent: "map_of md key = None \<Longrightarrow> get_int_metadata md key = Inr (- 1)"
  by (simp add: get_int_metadata_def get_metadata_def)

lemma make_error_fields:
  assumes "make_error r = Inr e"
  shows "err_code e = rep_code r"
    and "err_api_code e = (if rep_error_message r \<noteq> [] \<and> list_all is_digit (rep_error_message r)
           then rep_error_message r else [])"
    and "err_message e = [] \<longleftrightarrow> get_metadata (rep_trailing r) ''message'' = [] \<and> rep_error_message r = []"
    and "get_int_metadata (rep_trailing r) ''x-ratelimit-reset'' = Inr (rli_reset_seconds (err_ratelimit e))"
  using assms by (auto simp: make_error_def cbind_eq_Inr_iff Let_def split: if_splits)

section \<open>Facts on the retry loop\<close>

definition is_call :: "call_event \<Rightarrow> bool" where
  "is_call ev \<longleftrightarrow> (case ev of Called ctx \<Rightarrow> True | _ \<Rightarrow> False)"

definition n_calls :: "call_event list \<Rightarrow> nat" where
  "n_calls evs = length (filter is_call evs)"

lemma n_calls_simps [simp]:
  "n_calls [] = 0"
  "n_calls (Called ctx # evs) = Suc (n_calls evs)"
  "n_calls (Acquired m # evs) = n_calls evs"
  "n_calls (Slept d # evs) = n_calls evs"
  by (simp_all add: n_calls_def is_call_def)

text \<open>The answer to the attempt \<open>k\<close>: the contexts of all attempts are built the same way.\<close>

definition answer_at :: "client \<Rightarrow> call_options \<Rightarrow> 'r call_env \<Rightarrow> int \<Rightarrow> 'r reply \<Rightarrow> bool" where
  "answer_at c opts env k r \<longleftrightarrow>
     (\<exists>ctx. setup_context c opts (env_now env k) empty_context = Inr ctx \<and> r = env_call env k ctx)"

text \<open>A failed answer after which the loop goes on.\<close>

definition retries_after :: "client \<Rightarrow> call_options \<Rightarrow> int \<Rightarrow> 'r reply \<Rightarrow> bool" where
  "retries_after c opts k r \<longleftrightarrow> rep_code r \<noteq> OK \<and> k < max_calls c
     \<and> (\<exists>e. make_error r = Inr e \<and> retryable (cfg_retry (cl_config c)) opts e
          \<and> retry_delay k e \<le> rp_max_wait (cfg_retry (cl_config c)))"

text \<open>What the loop returns on an answer after which it does not go on.\<close>

definition returns_for :: "'r reply \<Rightarrow> 'r result \<Rightarrow> bool" where
  "returns_for r res \<longleftrightarrow> (case res of
     Value x \<Rightarrow> rep_code r = OK \<and> x = rep_resp r
   | Failure e \<Rightarrow> rep_code r \<noteq> OK \<and> make_error r = Inr e)"

lemma unary_loop_answered:
  assumes "acquire m (env_clock env k) (env_others env k l) = (True, l1)"
    and "setup_context c opts (env_now env k) empty_context = Inr ctx" "r = env_call env k ctx"
  shows "unary_loop c opts m env k l =
    (if rep_code r = OK then ([Acquired m, Called ctx], l1, Returned (Value (rep_resp r)))
     else case make_error r of
       Inl u \<Rightarrow> ([Acquired m, Called ctx], l1, Undefined u)
     | Inr e \<Rightarrow>
         if retries_after c opts k r
         then (case unary_loop c opts m env (k + 1) l1 of
                 (ev', l2, out) \<Rightarrow> (Acquired m # Called ctx # Slept (retry_delay k e) # ev', l2, out))
         else ([Acquired m, Called ctx], l1, Returned (Failure e)))"
  using assms
  by (subst unary_loop.simps)
    (auto simp: Let_def retries_after_def split: sum.split prod.split)

lemma unary_loop_elim:
  assumes "unary_loop c opts m env k l = (evs, l', out)"
  obtains (blocked) "evs = []" "out = Waiting"
      "\<not> fst (acquire m (env_clock env k) (env_others env k l))"
  | (bad_context) u where "evs = [Acquired m]" "out = Undefined u"
      "setup_context c opts (env_now env k) empty_context = Inl u"
  | (bad_header) ctx r u where "evs = [Acquired m, Called ctx]" "out = Undefined u"
      "answer_at c opts env k r" "make_error r = Inl u"
  | (returned) ctx r res where "evs = [Acquired m, Called ctx]" "out = Returned res"
      "answer_at c opts env k r" "returns_for r res" "\<not> retries_after c opts k r"
  | (retried) ctx r e evs' l1 where "evs = Acquired m # Called ctx # Slept (retry_delay k e) # evs'"
      "answer_at c opts env k r" "retries_after c opts k r" "make_error r = Inr e"
      "unary_loop c opts m env (k + 1) l1 = (evs', l', out)"
      "l1 = snd (acquire m (env_clock env k) (env_others env k l))"
proof (cases "fst (acquire m (env_clock env k) (env_others env k l))")
  case False
  with assms show thesis
    by (intro blocked; cases "acquire m (env_clock env k) (env_others env k l)")
      (simp_all add: unary_loop.simps [of c opts m env k l])
next
  case True
  then obtain l1 where acq: "acquire m (env_clock env k) (env_others env k l) = (True, l1)" by (metis prod.collapse)
  show thesis
  proof (cases "setup_context c opts (env_now env k) empty_context")
    case (Inl u)
    with acq assms show thesis
      by (intro bad_context) (simp_all add: unary_loop.simps [of c opts m env k l])
  next
    case ctx: (Inr ctx)
    define r where "r = env_call env k ctx"
    have ans: "answer_at c opts env k r" using ctx r_def by (auto simp: answer_at_def)
    note run = assms [unfolded unary_loop_answered [OF acq ctx r_def]]
    consider "rep_code r = OK" | u where "rep_code r \<noteq> OK" "make_error r = Inl u"
      | e where "rep_code r \<noteq> OK" "make_error r = Inr e" by (cases "make_error r") auto
    then show thesis
    proof cases
      case 1
      with run ans show thesis by (intro returned) (auto simp: returns_for_def retries_after_def)
    next
      case 2
      with run ans show thesis by (intro bad_header) auto
    next
      case 3
      obtain evs' l2 out' where rec: "unary_loop c opts m env (k + 1) l1 = (evs', l2, out')"
        by (cases "unary_loop c opts m env (k + 1) l1") auto
      show thesis
      proof (cases "retries_after c opts k r")
        case True
        with 3 run ans rec acq show thesis by (intro retried) auto
      next
        case False
        with 3 run ans show thesis by (intro returned) (auto simp: returns_for_def)
      qed
    qed
  qed
qed

text \<open>Induction over the remaining attempts.\<close>

lemma unary_loop_induct [case_names attempt]:
  assumes "\<And>k l. (\<And>l'. k < max_calls c \<Longrightarrow> P (k + 1) l') \<Longrightarrow> P k l"
  shows "P k (l :: limiter)"
proof (induction "nat (max_calls c - k)" arbitrary: k l rule: less_induct)
  case less
  show ?case by (rule assms, rule less.hyps) auto
qed

lemma retry_delay_pos:
  assumes "1 \<le> k"
  shows "0 < retry_delay k e"
  using assms by (auto simp: retry_delay_def)

lemma retries_after_bound: "retries_after c opts k r \<Longrightarrow> k < max_calls c"
  by (simp add: retries_after_def)

lemma unary_loop_shape:
  assumes "unary_loop c opts m env k l = (evs, l', out)" "1 \<le> k" "k \<le> max_calls c"
  shows "k - 1 + int (n_calls evs) \<le> max_calls c
    \<and> (\<forall>d. Slept d \<in> set evs \<longrightarrow> 0 < d \<and> d \<le> rp_max_wait (cfg_retry (cl_config c)))
    \<and> length (filter (\<lambda>ev. ev = Acquired m) evs) \<ge> n_calls evs"
  using assms
proof (induction k l arbitrary: evs l' out rule: unary_loop_induct [of c])
  case (attempt k l)
  from attempt.prems(1) show ?case
  proof (cases rule: unary_loop_elim)
    case (retried ctx r e evs' l1)
    note lt = retries_after_bound [OF retried(3)]
    have "retry_delay k e \<le> rp_max_wait (cfg_retry (cl_config c))"
      using retried(3,4) by (auto simp: retries_after_def)
    then show ?thesis
      using attempt.IH [OF lt retried(5)] attempt.prems lt retry_delay_pos [of k e] retried(1) by auto
  qed (use attempt.prems in auto)
qed

lemma unary_loop_result:
  assumes "unary_loop c opts m env k l = (evs, l', Returned res)"
  shows "\<exists>n r. n_calls evs = Suc n \<and> answer_at c opts env (k + int n) r \<and> returns_for r res
    \<and> (\<forall>i<n. \<exists>q. answer_at c opts env (k + int i) q \<and> retries_after c opts (k + int i) q)
    \<and> \<not> retries_after c opts (k + int n) r"
  using assms
proof (induction k l arbitrary: evs l' rule: unary_loop_induct [of c])
  case (attempt k l)
  from attempt.prems show ?case
  proof (cases rule: unary_loop_elim)
    case (returned ctx r res')
    then show ?thesis by (intro exI [of _ 0] exI [of _ r]) auto
  next
    case (retried ctx q e evs' l1)
    from attempt.IH [OF retries_after_bound [OF retried(3)] retried(5)]
    obtain n r where IH: "n_calls evs' = Suc n" "answer_at c opts env (k + 1 + int n) r"
      "returns_for r res" "\<not> retries_after c opts (k + 1 + int n) r"
      "\<forall>i<n. \<exists>q. answer_at c opts env (k + 1 + int i) q \<and> retries_after c opts (k + 1 + int i) q"
      by blast
    have "\<exists>q. answer_at c opts env (k + int i) q \<and> retries_after c opts (k + int i) q"
      if "i < Suc n" for i
      using that IH(5) retried(2,3) by (cases i) (auto simp: algebra_simps)
    with IH retried(1) show ?thesis
      by (intro exI [of _ "Suc n"] exI [of _ r]) (auto simp: add.assoc)
  qed auto
qed

text \<open>What others and the limiter's own operation keep, a blocking call keeps, however it ends.\<close>

lemma unary_loop_keeps:
  assumes "\<And>k l. P l \<Longrightarrow> P (env_others env k l)" "\<And>k l. P l \<Longrightarrow> P (snd (acquire m (env_clock env k) l))" "P l"
  shows "P (fst (snd (unary_loop c opts m env k l)))"
  using assms(3)
proof (induction k l rule: unary_loop_induct [of c])
  case (attempt k l)
  have "P (snd (acquire m (env_clock env k) (env_others env k l)))" by (intro assms(1,2) attempt.prems)
  then show ?case
    using attempt.IH by (subst unary_loop.simps) (force simp: Let_def not_le split: prod.split bool.split sum.split)
qed

text \<open>
  The limiter as the attempt with index \<open>i\<close> finds it, if the call gets that far: others have been at
  work before it, and each attempt has taken its slot.
\<close>

primrec limiter_at :: "string \<Rightarrow> 'r call_env \<Rightarrow> limiter \<Rightarrow> nat \<Rightarrow> limiter" where
  "limiter_at m env l 0 = env_others env 1 l"
| "limiter_at m env l (Suc i) =
     env_others env (int i + 2) (snd (acquire m (env_clock env (int i + 1)) (limiter_at m env l i)))"

lemma unary_loop_returns:
  assumes "\<And>i. int i < max_calls c \<Longrightarrow> fst (acquire m (env_clock env (int i + 1)) (limiter_at m env l0 i))"
    and "\<And>k. \<exists>ctx. setup_context c opts (env_now env k) empty_context = Inr ctx"
    and "\<And>k r. answer_at c opts env k r \<Longrightarrow> \<exists>e. make_error r = Inr e"
    and "k = int i + 1" "k \<le> max_calls c" "env_others env k l = limiter_at m env l0 i"
  shows "\<exists>evs l' res. unary_loop c opts m env k l = (evs, l', Returned res)"
  using assms(4-6)
proof (induction k l arbitrary: i rule: unary_loop_induct [of c])
  case (attempt k l)
  obtain evs l' out where run: "unary_loop c opts m env k l = (evs, l', out)"
    by (cases "unary_loop c opts m env k l") auto
  then show ?case
  proof (cases rule: unary_loop_elim)
    case blocked
    then show ?thesis using assms(1) [of i] attempt.prems by simp
  next
    case (bad_context u)
    then show ?thesis using assms(2) [of k] by auto
  next
    case (bad_header ctx r u)
    then show ?thesis using assms(3) by force
  next
    case (returned ctx r res)
    then show ?thesis using run by auto
  next
    case (retried ctx r e evs' l1)
    note lt = retries_after_bound [OF retried(3)]
    have "env_others env (k + 1) l1 = limiter_at m env l0 (Suc i)"
      using retried(6) attempt.prems by (simp add: add.commute)
    then show ?thesis using run retried(1,5) attempt.IH [OF lt, of "Suc i" l1] lt attempt.prems by auto
  qed
qed

section \<open>A sample call\<close>

text \<open>
  A client with the default configuration; the server rejects the first attempt with a rate-limit
  error that announces two seconds to the reset, and answers the second one.
\<close>

definition demo_client :: client where
  "demo_client = mk_client Map.empty default_config"

definition demo_ctx :: client_context where
  "demo_ctx = \<lparr>ctx_metadata = [(''authorization'', ''Bearer ''), (''x-app-name'', ''tinvest-cpp'')],
     ctx_deadline = None\<rparr>"

definition demo_busy :: "int reply" where
  "demo_busy = \<lparr>rep_code = RESOURCE_EXHAUSTED, rep_error_message = ''80002'',
     rep_trailing = [(''x-ratelimit-reset'', show_int 2)], rep_resp = 0\<rparr>"

definition demo_answer :: "int reply" where
  "demo_answer = \<lparr>rep_code = OK, rep_error_message = [], rep_trailing = [], rep_resp = 42\<rparr>"

definition demo_env :: "int call_env" where
  "demo_env = \<lparr>env_others = \<lambda>_ _. mk_limiter 60000, env_clock = \<lambda>_. (0, []), env_now = \<lambda>_. 0,
     env_call = \<lambda>k _. if k = 1 then demo_busy else demo_answer\<rparr>"

lemma demo_context: "setup_context demo_client default_call_options now empty_context = Inr demo_ctx"
  by (simp add: setup_context_def demo_client_def mk_client_def default_config_def empty_context_def
      add_metadata_def effective_timeout_def default_call_options_def demo_ctx_def)

lemma demo_acquire:
  "acquire m (env_clock demo_env k) (env_others demo_env k l) = (True, mk_limiter 60000)"
  by (simp add: acquire_def mk_limiter_def demo_env_def)

lemma demo_busy_error:
  "\<exists>e. make_error demo_busy = Inr e \<and> retryable default_retry_policy default_call_options e
     \<and> retry_delay 1 e = 2200"
proof -
  have "get_int_metadata (rep_trailing demo_busy) ''x-ratelimit-reset'' = Inr 2"
    by (rule get_int_metadata_show) (simp_all add: demo_busy_def fits32_iff)
  moreover have "get_int_metadata (rep_trailing demo_busy) ''x-ratelimit-limit'' = Inr (- 1)"
    "get_int_metadata (rep_trailing demo_busy) ''x-ratelimit-remaining'' = Inr (- 1)"
    by (simp_all add: get_int_metadata_absent demo_busy_def)
  ultimately obtain e where "make_error demo_busy = Inr e" by (simp add: make_error_def Let_def)
  moreover from make_error_fields(1,4) [OF this]
  have "err_code e = RESOURCE_EXHAUSTED" "rli_reset_seconds (err_ratelimit e) = 2"
    using \<open>get_int_metadata (rep_trailing demo_busy) ''x-ratelimit-reset'' = Inr 2\<close>
    by (simp_all add: demo_busy_def)
  ultimately show ?thesis
    by (auto simp: retryable_def retry_delay_def default_retry_policy_def default_call_options_def)
qed

lemma demo_policy: "cfg_retry (cl_config demo_client) = default_retry_policy"
  by (simp add: demo_client_def mk_client_def default_config_def)

lemma demo_max_calls: "max_calls demo_client = 3"
  by (simp add: max_calls_def demo_policy default_retry_policy_def)

lemma demo_retries: "retries_after demo_client default_call_options 1 demo_busy"
  using demo_busy_error
  by (auto simp: retries_after_def demo_policy demo_max_calls default_retry_policy_def demo_busy_def)

lemma demo_call:
  "unary_sync demo_client default_call_options ''S/A'' demo_env (mk_limiter 60000)
     = ([Acquired ''S/A'', Called demo_ctx, Slept 2200, Acquired ''S/A'', Called demo_ctx],
        mk_limiter 60000, Returned (Value 42))"
proof -
  have calls: "env_call demo_env 1 demo_ctx = demo_busy" "env_call demo_env 2 demo_ctx = demo_answer"
    by (simp_all add: demo_env_def)
  have two: "unary_loop demo_client default_call_options ''S/A'' demo_env 2 (mk_limiter 60000)
      = ([Acquired ''S/A'', Called demo_ctx], mk_limiter 60000, Returned (Value 42))"
    by (subst unary_loop_answered [OF demo_acquire demo_context refl])
      (simp add: calls, simp add: demo_answer_def)
  obtain e where e: "make_error demo_busy = Inr e" "retry_delay 1 e = 2200"
    using demo_busy_error by blast
  show ?thesis
    unfolding unary_sync_def
    by (subst unary_loop_answered [OF demo_acquire demo_context refl])
      (use e two demo_retries in \<open>simp add: calls\<close>, simp add: demo_busy_def)
qed

lemma demo_answers:
  "answer_at demo_client default_call_options demo_env k r \<longleftrightarrow> r = (if k = 1 then demo_busy else demo_answer)"
  by (simp add: answer_at_def demo_context) (simp add: demo_env_def)

lemma demo_errors: "answer_at demo_client default_call_options demo_env k r \<Longrightarrow> \<exists>e. make_error r = Inr e"
  using demo_busy_error
  by (auto simp: demo_answers make_error_def demo_answer_def get_int_metadata_absent Let_def)

section \<open>Properties of calls\<close>

text \<open>
  C31: a blocking call makes at most \<^verbatim>\<open>max(1, max_attempts)\<close> RPCs, takes a limiter slot before
  each of them, and never sleeps longer than \<^verbatim>\<open>max_wait\<close>.
\<close>

theorem unary_sync_bounded:
  assumes "unary_sync c opts m env l = (evs, l', out)"
  shows "int (n_calls evs) \<le> max 1 (rp_max_attempts (cfg_retry (cl_config c)))
    \<and> n_calls evs \<le> length (filter (\<lambda>ev. ev = Acquired m) evs)
    \<and> (\<forall>d. Slept d \<in> set evs \<longrightarrow> 0 < d \<and> d \<le> rp_max_wait (cfg_retry (cl_config c)))"
  using unary_loop_shape [of c opts m env 1 l evs l' out] assms
  by (auto simp: unary_sync_def max_calls_def)

theorem unary_sync_bounded_witness:
  "int (n_calls [Acquired ''S/A'', Called demo_ctx, Slept 2200, Acquired ''S/A'', Called demo_ctx]) \<le> 3
   \<and> (2200 :: int) \<le> 65000"
  using unary_sync_bounded [OF demo_call] by (simp add: demo_policy default_retry_policy_def)

text \<open>
  C6: what a blocking call returns is the classification of its last answer: the response of a
  successful one or the error built from a failed one; every earlier answer was a failure that
  the policy retries, and the last one is not.
\<close>

theorem unary_sync_last_answer:
  assumes "unary_sync c opts m env l = (evs, l', Returned res)"
  shows "\<exists>r. answer_at c opts env (int (n_calls evs)) r \<and> returns_for r res
    \<and> \<not> retries_after c opts (int (n_calls evs)) r
    \<and> (\<forall>k. 0 < k \<and> k < int (n_calls evs) \<longrightarrow>
         (\<exists>q. answer_at c opts env k q \<and> retries_after c opts k q))"
proof -
  obtain n r where n: "n_calls evs = Suc n" "answer_at c opts env (1 + int n) r" "returns_for r res"
    "\<not> retries_after c opts (1 + int n) r"
    "\<forall>i<n. \<exists>q. answer_at c opts env (1 + int i) q \<and> retries_after c opts (1 + int i) q"
    using unary_loop_result [of c opts m env 1 l evs l' res] assms by (auto simp: unary_sync_def)
  have "\<exists>q. answer_at c opts env k q \<and> retries_after c opts k q" if "0 < k" "k < 1 + int n" for k
  proof -
    from that have "nat (k - 1) < n" "1 + int (nat (k - 1)) = k" by linarith+
    with n(5) show ?thesis by metis
  qed
  with n show ?thesis by (auto simp: add.commute)
qed

theorem unary_sync_last_answer_witness:
  "returns_for demo_answer (Value 42) \<and> retries_after demo_client default_call_options 1 demo_busy"
  using unary_sync_last_answer [OF demo_call] by (auto simp: demo_answers)

text \<open>
  C30: a blocking call returns. If each of the attempts it can make gets its slot, from the limiter as
  that attempt finds it (after what other threads have done and what its own earlier attempts have
  taken), and neither the deadline nor the rate-limit headers overflow, it ends with a value or an error.
\<close>

theorem unary_sync_returns:
  assumes "\<And>i. int i < max_calls c \<Longrightarrow> fst (acquire m (env_clock env (int i + 1)) (limiter_at m env l i))"
    and "\<And>k. \<exists>ctx. setup_context c opts (env_now env k) empty_context = Inr ctx"
    and "\<And>k r. answer_at c opts env k r \<Longrightarrow> \<exists>e. make_error r = Inr e"
  shows "\<exists>evs l' res. unary_sync c opts m env l = (evs, l', Returned res)"
  using unary_loop_returns [where k = 1 and i = 0 and l = l, OF assms] by (simp add: unary_sync_def max_calls_def)

text \<open>
  The same two answers on a limiter with one call per minute that no other thread uses: every attempt
  after the first one finds its window full and waits for the next one.
\<close>

definition waiting_env :: "int call_env" where
  "waiting_env = \<lparr>env_others = \<lambda>_ l. l,
     env_clock = \<lambda>k. (if k = 1 then (100000000000, []) else (k * 100000000000 - 95000000000, [(\<lambda>l. l, k * 100000000000)])),
     env_now = \<lambda>_. 0, env_call = \<lambda>k _. if k = 1 then demo_busy else demo_answer\<rparr>"

definition one_per_minute :: limiter where
  "one_per_minute = set_limit [''S/A''] 1 (mk_limiter 60000)"

lemma waiting_limiters:
  "limiter_at ''S/A'' waiting_env one_per_minute 0 = one_per_minute"
  "limiter_at ''S/A'' waiting_env one_per_minute (Suc i)
     = one_per_minute\<lparr>rl_groups := [\<lparr>g_limit = 1, g_count = 1, g_window_start = (int i + 1) * 100000000000\<rparr>]\<rparr>"
  "fst (acquire ''S/A'' (env_clock waiting_env (int i + 1)) (limiter_at ''S/A'' waiting_env one_per_minute i))"
proof -
  note defs = acquire_def acquire_attempt_def take_slot_def roll_window_def window_ns_def waiting_env_def
    one_per_minute_def set_limit_def add_group_def mk_limiter_def assign_group_def normalize_method_def
  show zero: "limiter_at ''S/A'' waiting_env one_per_minute 0 = one_per_minute" by (simp add: waiting_env_def)
  show suc: "limiter_at ''S/A'' waiting_env one_per_minute (Suc i)
     = one_per_minute\<lparr>rl_groups := [\<lparr>g_limit = 1, g_count = 1, g_window_start = (int i + 1) * 100000000000\<rparr>]\<rparr>" for i
  proof (induction i)
    case 0
    then show ?case using zero by (simp add: defs)
  next
    case (Suc i)
    then show ?case by (simp only: limiter_at.simps(2) [of _ _ _ "Suc i"]) (simp add: defs)
  qed
  show "fst (acquire ''S/A'' (env_clock waiting_env (int i + 1)) (limiter_at ''S/A'' waiting_env one_per_minute i))"
  proof (cases i)
    case 0
    then show ?thesis using zero by (simp add: defs)
  next
    case (Suc j)
    then show ?thesis by (simp only: suc) (simp add: defs)
  qed
qed

lemma waiting_errors: "answer_at demo_client default_call_options waiting_env k r \<Longrightarrow> \<exists>e. make_error r = Inr e"
  using demo_errors [of k r] by (simp add: answer_at_def demo_context) (simp add: demo_env_def waiting_env_def)

theorem unary_sync_returns_witness:
  "\<exists>evs l' res. unary_sync demo_client default_call_options ''S/A'' waiting_env one_per_minute = (evs, l', Returned res)"
  by (rule unary_sync_returns) (use waiting_limiters(3) demo_context waiting_errors in auto)

text \<open>
  With retries switched off for the call, or when the first answer has a status other than
  \<^verbatim>\<open>RESOURCE_EXHAUSTED\<close> and \<^verbatim>\<open>UNAVAILABLE\<close>, exactly one RPC is made.
\<close>

lemma unary_sync_single_call:
  assumes "unary_sync c opts m env l = (evs, l', Returned res)"
    and "co_retry opts = Some False
      \<or> (\<forall>r. answer_at c opts env 1 r \<longrightarrow> rep_code r \<notin> {RESOURCE_EXHAUSTED, UNAVAILABLE})"
  shows "n_calls evs = 1"
proof -
  have no: "\<not> retries_after c opts 1 q" if "answer_at c opts env 1 q" for q
    using that assms(2)
    by (auto simp: retries_after_def retryable_def Let_def dest: make_error_fields(1) split: option.splits)
  obtain n where "n_calls evs = Suc n"
    "\<forall>i<n. \<exists>q. answer_at c opts env (1 + int i) q \<and> retries_after c opts (1 + int i) q"
    using unary_loop_result [of c opts m env 1 l evs l' res] assms(1) by (auto simp: unary_sync_def)
  with no show ?thesis by (cases n) auto
qed

text \<open>
  When the server rejects the first attempt with \<^verbatim>\<open>RESOURCE_EXHAUSTED\<close> and announces
  \<open>n\<close> seconds to the reset, the call sleeps \<open>n\<close> seconds and 200 milliseconds before the next
  attempt, or gives up at once when that exceeds \<^verbatim>\<open>max_wait\<close>.
\<close>

lemma unary_sync_honours_reset:
  assumes run: "unary_sync c opts m env l = (evs, l', Returned res)"
    and ans: "answer_at c opts env 1 r" "rep_code r = RESOURCE_EXHAUSTED"
      "map_of (rep_trailing r) ''x-ratelimit-reset'' = Some (show_int n)" "0 \<le> n" "fits 32 n"
    and pol: "rp_on_rate_limit (cfg_retry (cl_config c))" "co_retry opts = None" "1 < max_calls c"
  shows "if n * 1000 + 200 \<le> rp_max_wait (cfg_retry (cl_config c))
    then \<exists>ctx evs'. evs = Acquired m # Called ctx # Slept (n * 1000 + 200) # evs'
    else \<exists>ctx. evs = [Acquired m, Called ctx] \<and> (\<exists>e. res = Failure e)"
proof -
  have delay: "retry_delay 1 e = n * 1000 + 200" "retryable (cfg_retry (cl_config c)) opts e"
    if "make_error r = Inr e" for e
    using make_error_fields(1,4) [OF that] ans pol get_int_metadata_show [OF ans(3,5)]
    by (simp_all add: retry_delay_def retryable_def)
  have same: "q = r" if "answer_at c opts env 1 q" for q
    using that ans(1) by (auto simp: answer_at_def)
  from run have "unary_loop c opts m env 1 l = (evs, l', Returned res)" by (simp add: unary_sync_def)
  then show ?thesis
  proof (cases rule: unary_loop_elim)
    case (returned ctx q res')
    with same have "returns_for r res" "\<not> retries_after c opts 1 r" by auto
    then obtain e where "make_error r = Inr e" "res = Failure e"
      using ans(2) by (auto simp: returns_for_def split: result.splits)
    with delay \<open>\<not> retries_after c opts 1 r\<close> ans(2) pol(3) returned(1) show ?thesis
      by (auto simp: retries_after_def)
  next
    case (retried ctx q e evs' l1)
    with same delay have "retry_delay 1 e = n * 1000 + 200"
      "n * 1000 + 200 \<le> rp_max_wait (cfg_retry (cl_config c))"
      by (auto simp: retries_after_def)
    with retried(1) show ?thesis by auto
  qed auto
qed

lemma retryable_true: "retryable rp (opts\<lparr>co_retry := Some True\<rparr>) = retryable rp (opts\<lparr>co_retry := None\<rparr>)"
  by (simp add: retryable_def fun_eq_iff)

lemma setup_context_retry:
  "setup_context c (opts\<lparr>co_retry := a\<rparr>) now ctx = setup_context c (opts\<lparr>co_retry := b\<rparr>) now ctx"
  by (simp add: setup_context_def effective_timeout_def)

text \<open>
  The \<^verbatim>\<open>retry\<close> option of a call can only switch retries off: setting it to true is the
  same as not setting it, so it never enables a retry that the client's policy excludes.
\<close>

lemma retry_option_only_disables:
  "unary_sync c (opts\<lparr>co_retry := Some True\<rparr>) m env l = unary_sync c (opts\<lparr>co_retry := None\<rparr>) m env l"
proof -
  have "unary_loop c (opts\<lparr>co_retry := Some True\<rparr>) m env k l
      = unary_loop c (opts\<lparr>co_retry := None\<rparr>) m env k l" for k
  proof (induction k l rule: unary_loop_induct [of c])
    case (attempt k l)
    then show ?case
      by (subst (1 2) unary_loop.simps)
        (auto simp: retryable_true setup_context_retry [where a = "Some True" and b = None and c = c and opts = opts] Let_def
          split: option.split sum.split prod.split bool.split)
  qed
  then show ?thesis by (simp add: unary_sync_def)
qed

end
