(* ===== verification/Async_Calls.thy ===== *)
theory Async_Calls
  imports Unary
begin

text \<open>
  The callback call of \<^verbatim>\<open>include/tinvest/detail/unary.hpp\<close>: \<^verbatim>\<open>unary_async\<close> and its completion lambda.
  Calls are numbered in the order they are made. A call that is let through allocates a
  \<^verbatim>\<open>State\<close> (context, request, callback), gives gRPC pointers into it and returns; some time later a thread of
  gRPC runs the lambda, which calls the callback and then deletes the object. Between these two
  anything can happen, as the callback is the user's code and may itself make calls, so they are two steps.

  The machine keeps the heap (the allocator returns any free address), the calls that gRPC has not
  completed, the lambdas that still have to delete their object, and logs of the started RPCs, of
  gRPC's replies and of the callbacks. gRPC completes every started call once. Using or deleting an object
  that does not exist is undefined.
\<close>

section \<open>The machine\<close>

record 'q call_state =
  st_ctx :: client_context
  st_req :: 'q
  st_cb :: nat

record ('q, 'r) async_sys =
  as_limiter :: limiter
  as_heap :: "nat \<Rightarrow> 'q call_state option"
  as_flight :: "nat list"
  as_finishing :: "nat list"
  as_count :: nat
  as_started :: "(nat \<times> client_context \<times> 'q) list"
  as_replies :: "(nat \<times> 'r reply) list"
  as_reports :: "(nat \<times> 'r result) list"

definition async_init :: "limiter \<Rightarrow> ('q, 'r) async_sys" where
  "async_init l = \<lparr>as_limiter = l, as_heap = (\<lambda>_. None), as_flight = [], as_finishing = [], as_count = 0,
     as_started = [], as_replies = [], as_reports = []\<rparr>"

definition client_limit_error :: error where
  "client_limit_error = default_error\<lparr>err_code := RESOURCE_EXHAUSTED,
     err_message := ''client-side rate limit exceeded'', err_api_code := ''client''\<rparr>"

text \<open>
  The call itself: \<open>clock\<close> and \<open>now\<close> are the readings of the steady and the system clock, \<open>a\<close> is the address
  that \<^verbatim>\<open>new State\<close> returns if it is reached. Without a slot the callback runs at once, on the calling thread.
\<close>

definition unary_async :: "client \<Rightarrow> call_options \<Rightarrow> string \<Rightarrow> 'q \<Rightarrow> int \<Rightarrow> int \<Rightarrow> nat \<Rightarrow>
    ('q, 'r) async_sys \<Rightarrow> ('q, 'r) async_sys cpp" where
  "unary_async c opts m req clock now a s =
     (case try_acquire m clock (as_limiter s) of
        (False, l) \<Rightarrow> Inr (s\<lparr>as_limiter := l, as_count := Suc (as_count s),
           as_reports := (as_count s, Failure client_limit_error) # as_reports s\<rparr>)
      | (True, l) \<Rightarrow>
          cbind (setup_context c opts now empty_context) (\<lambda>ctx.
            Inr (s\<lparr>as_limiter := l, as_count := Suc (as_count s),
              as_heap := (as_heap s)(a \<mapsto> \<lparr>st_ctx = ctx, st_req = req, st_cb = as_count s\<rparr>),
              as_flight := a # as_flight s, as_started := (as_count s, ctx, req) # as_started s\<rparr>)))"

text \<open>The completion lambda up to the return of the callback, and its \<^verbatim>\<open>delete st\<close>.\<close>

definition async_callback :: "nat \<Rightarrow> 'r reply \<Rightarrow> ('q, 'r) async_sys \<Rightarrow> ('q, 'r) async_sys cpp" where
  "async_callback a r s =
     (case as_heap s a of
        None \<Rightarrow> Inl OutOfRange
      | Some st \<Rightarrow>
          cbind (if rep_code r = OK then Inr (Value (rep_resp r)) else cbind (make_error r) (\<lambda>e. Inr (Failure e)))
            (\<lambda>res. Inr (s\<lparr>as_flight := remove1 a (as_flight s), as_finishing := a # as_finishing s,
               as_replies := (st_cb st, r) # as_replies s, as_reports := (st_cb st, res) # as_reports s\<rparr>)))"

definition async_delete :: "nat \<Rightarrow> ('q, 'r) async_sys \<Rightarrow> ('q, 'r) async_sys cpp" where
  "async_delete a s =
     (case as_heap s a of
        None \<Rightarrow> Inl OutOfRange
      | Some st \<Rightarrow> Inr (s\<lparr>as_heap := (as_heap s)(a := None), as_finishing := remove1 a (as_finishing s)\<rparr>))"

text \<open>The steps; the limiter is shared with blocking calls and may be reconfigured at any time.\<close>

inductive async_step :: "client \<Rightarrow> ('q, 'r) async_sys \<Rightarrow> ('q, 'r) async_sys cpp \<Rightarrow> bool" for c where
  a_call: "as_heap s a = None \<Longrightarrow> async_step c s (unary_async c opts m req clock now a s)"
| a_complete: "a \<in> set (as_flight s) \<Longrightarrow> async_step c s (async_callback a r s)"
| a_delete: "a \<in> set (as_finishing s) \<Longrightarrow> async_step c s (async_delete a s)"
| a_others: "async_step c s (Inr (s\<lparr>as_limiter := l\<rparr>))"

inductive async_reach :: "client \<Rightarrow> ('q, 'r) async_sys \<Rightarrow> bool" for c where
  ar_init: "async_reach c (async_init l)"
| ar_step: "async_reach c s \<Longrightarrow> async_step c s (Inr s') \<Longrightarrow> async_reach c s'"

text \<open>The numbers of the calls that gRPC has not completed.\<close>

definition flight_ids :: "('q, 'r) async_sys \<Rightarrow> nat list" where
  "flight_ids s = map (\<lambda>a. case as_heap s a of Some st \<Rightarrow> st_cb st | None \<Rightarrow> 0) (as_flight s)"

section \<open>The invariant\<close>

text \<open>Every object is in use by one completion, pending or running.\<close>

definition heap_ok :: "('q, 'r) async_sys \<Rightarrow> bool" where
  "heap_ok s \<longleftrightarrow> distinct (as_flight s @ as_finishing s)
     \<and> (\<forall>a. as_heap s a \<noteq> None \<longleftrightarrow> a \<in> set (as_flight s) \<union> set (as_finishing s))"

text \<open>Every number below \<open>n\<close> is in one of the first two lists, once; the third one has no repetition and covers the second.\<close>

definition once_each :: "nat list \<Rightarrow> nat list \<Rightarrow> nat list \<Rightarrow> nat \<Rightarrow> bool" where
  "once_each reported flying started n \<longleftrightarrow>
     (\<forall>i. count_list reported i + count_list flying i = (if i < n then 1 else 0))
     \<and> distinct started \<and> set flying \<subseteq> set started \<and> set started \<subseteq> {..<n}"

definition once_ok :: "('q, 'r) async_sys \<Rightarrow> bool" where
  "once_ok s \<longleftrightarrow> once_each (map fst (as_reports s)) (flight_ids s) (map fst (as_started s)) (as_count s)"

definition result_explained :: "('q, 'r) async_sys \<Rightarrow> nat \<Rightarrow> 'r result \<Rightarrow> bool" where
  "result_explained s i res \<longleftrightarrow>
     (\<exists>r. (i, r) \<in> set (as_replies s) \<and> returns_for r res \<and> i \<in> fst ` set (as_started s))
     \<or> res = Failure client_limit_error \<and> i < as_count s \<and> i \<notin> fst ` set (as_started s)"

definition reports_ok :: "('q, 'r) async_sys \<Rightarrow> bool" where
  "reports_ok s \<longleftrightarrow> (\<forall>(i, res)\<in>set (as_reports s). result_explained s i res)"

definition async_inv :: "('q, 'r) async_sys \<Rightarrow> bool" where
  "async_inv s \<longleftrightarrow> heap_ok s \<and> once_ok s \<and> reports_ok s"

lemma result_explained_mono:
  assumes "result_explained s i res" "set (as_replies s) \<subseteq> set (as_replies t)" "as_count s \<le> as_count t"
    and "i \<in> fst ` set (as_started t) \<longleftrightarrow> i \<in> fst ` set (as_started s)"
  shows "result_explained t i res"
  using assms unfolding result_explained_def by (meson less_le_trans subsetD)

lemma once_each_report: "once_each rs fs ss n \<Longrightarrow> once_each (n # rs) fs ss (Suc n)"
  unfolding once_each_def by (auto simp: less_Suc_eq)

lemma once_each_start: "once_each rs fs ss n \<Longrightarrow> once_each rs (n # fs) (n # ss) (Suc n)"
  unfolding once_each_def by (auto simp: less_Suc_eq)

lemma once_each_finish:
  assumes "once_each rs fs ss n"
    and "\<And>j. count_list fs j = count_list fs' j + (if i = j then 1 else 0)"
  shows "once_each (i # rs) fs' ss n"
proof -
  have "count_list fs' j \<noteq> 0 \<Longrightarrow> count_list fs j \<noteq> 0" for j using assms(2) [of j] by simp
  then have "set fs' \<subseteq> set fs" by (auto simp: count_list_0_iff)
  moreover have "count_list (i # rs) j + count_list fs' j = count_list rs j + count_list fs j" for j
    using assms(2) [of j] by simp
  ultimately show ?thesis using assms(1) unfolding once_each_def by auto
qed

lemma count_list_remove1:
  "a \<in> set xs \<Longrightarrow> count_list (map f xs) i = count_list (map f (remove1 a xs)) i + (if f a = i then 1 else 0)"
  by (induction xs) auto

lemma flight_ids_heap:
  "(\<And>a. a \<in> set (as_flight s) \<Longrightarrow> h a = as_heap s a) \<Longrightarrow> as_flight t = as_flight s \<Longrightarrow> as_heap t = h \<Longrightarrow>
   flight_ids t = flight_ids s"
  by (simp add: flight_ids_def)

lemma reported_bound:
  assumes "once_ok s"
  shows "i \<in> fst ` set (as_reports s) \<Longrightarrow> i < as_count s"
    and "i \<in> fst ` set (as_started s) \<Longrightarrow> i < as_count s"
proof -
  have "count_list (map fst (as_reports s)) i = 0" if "\<not> i < as_count s"
    using assms that unfolding once_ok_def once_each_def by (metis add_is_0)
  then show "i \<in> fst ` set (as_reports s) \<Longrightarrow> i < as_count s" by (force simp: count_list_0_iff)
  show "i \<in> fst ` set (as_started s) \<Longrightarrow> i < as_count s"
    using assms by (auto simp: once_ok_def once_each_def)
qed

lemma call_rejected_inv:
  assumes inv: "async_inv s"
  shows "async_inv (s\<lparr>as_limiter := l, as_count := Suc (as_count s),
    as_reports := (as_count s, Failure client_limit_error) # as_reports s\<rparr>)" (is "async_inv ?t")
proof -
  have "flight_ids ?t = flight_ids s" by (simp add: flight_ids_def)
  then have "once_ok ?t" using inv by (simp add: async_inv_def once_ok_def once_each_report)
  moreover have "as_count s \<notin> fst ` set (as_started s)" using reported_bound(2) [of s] inv by (auto simp: async_inv_def)
  moreover have "reports_ok ?t"
    using inv \<open>as_count s \<notin> fst ` set (as_started s)\<close>
    by (auto simp: async_inv_def reports_ok_def result_explained_def intro: less_SucI)
  ultimately show ?thesis using inv by (simp add: async_inv_def heap_ok_def)
qed

lemma call_started_inv:
  assumes inv: "async_inv s" and a: "as_heap s a = None"
  shows "async_inv (s\<lparr>as_limiter := l, as_count := Suc (as_count s),
    as_heap := (as_heap s)(a \<mapsto> \<lparr>st_ctx = ctx, st_req = req, st_cb = as_count s\<rparr>),
    as_flight := a # as_flight s, as_started := (as_count s, ctx, req) # as_started s\<rparr>)" (is "async_inv ?t")
proof -
  have new: "a \<notin> set (as_flight s)" "a \<notin> set (as_finishing s)" 
    using inv a unfolding async_inv_def heap_ok_def by (metis UnCI)+
  then have ids: "flight_ids ?t = as_count s # flight_ids s" by (auto simp: flight_ids_def)
  have once: "once_ok s" using inv by (simp add: async_inv_def)
  have fresh: "as_count s \<notin> fst ` set (as_started s)" "as_count s \<notin> fst ` set (as_reports s)"
    using reported_bound [OF once] by auto
  have "heap_ok ?t" using inv new by (auto simp: async_inv_def heap_ok_def)
  moreover have "once_ok ?t" using once ids by (simp add: once_ok_def once_each_start)
  moreover have "reports_ok ?t"
    unfolding reports_ok_def
  proof (clarify)
    fix i res assume rep: "(i, res) \<in> set (as_reports ?t)"
    then have "i \<noteq> as_count s" using fresh(2) by force
    moreover have "result_explained s i res" using inv rep by (auto simp: async_inv_def reports_ok_def)
    ultimately show "result_explained ?t i res" by (rule_tac result_explained_mono) auto
  qed
  ultimately show ?thesis by (simp add: async_inv_def)
qed

lemma completed_inv:
  assumes inv: "async_inv s" and a: "a \<in> set (as_flight s)" "as_heap s a = Some st" and res: "returns_for r res"
  shows "async_inv (s\<lparr>as_flight := remove1 a (as_flight s), as_finishing := a # as_finishing s,
    as_replies := (st_cb st, r) # as_replies s, as_reports := (st_cb st, res) # as_reports s\<rparr>)" (is "async_inv ?t")
proof -
  have parts: "heap_ok s" "once_ok s" "reports_ok s" using inv by (simp_all add: async_inv_def)
  have cnt: "count_list (flight_ids s) i = count_list (flight_ids ?t) i + (if st_cb st = i then 1 else 0)" for i
    using count_list_remove1 [OF a(1), of _ i] a(2) by (simp add: flight_ids_def)
  have id: "st_cb st \<in> set (flight_ids s)" using a by (force simp: flight_ids_def)
  have once: "once_ok ?t" using once_each_finish [OF parts(2) [unfolded once_ok_def] cnt] by (simp add: once_ok_def)
  have heap: "heap_ok ?t" using parts(1) a by (auto simp: heap_ok_def)
  have "st_cb st \<in> fst ` set (as_started s)" using parts(2) id by (auto simp: once_ok_def once_each_def)
  then have new: "result_explained ?t (st_cb st) res" using res by (auto simp: result_explained_def)
  have "result_explained ?t i q" if "(i, q) \<in> set (as_reports s)" for i q
    by (rule result_explained_mono [of s]) (use that parts(3) in \<open>auto simp: reports_ok_def\<close>)
  then have "reports_ok ?t" using new by (auto simp: reports_ok_def)
  then show ?thesis using once heap by (simp add: async_inv_def)
qed

lemma deleted_inv:
  assumes inv: "async_inv s" and a: "a \<in> set (as_finishing s)"
  shows "async_inv (s\<lparr>as_heap := (as_heap s)(a := None), as_finishing := remove1 a (as_finishing s)\<rparr>)" (is "async_inv ?t")
proof -
  have parts: "heap_ok s" "once_ok s" "reports_ok s" using inv by (simp_all add: async_inv_def)
  have "flight_ids ?t = flight_ids s"
    by (rule flight_ids_heap [where h = "(as_heap s)(a := None)"]) (use parts(1) a in \<open>auto simp: heap_ok_def\<close>)
  then show ?thesis
    using parts a by (auto simp: async_inv_def heap_ok_def once_ok_def reports_ok_def result_explained_def)
qed

lemma async_callback_undefined:
  assumes "as_heap s a \<noteq> None" "async_callback a r s = Inl u"
  shows "rep_code r \<noteq> OK \<and> make_error r = Inl u"
  using assms by (auto simp: async_callback_def cbind_def split: sum.splits if_splits)

lemma async_step_inv:
  assumes "async_inv s" "async_step c s (Inr s')"
  shows "async_inv s'"
  using assms(2)
proof cases
  case (a_call a opts m req clock now)
  obtain ok l where t: "try_acquire m clock (as_limiter s) = (ok, l)" by (cases "try_acquire m clock (as_limiter s)")
  show ?thesis
  proof (cases ok)
    case True
    then show ?thesis
      using a_call(1) [symmetric] t call_started_inv [OF assms(1) a_call(2)]
      by (auto simp: unary_async_def cbind_eq_Inr_iff)
  qed (use a_call t call_rejected_inv [OF assms(1)] in \<open>auto simp: unary_async_def\<close>)
next
  case (a_complete a r)
  then obtain st where st: "as_heap s a = Some st" by (auto simp: async_callback_def split: option.splits)
  with a_complete(1) [symmetric] obtain res where r: "returns_for r res"
    "s' = s\<lparr>as_flight := remove1 a (as_flight s), as_finishing := a # as_finishing s,
      as_replies := (st_cb st, r) # as_replies s, as_reports := (st_cb st, res) # as_reports s\<rparr>"
    by (cases "rep_code r = OK") (force simp: async_callback_def returns_for_def cbind_eq_Inr_iff)+
  show ?thesis unfolding r(2) by (rule completed_inv [OF assms(1) a_complete(2) st r(1)])
next
  case (a_delete a)
  then show ?thesis using deleted_inv [OF assms(1)] by (auto simp: async_delete_def split: option.splits)
next
  case (a_others l)
  then show ?thesis
    using assms(1) by (simp add: async_inv_def heap_ok_def once_ok_def reports_ok_def result_explained_def flight_ids_def)
qed

lemma async_reach_inv: "async_reach c s \<Longrightarrow> async_inv s"
proof (induction rule: async_reach.induct)
  case (ar_init l)
  show ?case by (simp add: async_inv_def heap_ok_def once_ok_def once_each_def reports_ok_def flight_ids_def async_init_def)
qed (rule async_step_inv)

section \<open>Properties\<close>

text \<open>
  C9: callback calls complete exactly once and leave nothing behind, in every interleaving of calls (also
  from inside callbacks), of completions by gRPC and of changes to the limiter. Every call that was made is
  either in flight or has been reported to its callback, never both and never twice; at most one RPC is
  started for it, so it is not retried. A result is the classification of gRPC's reply to that RPC, or the
  local error of a call for which no RPC was started. The objects on the heap are exactly those
  of calls in flight and of completions that still have to delete theirs; no completion uses or deletes an
  object that is gone, the only undefined case being an unreadable rate-limit header of a failed reply. When
  everything has run, the heap is empty and every call has been reported.
\<close>

theorem unary_async_reports_once:
  assumes "async_reach c s"
  shows "(\<forall>i<as_count s. count_list (map fst (as_reports s)) i + count_list (flight_ids s) i = 1)
    \<and> distinct (map fst (as_started s))
    \<and> (\<forall>(i, res)\<in>set (as_reports s). i < as_count s
        \<and> ((\<exists>r. (i, r) \<in> set (as_replies s) \<and> returns_for r res \<and> i \<in> fst ` set (as_started s))
           \<or> res = Failure client_limit_error \<and> i \<notin> fst ` set (as_started s)))
    \<and> (\<forall>a. as_heap s a \<noteq> None \<longleftrightarrow> a \<in> set (as_flight s) \<union> set (as_finishing s))
    \<and> (\<forall>a\<in>set (as_flight s). \<forall>r u. async_callback a r s = Inl u \<longrightarrow> rep_code r \<noteq> OK \<and> make_error r = Inl u)
    \<and> (\<forall>a\<in>set (as_finishing s). \<exists>s'. async_delete a s = Inr s')
    \<and> (as_flight s = [] \<and> as_finishing s = [] \<longrightarrow> as_heap s = (\<lambda>_. None)
        \<and> (\<forall>i<as_count s. count_list (map fst (as_reports s)) i = 1))"
proof -
  have inv: "heap_ok s" "once_ok s" "reports_ok s" using async_reach_inv [OF assms] by (simp_all add: async_inv_def)
  have once: "\<forall>i<as_count s. count_list (map fst (as_reports s)) i + count_list (flight_ids s) i = 1"
    using inv(2) by (simp add: once_ok_def once_each_def)
  have started: "distinct (map fst (as_started s))" using inv(2) by (simp add: once_ok_def once_each_def)
  have explained: "\<forall>(i, res)\<in>set (as_reports s). i < as_count s
        \<and> ((\<exists>r. (i, r) \<in> set (as_replies s) \<and> returns_for r res \<and> i \<in> fst ` set (as_started s))
           \<or> res = Failure client_limit_error \<and> i \<notin> fst ` set (as_started s))"
    using inv(3) reported_bound(1) [OF inv(2)] unfolding reports_ok_def result_explained_def by force
  have heap: "\<forall>a. as_heap s a \<noteq> None \<longleftrightarrow> a \<in> set (as_flight s) \<union> set (as_finishing s)"
    using inv(1) by (simp add: heap_ok_def)
  then have use: "\<forall>a\<in>set (as_flight s). \<forall>r u. async_callback a r s = Inl u \<longrightarrow> rep_code r \<noteq> OK \<and> make_error r = Inl u"
    using async_callback_undefined [of s] by blast
  have del: "\<forall>a\<in>set (as_finishing s). \<exists>s'. async_delete a s = Inr s'"
    using heap by (fastforce simp: async_delete_def split: option.splits)
  have "as_heap s = (\<lambda>_. None)" if "as_flight s = []" "as_finishing s = []" using heap that by auto
  moreover have "\<forall>i<as_count s. count_list (map fst (as_reports s)) i = 1" if "as_flight s = []"
    using once that by (simp add: flight_ids_def)
  ultimately show ?thesis using once started explained heap use del by blast
qed

text \<open>Two calls on a method that is limited to one per window: the first one in flight, the second one rejected.\<close>

definition demo_async :: "(int, int) async_sys" where
  "demo_async = (async_init (set_limit [''S/A''] 1 (mk_limiter 60000)))\<lparr>
     as_limiter := (set_limit [''S/A''] 1 (mk_limiter 60000))\<lparr>rl_groups := [\<lparr>g_limit = 1, g_count = 1, g_window_start = 100000000000\<rparr>]\<rparr>,
     as_heap := [5 \<mapsto> \<lparr>st_ctx = demo_ctx, st_req = 7, st_cb = 0\<rparr>], as_flight := [5], as_count := 2,
     as_started := [(0, demo_ctx, 7)], as_reports := [(1, Failure client_limit_error)]\<rparr>"

lemma demo_async_reach: "async_reach demo_client demo_async"
proof -
  let ?l = "set_limit [''S/A''] 1 (mk_limiter 60000)"
  let ?l1 = "?l\<lparr>rl_groups := [\<lparr>g_limit = 1, g_count = 1, g_window_start = 100000000000\<rparr>]\<rparr>"
  let ?s0 = "async_init ?l :: (int, int) async_sys"
  let ?s1 = "demo_async\<lparr>as_count := 1, as_reports := []\<rparr>"
  note simps = set_limit_def add_group_def mk_limiter_def assign_group_def normalize_method_def
  have t: "try_acquire ''S/A'' 100000000000 ?l = (True, ?l1)" "try_acquire ''S/A'' 100000000001 ?l1 = (False, ?l1)"
    by (simp_all add: simps try_acquire_def take_slot_def roll_window_def window_ns_def)
  have 0: "async_reach demo_client ?s0" by (rule ar_init)
  have "unary_async demo_client default_call_options ''S/A'' 7 100000000000 0 5 ?s0 = Inr ?s1"
    using t(1) by (simp add: unary_async_def demo_context async_init_def demo_async_def)
  moreover have "async_step demo_client ?s0 (unary_async demo_client default_call_options ''S/A'' 7 100000000000 0 5 ?s0)"
    by (rule a_call) (simp add: async_init_def)
  ultimately have 1: "async_reach demo_client ?s1" using ar_step [OF 0] by simp
  have "unary_async demo_client default_call_options ''S/A'' 8 100000000001 0 6 ?s1 = Inr demo_async"
    using t(2) by (simp add: unary_async_def async_init_def demo_async_def)
  moreover have "async_step demo_client ?s1 (unary_async demo_client default_call_options ''S/A'' 8 100000000001 0 6 ?s1)"
    by (rule a_call) (simp add: demo_async_def async_init_def)
  ultimately show ?thesis using ar_step [OF 1] by simp
qed

theorem unary_async_reports_once_witness:
  "count_list (flight_ids demo_async) 0 = 1 \<and> count_list (map fst (as_reports demo_async)) 1 = 1
   \<and> (\<exists>s'. async_callback 5 demo_answer demo_async = Inr s' \<and> as_reports s' = [(0, Value 42), (1, Failure client_limit_error)])"
proof -
  note once = unary_async_reports_once [OF demo_async_reach]
  have "count_list (map fst (as_reports demo_async)) i + count_list (flight_ids demo_async) i = 1" if "i < 2" for i
    using once that by (simp add: demo_async_def async_init_def)
  from this [of 0] this [of 1] show ?thesis
    by (simp add: demo_async_def async_init_def async_callback_def demo_answer_def flight_ids_def)
qed

end
