(* ===== verification/Coroutines.thy ===== *)
theory Coroutines
  imports Prelude
begin

text \<open>
  \<^verbatim>\<open>include/tinvest/awaitable.hpp\<close>: the lazy \<^verbatim>\<open>Task\<close>, its promise, the awaiters of a task
  and of a unary call, and \<^verbatim>\<open>sync_wait\<close>.

  A coroutine body is user code: \<open>co\<close> is the tree of what it does between its suspension points
  (\<^verbatim>\<open>co_return\<close>, an exception that leaves the body, an effect on the outside world such as
  printing, \<^verbatim>\<open>co_await\<close> of a call or of a freshly created task, with a continuation that receives
  the outcome). The frames are objects in a store
  indexed by handle, each with its promise; \<open>machine\<close> holds the store, the coroutine that runs,
  the call in flight and the semaphore of \<^verbatim>\<open>sync_wait\<close>. A call completes by a step of its own,
  on whatever thread: inline completion and completion later are the same transition, since the
  coroutine is already suspended when \<^verbatim>\<open>await_suspend\<close> runs. The outside world, the server
  above all, is a parameter: what it answers, and its next state, as a function of its state and
  the request.

  The theorem compares a run with \<open>direct\<close>, the same body executed as ordinary blocking code.
\<close>

section \<open>Coroutine bodies\<close>

datatype ('v, 'e, 'q, 'r) co =
    CoReturn 'v
  | CoThrow 'e
  | Perform 'q "('v, 'e, 'q, 'r) co"
  | AwaitCall 'q "'r \<Rightarrow> ('v, 'e, 'q, 'r) co"
  | AwaitTask "('v, 'e, 'q, 'r) co" "'e + 'v \<Rightarrow> ('v, 'e, 'q, 'r) co"

text \<open>The body as blocking code: every call answered in place, every task run in place.\<close>

primrec direct :: "('s \<Rightarrow> 'q \<Rightarrow> 'r \<times> 's) \<Rightarrow> ('v, 'e, 'q, 'r) co \<Rightarrow> 's \<Rightarrow> ('e + 'v) \<times> 's" where
  "direct answer (CoReturn v) = (\<lambda>s. (Inr v, s))"
| "direct answer (CoThrow e) = (\<lambda>s. (Inl e, s))"
| "direct answer (Perform q c) = (\<lambda>s. direct answer c (snd (answer s q)))"
| "direct answer (AwaitCall q k) = (\<lambda>s. case answer s q of (r, s1) \<Rightarrow> direct answer (k r) s1)"
| "direct answer (AwaitTask c k) = (\<lambda>s. case direct answer c s of (o1, s1) \<Rightarrow> direct answer (k o1) s1)"

section \<open>Promise and awaiters\<close>

record ('v, 'e) promise =
  pr_value :: "'v option"
  pr_exception :: "'e option"
  pr_continuation :: "nat option"
  pr_on_complete :: bool

definition new_promise :: "('v, 'e) promise" where
  "new_promise = \<lparr>pr_value = None, pr_exception = None, pr_continuation = None, pr_on_complete = False\<rparr>"

definition return_value :: "'v \<Rightarrow> ('v, 'e) promise \<Rightarrow> ('v, 'e) promise" where
  "return_value v p = p\<lparr>pr_value := Some v\<rparr>"

definition unhandled_exception :: "'e \<Rightarrow> ('v, 'e) promise \<Rightarrow> ('v, 'e) promise" where
  "unhandled_exception e p = p\<lparr>pr_exception := Some e\<rparr>"

text \<open>Where control goes when a coroutine suspends: to another one, or back to the caller of resume.\<close>

datatype transfer = To nat | Noop

text \<open>The final awaiter: the number says how often the semaphore is released.\<close>

definition final_await_suspend :: "('v, 'e) promise \<Rightarrow> transfer \<times> nat \<times> ('v, 'e) promise" where
  "final_await_suspend p =
     (case pr_continuation p of
        Some c \<Rightarrow> (To c, 0, p)
      | None \<Rightarrow> (Noop, if pr_on_complete p then 1 else 0, p\<lparr>pr_on_complete := False\<rparr>))"

definition task_await_suspend :: "nat \<Rightarrow> ('v, 'e) promise \<Rightarrow> ('v, 'e) promise" where
  "task_await_suspend awaiting p = p\<lparr>pr_continuation := Some awaiting\<rparr>"

text \<open>Rethrowing is the left alternative; reading an empty optional is undefined.\<close>

definition task_await_resume :: "('v, 'e) promise \<Rightarrow> ('e + 'v) cpp" where
  "task_await_resume p =
     (case pr_exception p of
        Some e \<Rightarrow> Inr (Inl e)
      | None \<Rightarrow> (case pr_value p of Some v \<Rightarrow> Inr (Inr v) | None \<Rightarrow> Inl OutOfRange))"

record ('q, 'r) unary_awaiter =
  ua_start :: "'q option"
  ua_result :: "'r option"

definition mk_unary_awaiter :: "'q \<Rightarrow> ('q, 'r) unary_awaiter" where
  "mk_unary_awaiter q = \<lparr>ua_start = Some q, ua_result = None\<rparr>"

text \<open>The start function is moved out before it is called, so the call owns what it needs.\<close>

definition unary_await_suspend :: "('q, 'r) unary_awaiter \<Rightarrow> 'q option \<times> ('q, 'r) unary_awaiter" where
  "unary_await_suspend a = (ua_start a, a\<lparr>ua_start := None\<rparr>)"

definition unary_complete :: "'r \<Rightarrow> ('q, 'r) unary_awaiter \<Rightarrow> ('q, 'r) unary_awaiter" where
  "unary_complete r a = a\<lparr>ua_result := Some r\<rparr>"

definition unary_await_resume :: "('q, 'r) unary_awaiter \<Rightarrow> 'r cpp" where
  "unary_await_resume a = (case ua_result a of Some r \<Rightarrow> Inr r | None \<Rightarrow> Inl OutOfRange)"

section \<open>Frames and the machine\<close>

datatype ('v, 'e, 'q, 'r) position =
    Running "('v, 'e, 'q, 'r) co"
  | OnCall "('q, 'r) unary_awaiter" "'r \<Rightarrow> ('v, 'e, 'q, 'r) co"
  | OnTask nat "'e + 'v \<Rightarrow> ('v, 'e, 'q, 'r) co"
  | AtEnd

record ('v, 'e, 'q, 'r) frame =
  fr_promise :: "('v, 'e) promise"
  fr_pos :: "('v, 'e, 'q, 'r) position"

record ('v, 'e, 'q, 'r, 's) machine =
  mc_store :: "nat \<Rightarrow> ('v, 'e, 'q, 'r) frame option"
  mc_next :: nat
  mc_run :: transfer
  mc_call :: "(nat \<times> 'q) option"
  mc_sem :: nat
  mc_server :: 's

text \<open>Creating a task: the coroutine is suspended before its first statement.\<close>

definition new_frame :: "('v, 'e, 'q, 'r) co \<Rightarrow> ('v, 'e, 'q, 'r) frame" where
  "new_frame c = \<lparr>fr_promise = new_promise, fr_pos = Running c\<rparr>"

definition finish :: "nat \<Rightarrow> ('v, 'e) promise \<Rightarrow> ('v, 'e, 'q, 'r, 's) machine \<Rightarrow> ('v, 'e, 'q, 'r, 's) machine" where
  "finish h p m =
     (case final_await_suspend p of (t, n, p1) \<Rightarrow>
        m\<lparr>mc_store := (mc_store m)(h \<mapsto> \<lparr>fr_promise = p1, fr_pos = AtEnd\<rparr>), mc_run := t, mc_sem := mc_sem m + n\<rparr>)"

text \<open>
  One segment of the running coroutine, up to its next suspension point. Awaiting a task creates
  its frame and transfers to it; back in the awaiting coroutine its outcome is read and the
  temporary task destroys the frame.
\<close>

definition run_segment :: "('s \<Rightarrow> 'q \<Rightarrow> 'r \<times> 's) \<Rightarrow> nat \<Rightarrow> ('v, 'e, 'q, 'r, 's) machine \<Rightarrow> ('v, 'e, 'q, 'r, 's) machine cpp" where
  "run_segment answer h m =
     (case mc_store m h of
        None \<Rightarrow> Inl OutOfRange
      | Some f \<Rightarrow>
          (case fr_pos f of
             Running (CoReturn v) \<Rightarrow> Inr (finish h (return_value v (fr_promise f)) m)
           | Running (CoThrow e) \<Rightarrow> Inr (finish h (unhandled_exception e (fr_promise f)) m)
           | Running (Perform q c) \<Rightarrow>
               Inr (m\<lparr>mc_store := (mc_store m)(h \<mapsto> f\<lparr>fr_pos := Running c\<rparr>),
                      mc_server := snd (answer (mc_server m) q)\<rparr>)
           | Running (AwaitCall q k) \<Rightarrow>
               (case unary_await_suspend (mk_unary_awaiter q) of (start, a) \<Rightarrow>
                  Inr (m\<lparr>mc_store := (mc_store m)(h \<mapsto> f\<lparr>fr_pos := OnCall a k\<rparr>), mc_run := Noop,
                         mc_call := map_option (\<lambda>q. (h, q)) start\<rparr>))
           | Running (AwaitTask c k) \<Rightarrow>
               (let child = mc_next m; cf = new_frame c in
                Inr (m\<lparr>mc_store := (mc_store m)(h \<mapsto> f\<lparr>fr_pos := OnTask child k\<rparr>,
                         child \<mapsto> cf\<lparr>fr_promise := task_await_suspend h (fr_promise cf)\<rparr>),
                       mc_next := child + 1, mc_run := To child\<rparr>))
           | OnCall a k \<Rightarrow>
               cbind (unary_await_resume a) (\<lambda>r.
                 Inr (m\<lparr>mc_store := (mc_store m)(h \<mapsto> f\<lparr>fr_pos := Running (k r)\<rparr>)\<rparr>))
           | OnTask child k \<Rightarrow>
               (case mc_store m child of
                  None \<Rightarrow> Inl OutOfRange
                | Some cf \<Rightarrow> cbind (task_await_resume (fr_promise cf)) (\<lambda>r.
                    Inr (m\<lparr>mc_store := ((mc_store m)(h \<mapsto> f\<lparr>fr_pos := Running (k r)\<rparr>))(child := None)\<rparr>)))
           | AtEnd \<Rightarrow> Inl OutOfRange))"

text \<open>The callback of the call in flight: the result is stored and the coroutine resumed.\<close>

definition call_done :: "('s \<Rightarrow> 'q \<Rightarrow> 'r \<times> 's) \<Rightarrow> nat \<Rightarrow> 'q \<Rightarrow> ('v, 'e, 'q, 'r, 's) machine
    \<Rightarrow> ('v, 'e, 'q, 'r, 's) machine cpp" where
  "call_done answer h q m =
     (case mc_store m h of
        Some f \<Rightarrow>
          (case fr_pos f of
             OnCall a k \<Rightarrow>
               (case answer (mc_server m) q of (r, s1) \<Rightarrow>
                  Inr (m\<lparr>mc_store := (mc_store m)(h \<mapsto> f\<lparr>fr_pos := OnCall (unary_complete r a) k\<rparr>),
                         mc_run := To h, mc_call := None, mc_server := s1\<rparr>))
           | _ \<Rightarrow> Inl OutOfRange)
      | None \<Rightarrow> Inl OutOfRange)"

text \<open>The next transition; nothing is left to do when no coroutine runs and no call is in flight.\<close>

definition co_next :: "('s \<Rightarrow> 'q \<Rightarrow> 'r \<times> 's) \<Rightarrow> ('v, 'e, 'q, 'r, 's) machine
    \<Rightarrow> ('v, 'e, 'q, 'r, 's) machine cpp option" where
  "co_next answer m =
     (case mc_run m of
        To h \<Rightarrow> Some (run_segment answer h m)
      | Noop \<Rightarrow> (case mc_call m of Some (h, q) \<Rightarrow> Some (call_done answer h q m) | None \<Rightarrow> None))"

inductive co_step :: "('s \<Rightarrow> 'q \<Rightarrow> 'r \<times> 's) \<Rightarrow> ('v, 'e, 'q, 'r, 's) machine \<Rightarrow> ('v, 'e, 'q, 'r, 's) machine \<Rightarrow> bool"
  for answer where
  co_step: "co_next answer m = Some (Inr m') \<Longrightarrow> co_step answer m m'"

inductive_cases co_stepE: "co_step answer m m'"

text \<open>\<^verbatim>\<open>sync_wait\<close> before it blocks, and what it returns once the semaphore is released.\<close>

definition sync_wait_start :: "('v, 'e, 'q, 'r) co \<Rightarrow> 's \<Rightarrow> ('v, 'e, 'q, 'r, 's) machine" where
  "sync_wait_start c s =
     \<lparr>mc_store = [0 \<mapsto> (new_frame c)\<lparr>fr_promise := new_promise\<lparr>pr_on_complete := True\<rparr>\<rparr>], mc_next = 1,
      mc_run = To 0, mc_call = None, mc_sem = 0, mc_server = s\<rparr>"

definition sync_wait_result :: "('v, 'e, 'q, 'r, 's) machine \<Rightarrow> ('e + 'v) cpp option" where
  "sync_wait_result m =
     (if mc_sem m = 0 then None
      else case mc_store m 0 of None \<Rightarrow> Some (Inl OutOfRange) | Some f \<Rightarrow> Some (task_await_resume (fr_promise f)))"

section \<open>A body runs to its end\<close>

definition settle :: "'e + 'v \<Rightarrow> ('v, 'e) promise \<Rightarrow> ('v, 'e) promise" where
  "settle o1 p = (case o1 of Inr v \<Rightarrow> return_value v p | Inl e \<Rightarrow> unhandled_exception e p)"

lemma task_await_resume_settle:
  "pr_value p = None \<Longrightarrow> pr_exception p = None \<Longrightarrow> task_await_resume (settle o1 p) = Inr o1"
  by (cases o1) (simp_all add: settle_def task_await_resume_def return_value_def unhandled_exception_def)

lemma task_await_resume_on_complete [simp]: "task_await_resume (p\<lparr>pr_on_complete := b\<rparr>) = task_await_resume p"
  by (simp add: task_await_resume_def split: option.splits)

lemma settle_keeps [simp]:
  "pr_continuation (settle o1 p) = pr_continuation p" "pr_on_complete (settle o1 p) = pr_on_complete p"
  by (cases o1; simp add: settle_def return_value_def unhandled_exception_def)+

text \<open>The coroutine \<open>h\<close> is about to run \<open>c\<close>; no handle from \<open>mc_next\<close> on is in use.\<close>

definition poised :: "nat \<Rightarrow> ('v, 'e, 'q, 'r) co \<Rightarrow> ('v, 'e) promise \<Rightarrow> ('v, 'e, 'q, 'r, 's) machine \<Rightarrow> bool" where
  "poised h c p m \<longleftrightarrow> mc_store m h = Some \<lparr>fr_promise = p, fr_pos = Running c\<rparr> \<and> mc_run m = To h
     \<and> mc_call m = None \<and> (\<forall>i\<ge>mc_next m. mc_store m i = None) \<and> pr_value p = None \<and> pr_exception p = None"

lemma poised_bound: "poised h c p m \<Longrightarrow> h < mc_next m"
  by (auto simp: poised_def not_le [symmetric])

lemma co_stepI: "mc_run m = To h \<Longrightarrow> run_segment answer h m = Inr m' \<Longrightarrow> co_step answer m m'"
  by (rule co_step.intros) (simp add: co_next_def)

lemma steps_call:
  assumes "poised h (AwaitCall q k) p m" "answer (mc_server m) q = (r, s1)"
  shows "\<exists>m3. (co_step answer)\<^sup>*\<^sup>* m m3 \<and> poised h (k r) p m3
    \<and> m3 = m\<lparr>mc_store := (mc_store m)(h \<mapsto> \<lparr>fr_promise = p, fr_pos = Running (k r)\<rparr>), mc_server := s1\<rparr>"
proof -
  let ?at = "\<lambda>pos. (mc_store m)(h \<mapsto> \<lparr>fr_promise = p, fr_pos = pos\<rparr>)"
  let ?a = "\<lparr>ua_start = None, ua_result = None\<rparr> :: ('c, 'd) unary_awaiter"
  let ?m1 = "m\<lparr>mc_store := ?at (OnCall ?a k), mc_run := Noop, mc_call := Some (h, q)\<rparr>"
  let ?m2 = "m\<lparr>mc_store := ?at (OnCall (?a\<lparr>ua_result := Some r\<rparr>) k), mc_server := s1\<rparr>"
  let ?m3 = "m\<lparr>mc_store := ?at (Running (k r)), mc_server := s1\<rparr>"
  have m: "mc_store m h = Some \<lparr>fr_promise = p, fr_pos = Running (AwaitCall q k)\<rparr>" "mc_run m = To h" "mc_call m = None"
    using assms(1) by (simp_all add: poised_def)
  have "co_step answer m ?m1"
    using m by (intro co_stepI [of _ h]) (simp_all add: run_segment_def unary_await_suspend_def mk_unary_awaiter_def)
  moreover have "co_step answer ?m1 ?m2"
    by (rule co_step.intros) (use m assms(2) in \<open>simp add: co_next_def call_done_def unary_complete_def\<close>)
  moreover have "co_step answer ?m2 ?m3"
    using m by (intro co_stepI [of _ h]) (simp_all add: run_segment_def unary_await_resume_def)
  ultimately have "(co_step answer)\<^sup>*\<^sup>* m ?m3" by (meson converse_rtranclp_into_rtranclp rtranclp.rtrancl_refl)
  moreover have "poised h (k r) p ?m3"
    using assms(1) poised_bound [OF assms(1)] by (auto simp: poised_def)
  ultimately show ?thesis by blast
qed

lemma step_task:
  assumes "poised h (AwaitTask c k) p m"
  shows "\<exists>m1. co_step answer m m1 \<and> poised (mc_next m) c (new_promise\<lparr>pr_continuation := Some h\<rparr>) m1
    \<and> m1 = m\<lparr>mc_store := (mc_store m)(h \<mapsto> \<lparr>fr_promise = p, fr_pos = OnTask (mc_next m) k\<rparr>,
        mc_next m \<mapsto> \<lparr>fr_promise = new_promise\<lparr>pr_continuation := Some h\<rparr>, fr_pos = Running c\<rparr>),
        mc_next := mc_next m + 1, mc_run := To (mc_next m)\<rparr>"
proof -
  let ?m1 = "m\<lparr>mc_store := (mc_store m)(h \<mapsto> \<lparr>fr_promise = p, fr_pos = OnTask (mc_next m) k\<rparr>,
        mc_next m \<mapsto> \<lparr>fr_promise = new_promise\<lparr>pr_continuation := Some h\<rparr>, fr_pos = Running c\<rparr>),
        mc_next := mc_next m + 1, mc_run := To (mc_next m)\<rparr>"
  have "co_step answer m ?m1"
    using assms by (intro co_stepI [of _ h]) (simp_all add: poised_def run_segment_def new_frame_def task_await_suspend_def Let_def)
  moreover have "poised (mc_next m) c (new_promise\<lparr>pr_continuation := Some h\<rparr>) ?m1"
    using assms poised_bound [OF assms] by (auto simp: poised_def new_promise_def)
  ultimately show ?thesis by blast
qed

lemma step_task_done:
  assumes "mc_run m = To h" "mc_store m h = Some \<lparr>fr_promise = p, fr_pos = OnTask n k\<rparr>"
    "mc_store m n = Some \<lparr>fr_promise = p', fr_pos = AtEnd\<rparr>" "task_await_resume p' = Inr o1"
  shows "co_step answer m (m\<lparr>mc_store := ((mc_store m)(h \<mapsto> \<lparr>fr_promise = p, fr_pos = Running (k o1)\<rparr>))(n := None)\<rparr>)"
  using assms by (intro co_stepI [of _ h]) (simp_all add: run_segment_def)

lemma finish_with_continuation:
  "pr_continuation p = Some h \<Longrightarrow>
   finish n p m = m\<lparr>mc_store := (mc_store m)(n \<mapsto> \<lparr>fr_promise = p, fr_pos = AtEnd\<rparr>), mc_run := To h\<rparr>"
  by (simp add: finish_def final_await_suspend_def)

lemma body_runs:
  assumes "poised h c p m"
  shows "\<exists>m' nx. (co_step answer)\<^sup>*\<^sup>* m m' \<and> mc_next m \<le> nx
    \<and> m' = finish h (settle (fst (direct answer c (mc_server m))) p)
        (m\<lparr>mc_next := nx, mc_server := snd (direct answer c (mc_server m))\<rparr>)"
  using assms
proof (induction c arbitrary: h p m)
  case (CoReturn v)
  then have "co_step answer m (finish h (return_value v p) m)"
    by (intro co_stepI [of _ h]) (simp_all add: poised_def run_segment_def)
  then show ?case by (intro exI [of _ "finish h (return_value v p) m"] exI [of _ "mc_next m"]) (auto simp: settle_def)
next
  case (CoThrow e)
  then have "co_step answer m (finish h (unhandled_exception e p) m)"
    by (intro co_stepI [of _ h]) (simp_all add: poised_def run_segment_def)
  then show ?case
    by (intro exI [of _ "finish h (unhandled_exception e p) m"] exI [of _ "mc_next m"]) (auto simp: settle_def)
next
  case (Perform q c)
  let ?m1 = "m\<lparr>mc_store := (mc_store m)(h \<mapsto> \<lparr>fr_promise = p, fr_pos = Running c\<rparr>),
      mc_server := snd (answer (mc_server m) q)\<rparr>"
  have step: "co_step answer m ?m1"
    using Perform.prems by (intro co_stepI [of _ h]) (simp_all add: poised_def run_segment_def)
  have "poised h c p ?m1"
    using Perform.prems poised_bound [OF Perform.prems] by (auto simp: poised_def)
  from Perform.IH [OF this] obtain m' nx where
    m': "(co_step answer)\<^sup>*\<^sup>* ?m1 m'" "mc_next m \<le> nx"
      "m' = finish h (settle (fst (direct answer c (mc_server ?m1))) p)
        (?m1\<lparr>mc_next := nx, mc_server := snd (direct answer c (mc_server ?m1))\<rparr>)" by auto
  show ?case
    by (intro exI [of _ m'] exI [of _ nx])
      (use m' converse_rtranclp_into_rtranclp [OF step m'(1)] in \<open>simp add: finish_def split: prod.splits\<close>)
next
  case (AwaitCall q k)
  obtain r s1 where ans: "answer (mc_server m) q = (r, s1)" by (cases "answer (mc_server m) q")
  from steps_call [OF AwaitCall.prems, of answer, OF ans] obtain m3 where
    m3: "(co_step answer)\<^sup>*\<^sup>* m m3" "poised h (k r) p m3"
      "m3 = m\<lparr>mc_store := (mc_store m)(h \<mapsto> \<lparr>fr_promise = p, fr_pos = Running (k r)\<rparr>), mc_server := s1\<rparr>" by blast
  from AwaitCall.IH [OF rangeI m3(2)] obtain m' nx where
    m': "(co_step answer)\<^sup>*\<^sup>* m3 m'" "mc_next m3 \<le> nx"
      "m' = finish h (settle (fst (direct answer (k r) (mc_server m3))) p)
        (m3\<lparr>mc_next := nx, mc_server := snd (direct answer (k r) (mc_server m3))\<rparr>)" by blast
  show ?case
    by (intro exI [of _ m'] exI [of _ nx])
      (use m3 m' ans rtranclp_trans [OF m3(1) m'(1)] in \<open>simp add: finish_def split: prod.splits\<close>)
next
  case (AwaitTask c k)
  let ?n = "mc_next m" and ?q = "new_promise\<lparr>pr_continuation := Some h\<rparr> :: ('a, 'b) promise"
  let ?o = "fst (direct answer c (mc_server m))" and ?s = "snd (direct answer c (mc_server m))"
  note hn = poised_bound [OF AwaitTask.prems]
  from step_task [OF AwaitTask.prems, of answer] obtain m1 where
    m1: "co_step answer m m1" "poised ?n c ?q m1"
      "m1 = m\<lparr>mc_store := (mc_store m)(h \<mapsto> \<lparr>fr_promise = p, fr_pos = OnTask ?n k\<rparr>,
        ?n \<mapsto> \<lparr>fr_promise = ?q, fr_pos = Running c\<rparr>), mc_next := ?n + 1, mc_run := To ?n\<rparr>" by blast
  from AwaitTask.IH(1) [OF m1(2)] obtain m2 nx where
    m2: "(co_step answer)\<^sup>*\<^sup>* m1 m2" "?n + 1 \<le> nx"
      "m2 = finish ?n (settle ?o ?q) (m1\<lparr>mc_next := nx, mc_server := ?s\<rparr>)"
    using m1(3) by auto
  have m2s: "m2 = m\<lparr>mc_store := (mc_store m)(h \<mapsto> \<lparr>fr_promise = p, fr_pos = OnTask ?n k\<rparr>,
      ?n \<mapsto> \<lparr>fr_promise = settle ?o ?q, fr_pos = AtEnd\<rparr>), mc_next := nx, mc_run := To h, mc_server := ?s\<rparr>"
    using m2(3) m1(3) by (simp add: finish_with_continuation)
  let ?m3 = "m\<lparr>mc_store := (mc_store m)(h \<mapsto> \<lparr>fr_promise = p, fr_pos = Running (k ?o)\<rparr>), mc_next := nx, mc_server := ?s\<rparr>"
  have run: "mc_run m = To h" and free: "mc_store m ?n = None" using AwaitTask.prems by (simp_all add: poised_def)
  have "co_step answer m2 (m2\<lparr>mc_store := ((mc_store m2)(h \<mapsto> \<lparr>fr_promise = p, fr_pos = Running (k ?o)\<rparr>))(?n := None)\<rparr>)"
    by (rule step_task_done [of _ _ _ _ _ "settle ?o ?q"])
      (use m2s hn in \<open>simp_all add: task_await_resume_settle new_promise_def\<close>)
  also have "m2\<lparr>mc_store := ((mc_store m2)(h \<mapsto> \<lparr>fr_promise = p, fr_pos = Running (k ?o)\<rparr>))(?n := None)\<rparr> = ?m3"
    using m2s hn run free by (auto simp: fun_upd_def fun_eq_iff)
  finally have s3: "(co_step answer)\<^sup>*\<^sup>* m ?m3"
    using m1(1) m2(1) by (meson converse_rtranclp_into_rtranclp rtranclp.rtrancl_into_rtrancl)
  have "poised h (k ?o) p ?m3"
    using AwaitTask.prems hn m2(2) by (auto simp: poised_def)
  from AwaitTask.IH(2) [OF rangeI this] obtain m' nx' where
    m': "(co_step answer)\<^sup>*\<^sup>* ?m3 m'" "nx \<le> nx'"
      "m' = finish h (settle (fst (direct answer (k ?o) ?s)) p) (?m3\<lparr>mc_next := nx', mc_server := snd (direct answer (k ?o) ?s)\<rparr>)"
    by auto
  show ?case
    by (intro exI [of _ m'] exI [of _ nx'])
      (use m' m2(2) rtranclp_trans [OF s3 m'(1)] in \<open>simp add: finish_def split: prod.splits\<close>)
qed

section \<open>sync_wait\<close>

lemma co_step_deterministic: "co_step answer m a \<Longrightarrow> co_step answer m b \<Longrightarrow> a = b"
  by (auto elim!: co_stepE)

lemma deterministic_confluent:
  assumes det: "\<And>x y z. R x y \<Longrightarrow> R x z \<Longrightarrow> y = z" and "R\<^sup>*\<^sup>* a b" "R\<^sup>*\<^sup>* a c" "\<And>x. \<not> R b x"
  shows "R\<^sup>*\<^sup>* c b"
  using assms(3,2)
proof (induction rule: rtranclp_induct)
  case (step y z)
  then have "R\<^sup>*\<^sup>* y b" by simp
  moreover have "y \<noteq> b" using step(2) assms(4) by blast
  ultimately obtain w where "R y w" "R\<^sup>*\<^sup>* w b" by (blast elim: converse_rtranclpE)
  then show ?case using det [OF step(2)] by blast
qed

lemma sync_wait_runs:
  fixes c :: "('v, 'e, 'q, 'r) co"
  shows "\<exists>m. co_next answer m = None \<and> sync_wait_result m = Some (Inr (fst (direct answer c s)))
    \<and> mc_sem m = 1 \<and> mc_server m = snd (direct answer c s) \<and> dom (mc_store m) = {0}
    \<and> (\<forall>m'. (co_step answer)\<^sup>*\<^sup>* (sync_wait_start c s) m' \<longrightarrow>
         (co_step answer)\<^sup>*\<^sup>* m' m \<and> (m' = m \<or> (\<exists>m''. co_next answer m' = Some (Inr m''))))"
proof -
  let ?p = "new_promise\<lparr>pr_on_complete := True\<rparr> :: ('v, 'e) promise" and ?m0 = "sync_wait_start c s"
  let ?o = "fst (direct answer c s)"
  have "poised 0 c ?p ?m0"
    by (auto simp: poised_def sync_wait_start_def new_frame_def new_promise_def)
  from body_runs [OF this, of answer] obtain m nx where
    m: "(co_step answer)\<^sup>*\<^sup>* ?m0 m" "m = finish 0 (settle ?o ?p) (?m0\<lparr>mc_next := nx, mc_server := snd (direct answer c s)\<rparr>)"
    by (auto simp: sync_wait_start_def)
  have cont: "pr_continuation (settle ?o ?p) = None" "pr_on_complete (settle ?o ?p)" by (simp_all add: new_promise_def)
  have ms: "m = ?m0\<lparr>mc_store := [0 \<mapsto> \<lparr>fr_promise = (settle ?o ?p)\<lparr>pr_on_complete := False\<rparr>, fr_pos = AtEnd\<rparr>],
      mc_next := nx, mc_run := Noop, mc_sem := 1, mc_server := snd (direct answer c s)\<rparr>"
    using m(2) cont by (simp add: finish_def final_await_suspend_def sync_wait_start_def)
  have res: "task_await_resume ((settle ?o ?p)\<lparr>pr_on_complete := False\<rparr>) = Inr ?o"
    using task_await_resume_settle [of ?p ?o] by (simp add: new_promise_def)
  have final: "co_next answer m = None" using ms by (simp add: co_next_def sync_wait_start_def)
  then have stuck: "\<not> co_step answer m x" for x by (auto elim!: co_stepE)
  have "(co_step answer)\<^sup>*\<^sup>* m' m \<and> (m' = m \<or> (\<exists>m''. co_next answer m' = Some (Inr m'')))"
    if "(co_step answer)\<^sup>*\<^sup>* ?m0 m'" for m'
  proof -
    have r: "(co_step answer)\<^sup>*\<^sup>* m' m"
      by (rule deterministic_confluent [OF co_step_deterministic m(1) that stuck])
    then have "m' = m \<or> (\<exists>m''. co_next answer m' = Some (Inr m''))"
      by (cases rule: converse_rtranclpE) (auto elim!: co_stepE)
    with r show ?thesis ..
  qed
  then show ?thesis using final ms res by (intro exI [of _ m]) (simp add: sync_wait_result_def)
qed

text \<open>
  C10: driving a task with sync_wait is the same as running its body as blocking code: from any
  point of the run the coroutine machinery reaches one final state, in which the semaphore has
  been released exactly once, the result (value or exception) and the server's state are those of
  the direct execution, and every frame but the root's has been destroyed. On the way no optional
  is read empty, no finished or destroyed coroutine is resumed, and the run stops nowhere else.
\<close>

theorem sync_wait_is_direct:
  fixes c :: "('v, 'e, 'q, 'r) co"
  shows "\<exists>m. co_next answer m = None \<and> sync_wait_result m = Some (Inr (fst (direct answer c s)))
    \<and> mc_sem m = 1 \<and> mc_server m = snd (direct answer c s) \<and> dom (mc_store m) = {0}
    \<and> (\<forall>m'. (co_step answer)\<^sup>*\<^sup>* (sync_wait_start c s) m' \<longrightarrow>
         (co_step answer)\<^sup>*\<^sup>* m' m \<and> (m' = m \<or> (\<exists>m''. co_next answer m' = Some (Inr m''))))"
  by (rule sync_wait_runs)

theorem sync_wait_is_direct_witness:
  "\<exists>m. sync_wait_result m = Some (Inr (Inr (7 :: int))) \<and> dom (mc_store m) = {0}
    \<and> (co_step (\<lambda>s q. (q + s, s + 1)))\<^sup>*\<^sup>*
        (sync_wait_start (AwaitTask (AwaitCall (2 :: int) (\<lambda>r. CoThrow (r + 1)))
           (\<lambda>o1. AwaitCall 1 (\<lambda>r. CoReturn (case o1 of Inl e \<Rightarrow> e + r | Inr v \<Rightarrow> v)))) (1 :: int)) m"
proof -
  let ?c = "AwaitTask (AwaitCall (2 :: int) (\<lambda>r. CoThrow (r + 1)))
    (\<lambda>o1. AwaitCall 1 (\<lambda>r. CoReturn (case o1 of Inl e \<Rightarrow> e + r | Inr v \<Rightarrow> v))) :: (int, int, int, int) co"
  have "fst (direct (\<lambda>s q. (q + s, s + 1)) ?c 1) = Inr 7" by simp
  then show ?thesis using sync_wait_is_direct [of "\<lambda>s q. (q + s, s + 1)" ?c 1] by auto
qed

end
