(* ===== verification/Services.thy ===== *)
theory Services
  imports Async_Calls Coroutines
begin

text \<open>
  \<^verbatim>\<open>include/tinvest/services.hpp\<close>: the wrappers of the unary RPCs. Each use of the macro
  \<^verbatim>\<open>TINVEST_RPC\<close> is an entry of the table of its service: the member function, the RPC and
  the message types; \<open>rpc_blocking\<close>, \<open>rpc_callback\<close> and
  \<open>rpc_awaitable\<close> are the overloads the macro expands to.
  The contracts are the unary RPCs that the service definitions under \<^verbatim>\<open>contracts/\<close> declare.
  \<^verbatim>\<open>Client::load_rate_limits\<close> (\<^verbatim>\<open>src/client.cpp\<close>) is here because it calls a wrapper.
\<close>

section \<open>Tables\<close>

record rpc =
  rpc_fun :: string
  rpc_rpc :: string
  rpc_req :: string
  rpc_resp :: string

record service =
  svc_full_name :: string
  svc_rpcs :: "rpc list"

definition users_service :: service where
  "users_service = \<lparr>svc_full_name = ''tinkoff.public.invest.api.contract.v1.UsersService'', svc_rpcs =
    [\<lparr>rpc_fun = ''get_accounts'', rpc_rpc = ''GetAccounts'', rpc_req = ''GetAccountsRequest'', rpc_resp = ''GetAccountsResponse''\<rparr>,
     \<lparr>rpc_fun = ''get_margin_attributes'', rpc_rpc = ''GetMarginAttributes'', rpc_req = ''GetMarginAttributesRequest'', rpc_resp = ''GetMarginAttributesResponse''\<rparr>,
     \<lparr>rpc_fun = ''get_user_tariff'', rpc_rpc = ''GetUserTariff'', rpc_req = ''GetUserTariffRequest'', rpc_resp = ''GetUserTariffResponse''\<rparr>,
     \<lparr>rpc_fun = ''get_info'', rpc_rpc = ''GetInfo'', rpc_req = ''GetInfoRequest'', rpc_resp = ''GetInfoResponse''\<rparr>,
     \<lparr>rpc_fun = ''get_bank_accounts'', rpc_rpc = ''GetBankAccounts'', rpc_req = ''GetBankAccountsRequest'', rpc_resp = ''GetBankAccountsResponse''\<rparr>,
     \<lparr>rpc_fun = ''currency_transfer'', rpc_rpc = ''CurrencyTransfer'', rpc_req = ''CurrencyTransferRequest'', rpc_resp = ''CurrencyTransferResponse''\<rparr>]\<rparr>"

definition instruments_service :: service where
  "instruments_service = \<lparr>svc_full_name = ''tinkoff.public.invest.api.contract.v1.InstrumentsService'', svc_rpcs =
    [\<lparr>rpc_fun = ''trading_schedules'', rpc_rpc = ''TradingSchedules'', rpc_req = ''TradingSchedulesRequest'', rpc_resp = ''TradingSchedulesResponse''\<rparr>,
     \<lparr>rpc_fun = ''bond_by'', rpc_rpc = ''BondBy'', rpc_req = ''InstrumentRequest'', rpc_resp = ''BondResponse''\<rparr>,
     \<lparr>rpc_fun = ''bonds'', rpc_rpc = ''Bonds'', rpc_req = ''InstrumentsRequest'', rpc_resp = ''BondsResponse''\<rparr>,
     \<lparr>rpc_fun = ''get_bond_coupons'', rpc_rpc = ''GetBondCoupons'', rpc_req = ''GetBondCouponsRequest'', rpc_resp = ''GetBondCouponsResponse''\<rparr>,
     \<lparr>rpc_fun = ''get_bond_events'', rpc_rpc = ''GetBondEvents'', rpc_req = ''GetBondEventsRequest'', rpc_resp = ''GetBondEventsResponse''\<rparr>,
     \<lparr>rpc_fun = ''currency_by'', rpc_rpc = ''CurrencyBy'', rpc_req = ''InstrumentRequest'', rpc_resp = ''CurrencyResponse''\<rparr>,
     \<lparr>rpc_fun = ''currencies'', rpc_rpc = ''Currencies'', rpc_req = ''InstrumentsRequest'', rpc_resp = ''CurrenciesResponse''\<rparr>,
     \<lparr>rpc_fun = ''etf_by'', rpc_rpc = ''EtfBy'', rpc_req = ''InstrumentRequest'', rpc_resp = ''EtfResponse''\<rparr>,
     \<lparr>rpc_fun = ''etfs'', rpc_rpc = ''Etfs'', rpc_req = ''InstrumentsRequest'', rpc_resp = ''EtfsResponse''\<rparr>,
     \<lparr>rpc_fun = ''future_by'', rpc_rpc = ''FutureBy'', rpc_req = ''InstrumentRequest'', rpc_resp = ''FutureResponse''\<rparr>,
     \<lparr>rpc_fun = ''futures'', rpc_rpc = ''Futures'', rpc_req = ''InstrumentsRequest'', rpc_resp = ''FuturesResponse''\<rparr>,
     \<lparr>rpc_fun = ''option_by'', rpc_rpc = ''OptionBy'', rpc_req = ''InstrumentRequest'', rpc_resp = ''OptionResponse''\<rparr>,
     \<lparr>rpc_fun = ''options'', rpc_rpc = ''Options'', rpc_req = ''InstrumentsRequest'', rpc_resp = ''OptionsResponse''\<rparr>,
     \<lparr>rpc_fun = ''options_by'', rpc_rpc = ''OptionsBy'', rpc_req = ''FilterOptionsRequest'', rpc_resp = ''OptionsResponse''\<rparr>,
     \<lparr>rpc_fun = ''share_by'', rpc_rpc = ''ShareBy'', rpc_req = ''InstrumentRequest'', rpc_resp = ''ShareResponse''\<rparr>,
     \<lparr>rpc_fun = ''shares'', rpc_rpc = ''Shares'', rpc_req = ''InstrumentsRequest'', rpc_resp = ''SharesResponse''\<rparr>,
     \<lparr>rpc_fun = ''indicatives'', rpc_rpc = ''Indicatives'', rpc_req = ''IndicativesRequest'', rpc_resp = ''IndicativesResponse''\<rparr>,
     \<lparr>rpc_fun = ''get_accrued_interests'', rpc_rpc = ''GetAccruedInterests'', rpc_req = ''GetAccruedInterestsRequest'', rpc_resp = ''GetAccruedInterestsResponse''\<rparr>,
     \<lparr>rpc_fun = ''get_futures_margin'', rpc_rpc = ''GetFuturesMargin'', rpc_req = ''GetFuturesMarginRequest'', rpc_resp = ''GetFuturesMarginResponse''\<rparr>,
     \<lparr>rpc_fun = ''get_instrument_by'', rpc_rpc = ''GetInstrumentBy'', rpc_req = ''InstrumentRequest'', rpc_resp = ''InstrumentResponse''\<rparr>,
     \<lparr>rpc_fun = ''get_dividends'', rpc_rpc = ''GetDividends'', rpc_req = ''GetDividendsRequest'', rpc_resp = ''GetDividendsResponse''\<rparr>,
     \<lparr>rpc_fun = ''get_asset_by'', rpc_rpc = ''GetAssetBy'', rpc_req = ''AssetRequest'', rpc_resp = ''AssetResponse''\<rparr>,
     \<lparr>rpc_fun = ''get_assets'', rpc_rpc = ''GetAssets'', rpc_req = ''AssetsRequest'', rpc_resp = ''AssetsResponse''\<rparr>,
     \<lparr>rpc_fun = ''get_favorites'', rpc_rpc = ''GetFavorites'', rpc_req = ''GetFavoritesRequest'', rpc_resp = ''GetFavoritesResponse''\<rparr>,
     \<lparr>rpc_fun = ''edit_favorites'', rpc_rpc = ''EditFavorites'', rpc_req = ''EditFavoritesRequest'', rpc_resp = ''EditFavoritesResponse''\<rparr>,
     \<lparr>rpc_fun = ''create_favorite_group'', rpc_rpc = ''CreateFavoriteGroup'', rpc_req = ''CreateFavoriteGroupRequest'', rpc_resp = ''CreateFavoriteGroupResponse''\<rparr>,
     \<lparr>rpc_fun = ''delete_favorite_group'', rpc_rpc = ''DeleteFavoriteGroup'', rpc_req = ''DeleteFavoriteGroupRequest'', rpc_resp = ''DeleteFavoriteGroupResponse''\<rparr>,
     \<lparr>rpc_fun = ''get_favorite_groups'', rpc_rpc = ''GetFavoriteGroups'', rpc_req = ''GetFavoriteGroupsRequest'', rpc_resp = ''GetFavoriteGroupsResponse''\<rparr>,
     \<lparr>rpc_fun = ''get_countries'', rpc_rpc = ''GetCountries'', rpc_req = ''GetCountriesRequest'', rpc_resp = ''GetCountriesResponse''\<rparr>,
     \<lparr>rpc_fun = ''find_instrument'', rpc_rpc = ''FindInstrument'', rpc_req = ''FindInstrumentRequest'', rpc_resp = ''FindInstrumentResponse''\<rparr>,
     \<lparr>rpc_fun = ''get_brands'', rpc_rpc = ''GetBrands'', rpc_req = ''GetBrandsRequest'', rpc_resp = ''GetBrandsResponse''\<rparr>,
     \<lparr>rpc_fun = ''get_brand_by'', rpc_rpc = ''GetBrandBy'', rpc_req = ''GetBrandRequest'', rpc_resp = ''Brand''\<rparr>,
     \<lparr>rpc_fun = ''get_asset_fundamentals'', rpc_rpc = ''GetAssetFundamentals'', rpc_req = ''GetAssetFundamentalsRequest'', rpc_resp = ''GetAssetFundamentalsResponse''\<rparr>,
     \<lparr>rpc_fun = ''get_asset_reports'', rpc_rpc = ''GetAssetReports'', rpc_req = ''GetAssetReportsRequest'', rpc_resp = ''GetAssetReportsResponse''\<rparr>,
     \<lparr>rpc_fun = ''get_consensus_forecasts'', rpc_rpc = ''GetConsensusForecasts'', rpc_req = ''GetConsensusForecastsRequest'', rpc_resp = ''GetConsensusForecastsResponse''\<rparr>,
     \<lparr>rpc_fun = ''get_forecast_by'', rpc_rpc = ''GetForecastBy'', rpc_req = ''GetForecastRequest'', rpc_resp = ''GetForecastResponse''\<rparr>,
     \<lparr>rpc_fun = ''get_risk_rates'', rpc_rpc = ''GetRiskRates'', rpc_req = ''RiskRatesRequest'', rpc_resp = ''RiskRatesResponse''\<rparr>,
     \<lparr>rpc_fun = ''get_insider_deals'', rpc_rpc = ''GetInsiderDeals'', rpc_req = ''GetInsiderDealsRequest'', rpc_resp = ''GetInsiderDealsResponse''\<rparr>,
     \<lparr>rpc_fun = ''structured_note_by'', rpc_rpc = ''StructuredNoteBy'', rpc_req = ''InstrumentRequest'', rpc_resp = ''StructuredNoteResponse''\<rparr>,
     \<lparr>rpc_fun = ''structured_notes'', rpc_rpc = ''StructuredNotes'', rpc_req = ''InstrumentsRequest'', rpc_resp = ''StructuredNotesResponse''\<rparr>]\<rparr>"

definition market_data_service :: service where
  "market_data_service = \<lparr>svc_full_name = ''tinkoff.public.invest.api.contract.v1.MarketDataService'', svc_rpcs =
    [\<lparr>rpc_fun = ''get_candles'', rpc_rpc = ''GetCandles'', rpc_req = ''GetCandlesRequest'', rpc_resp = ''GetCandlesResponse''\<rparr>,
     \<lparr>rpc_fun = ''get_last_prices'', rpc_rpc = ''GetLastPrices'', rpc_req = ''GetLastPricesRequest'', rpc_resp = ''GetLastPricesResponse''\<rparr>,
     \<lparr>rpc_fun = ''get_order_book'', rpc_rpc = ''GetOrderBook'', rpc_req = ''GetOrderBookRequest'', rpc_resp = ''GetOrderBookResponse''\<rparr>,
     \<lparr>rpc_fun = ''get_trading_status'', rpc_rpc = ''GetTradingStatus'', rpc_req = ''GetTradingStatusRequest'', rpc_resp = ''GetTradingStatusResponse''\<rparr>,
     \<lparr>rpc_fun = ''get_trading_statuses'', rpc_rpc = ''GetTradingStatuses'', rpc_req = ''GetTradingStatusesRequest'', rpc_resp = ''GetTradingStatusesResponse''\<rparr>,
     \<lparr>rpc_fun = ''get_last_trades'', rpc_rpc = ''GetLastTrades'', rpc_req = ''GetLastTradesRequest'', rpc_resp = ''GetLastTradesResponse''\<rparr>,
     \<lparr>rpc_fun = ''get_close_prices'', rpc_rpc = ''GetClosePrices'', rpc_req = ''GetClosePricesRequest'', rpc_resp = ''GetClosePricesResponse''\<rparr>,
     \<lparr>rpc_fun = ''get_tech_analysis'', rpc_rpc = ''GetTechAnalysis'', rpc_req = ''GetTechAnalysisRequest'', rpc_resp = ''GetTechAnalysisResponse''\<rparr>,
     \<lparr>rpc_fun = ''get_market_values'', rpc_rpc = ''GetMarketValues'', rpc_req = ''GetMarketValuesRequest'', rpc_resp = ''GetMarketValuesResponse''\<rparr>]\<rparr>"

definition operations_service :: service where
  "operations_service = \<lparr>svc_full_name = ''tinkoff.public.invest.api.contract.v1.OperationsService'', svc_rpcs =
    [\<lparr>rpc_fun = ''get_operations'', rpc_rpc = ''GetOperations'', rpc_req = ''OperationsRequest'', rpc_resp = ''OperationsResponse''\<rparr>,
     \<lparr>rpc_fun = ''get_portfolio'', rpc_rpc = ''GetPortfolio'', rpc_req = ''PortfolioRequest'', rpc_resp = ''PortfolioResponse''\<rparr>,
     \<lparr>rpc_fun = ''get_positions'', rpc_rpc = ''GetPositions'', rpc_req = ''PositionsRequest'', rpc_resp = ''PositionsResponse''\<rparr>,
     \<lparr>rpc_fun = ''get_withdraw_limits'', rpc_rpc = ''GetWithdrawLimits'', rpc_req = ''WithdrawLimitsRequest'', rpc_resp = ''WithdrawLimitsResponse''\<rparr>,
     \<lparr>rpc_fun = ''get_broker_report'', rpc_rpc = ''GetBrokerReport'', rpc_req = ''BrokerReportRequest'', rpc_resp = ''BrokerReportResponse''\<rparr>,
     \<lparr>rpc_fun = ''get_dividends_foreign_issuer'', rpc_rpc = ''GetDividendsForeignIssuer'', rpc_req = ''GetDividendsForeignIssuerRequest'', rpc_resp = ''GetDividendsForeignIssuerResponse''\<rparr>,
     \<lparr>rpc_fun = ''get_operations_by_cursor'', rpc_rpc = ''GetOperationsByCursor'', rpc_req = ''GetOperationsByCursorRequest'', rpc_resp = ''GetOperationsByCursorResponse''\<rparr>]\<rparr>"

definition orders_service :: service where
  "orders_service = \<lparr>svc_full_name = ''tinkoff.public.invest.api.contract.v1.OrdersService'', svc_rpcs =
    [\<lparr>rpc_fun = ''post_order'', rpc_rpc = ''PostOrder'', rpc_req = ''PostOrderRequest'', rpc_resp = ''PostOrderResponse''\<rparr>,
     \<lparr>rpc_fun = ''post_order_async'', rpc_rpc = ''PostOrderAsync'', rpc_req = ''PostOrderAsyncRequest'', rpc_resp = ''PostOrderAsyncResponse''\<rparr>,
     \<lparr>rpc_fun = ''cancel_order'', rpc_rpc = ''CancelOrder'', rpc_req = ''CancelOrderRequest'', rpc_resp = ''CancelOrderResponse''\<rparr>,
     \<lparr>rpc_fun = ''get_order_state'', rpc_rpc = ''GetOrderState'', rpc_req = ''GetOrderStateRequest'', rpc_resp = ''OrderState''\<rparr>,
     \<lparr>rpc_fun = ''get_orders'', rpc_rpc = ''GetOrders'', rpc_req = ''GetOrdersRequest'', rpc_resp = ''GetOrdersResponse''\<rparr>,
     \<lparr>rpc_fun = ''replace_order'', rpc_rpc = ''ReplaceOrder'', rpc_req = ''ReplaceOrderRequest'', rpc_resp = ''PostOrderResponse''\<rparr>,
     \<lparr>rpc_fun = ''get_max_lots'', rpc_rpc = ''GetMaxLots'', rpc_req = ''GetMaxLotsRequest'', rpc_resp = ''GetMaxLotsResponse''\<rparr>,
     \<lparr>rpc_fun = ''get_order_price'', rpc_rpc = ''GetOrderPrice'', rpc_req = ''GetOrderPriceRequest'', rpc_resp = ''GetOrderPriceResponse''\<rparr>]\<rparr>"

definition stop_orders_service :: service where
  "stop_orders_service = \<lparr>svc_full_name = ''tinkoff.public.invest.api.contract.v1.StopOrdersService'', svc_rpcs =
    [\<lparr>rpc_fun = ''post_stop_order'', rpc_rpc = ''PostStopOrder'', rpc_req = ''PostStopOrderRequest'', rpc_resp = ''PostStopOrderResponse''\<rparr>,
     \<lparr>rpc_fun = ''get_stop_orders'', rpc_rpc = ''GetStopOrders'', rpc_req = ''GetStopOrdersRequest'', rpc_resp = ''GetStopOrdersResponse''\<rparr>,
     \<lparr>rpc_fun = ''cancel_stop_order'', rpc_rpc = ''CancelStopOrder'', rpc_req = ''CancelStopOrderRequest'', rpc_resp = ''CancelStopOrderResponse''\<rparr>]\<rparr>"

definition sandbox_service :: service where
  "sandbox_service = \<lparr>svc_full_name = ''tinkoff.public.invest.api.contract.v1.SandboxService'', svc_rpcs =
    [\<lparr>rpc_fun = ''open_sandbox_account'', rpc_rpc = ''OpenSandboxAccount'', rpc_req = ''OpenSandboxAccountRequest'', rpc_resp = ''OpenSandboxAccountResponse''\<rparr>,
     \<lparr>rpc_fun = ''get_sandbox_accounts'', rpc_rpc = ''GetSandboxAccounts'', rpc_req = ''GetAccountsRequest'', rpc_resp = ''GetAccountsResponse''\<rparr>,
     \<lparr>rpc_fun = ''close_sandbox_account'', rpc_rpc = ''CloseSandboxAccount'', rpc_req = ''CloseSandboxAccountRequest'', rpc_resp = ''CloseSandboxAccountResponse''\<rparr>,
     \<lparr>rpc_fun = ''post_sandbox_order'', rpc_rpc = ''PostSandboxOrder'', rpc_req = ''PostOrderRequest'', rpc_resp = ''PostOrderResponse''\<rparr>,
     \<lparr>rpc_fun = ''post_sandbox_order_async'', rpc_rpc = ''PostSandboxOrderAsync'', rpc_req = ''PostOrderAsyncRequest'', rpc_resp = ''PostOrderAsyncResponse''\<rparr>,
     \<lparr>rpc_fun = ''replace_sandbox_order'', rpc_rpc = ''ReplaceSandboxOrder'', rpc_req = ''ReplaceOrderRequest'', rpc_resp = ''PostOrderResponse''\<rparr>,
     \<lparr>rpc_fun = ''get_sandbox_orders'', rpc_rpc = ''GetSandboxOrders'', rpc_req = ''GetOrdersRequest'', rpc_resp = ''GetOrdersResponse''\<rparr>,
     \<lparr>rpc_fun = ''cancel_sandbox_order'', rpc_rpc = ''CancelSandboxOrder'', rpc_req = ''CancelOrderRequest'', rpc_resp = ''CancelOrderResponse''\<rparr>,
     \<lparr>rpc_fun = ''get_sandbox_order_state'', rpc_rpc = ''GetSandboxOrderState'', rpc_req = ''GetOrderStateRequest'', rpc_resp = ''OrderState''\<rparr>,
     \<lparr>rpc_fun = ''get_sandbox_order_price'', rpc_rpc = ''GetSandboxOrderPrice'', rpc_req = ''GetOrderPriceRequest'', rpc_resp = ''GetOrderPriceResponse''\<rparr>,
     \<lparr>rpc_fun = ''get_sandbox_positions'', rpc_rpc = ''GetSandboxPositions'', rpc_req = ''PositionsRequest'', rpc_resp = ''PositionsResponse''\<rparr>,
     \<lparr>rpc_fun = ''get_sandbox_operations'', rpc_rpc = ''GetSandboxOperations'', rpc_req = ''OperationsRequest'', rpc_resp = ''OperationsResponse''\<rparr>,
     \<lparr>rpc_fun = ''get_sandbox_operations_by_cursor'', rpc_rpc = ''GetSandboxOperationsByCursor'', rpc_req = ''GetOperationsByCursorRequest'', rpc_resp = ''GetOperationsByCursorResponse''\<rparr>,
     \<lparr>rpc_fun = ''get_sandbox_portfolio'', rpc_rpc = ''GetSandboxPortfolio'', rpc_req = ''PortfolioRequest'', rpc_resp = ''PortfolioResponse''\<rparr>,
     \<lparr>rpc_fun = ''sandbox_pay_in'', rpc_rpc = ''SandboxPayIn'', rpc_req = ''SandboxPayInRequest'', rpc_resp = ''SandboxPayInResponse''\<rparr>,
     \<lparr>rpc_fun = ''get_sandbox_withdraw_limits'', rpc_rpc = ''GetSandboxWithdrawLimits'', rpc_req = ''WithdrawLimitsRequest'', rpc_resp = ''WithdrawLimitsResponse''\<rparr>,
     \<lparr>rpc_fun = ''get_sandbox_max_lots'', rpc_rpc = ''GetSandboxMaxLots'', rpc_req = ''GetMaxLotsRequest'', rpc_resp = ''GetMaxLotsResponse''\<rparr>,
     \<lparr>rpc_fun = ''post_sandbox_stop_order'', rpc_rpc = ''PostSandboxStopOrder'', rpc_req = ''PostStopOrderRequest'', rpc_resp = ''PostStopOrderResponse''\<rparr>,
     \<lparr>rpc_fun = ''get_sandbox_stop_orders'', rpc_rpc = ''GetSandboxStopOrders'', rpc_req = ''GetStopOrdersRequest'', rpc_resp = ''GetStopOrdersResponse''\<rparr>,
     \<lparr>rpc_fun = ''cancel_sandbox_stop_order'', rpc_rpc = ''CancelSandboxStopOrder'', rpc_req = ''CancelStopOrderRequest'', rpc_resp = ''CancelStopOrderResponse''\<rparr>]\<rparr>"

definition signals_service :: service where
  "signals_service = \<lparr>svc_full_name = ''tinkoff.public.invest.api.contract.v1.SignalService'', svc_rpcs =
    [\<lparr>rpc_fun = ''get_strategies'', rpc_rpc = ''GetStrategies'', rpc_req = ''GetStrategiesRequest'', rpc_resp = ''GetStrategiesResponse''\<rparr>,
     \<lparr>rpc_fun = ''get_signals'', rpc_rpc = ''GetSignals'', rpc_req = ''GetSignalsRequest'', rpc_resp = ''GetSignalsResponse''\<rparr>]\<rparr>"

definition all_services :: "service list" where
  "all_services = [users_service, instruments_service, market_data_service, operations_service,
     orders_service, stop_orders_service, sandbox_service, signals_service]"

section \<open>The declared RPCs\<close>

definition users_contract :: "(string \<times> string \<times> string) list" where
  "users_contract =
    [(''GetAccounts'', ''GetAccountsRequest'', ''GetAccountsResponse''),
     (''GetMarginAttributes'', ''GetMarginAttributesRequest'', ''GetMarginAttributesResponse''),
     (''GetUserTariff'', ''GetUserTariffRequest'', ''GetUserTariffResponse''),
     (''GetInfo'', ''GetInfoRequest'', ''GetInfoResponse''),
     (''GetBankAccounts'', ''GetBankAccountsRequest'', ''GetBankAccountsResponse''),
     (''CurrencyTransfer'', ''CurrencyTransferRequest'', ''CurrencyTransferResponse'')]"

definition instruments_contract :: "(string \<times> string \<times> string) list" where
  "instruments_contract =
    [(''TradingSchedules'', ''TradingSchedulesRequest'', ''TradingSchedulesResponse''),
     (''BondBy'', ''InstrumentRequest'', ''BondResponse''),
     (''Bonds'', ''InstrumentsRequest'', ''BondsResponse''),
     (''GetBondCoupons'', ''GetBondCouponsRequest'', ''GetBondCouponsResponse''),
     (''GetBondEvents'', ''GetBondEventsRequest'', ''GetBondEventsResponse''),
     (''CurrencyBy'', ''InstrumentRequest'', ''CurrencyResponse''),
     (''Currencies'', ''InstrumentsRequest'', ''CurrenciesResponse''),
     (''EtfBy'', ''InstrumentRequest'', ''EtfResponse''),
     (''Etfs'', ''InstrumentsRequest'', ''EtfsResponse''),
     (''FutureBy'', ''InstrumentRequest'', ''FutureResponse''),
     (''Futures'', ''InstrumentsRequest'', ''FuturesResponse''),
     (''OptionBy'', ''InstrumentRequest'', ''OptionResponse''),
     (''Options'', ''InstrumentsRequest'', ''OptionsResponse''),
     (''OptionsBy'', ''FilterOptionsRequest'', ''OptionsResponse''),
     (''ShareBy'', ''InstrumentRequest'', ''ShareResponse''),
     (''Shares'', ''InstrumentsRequest'', ''SharesResponse''),
     (''Indicatives'', ''IndicativesRequest'', ''IndicativesResponse''),
     (''GetAccruedInterests'', ''GetAccruedInterestsRequest'', ''GetAccruedInterestsResponse''),
     (''GetFuturesMargin'', ''GetFuturesMarginRequest'', ''GetFuturesMarginResponse''),
     (''GetInstrumentBy'', ''InstrumentRequest'', ''InstrumentResponse''),
     (''GetDividends'', ''GetDividendsRequest'', ''GetDividendsResponse''),
     (''GetAssetBy'', ''AssetRequest'', ''AssetResponse''),
     (''GetAssets'', ''AssetsRequest'', ''AssetsResponse''),
     (''GetFavorites'', ''GetFavoritesRequest'', ''GetFavoritesResponse''),
     (''EditFavorites'', ''EditFavoritesRequest'', ''EditFavoritesResponse''),
     (''CreateFavoriteGroup'', ''CreateFavoriteGroupRequest'', ''CreateFavoriteGroupResponse''),
     (''DeleteFavoriteGroup'', ''DeleteFavoriteGroupRequest'', ''DeleteFavoriteGroupResponse''),
     (''GetFavoriteGroups'', ''GetFavoriteGroupsRequest'', ''GetFavoriteGroupsResponse''),
     (''GetCountries'', ''GetCountriesRequest'', ''GetCountriesResponse''),
     (''FindInstrument'', ''FindInstrumentRequest'', ''FindInstrumentResponse''),
     (''GetBrands'', ''GetBrandsRequest'', ''GetBrandsResponse''),
     (''GetBrandBy'', ''GetBrandRequest'', ''Brand''),
     (''GetAssetFundamentals'', ''GetAssetFundamentalsRequest'', ''GetAssetFundamentalsResponse''),
     (''GetAssetReports'', ''GetAssetReportsRequest'', ''GetAssetReportsResponse''),
     (''GetConsensusForecasts'', ''GetConsensusForecastsRequest'', ''GetConsensusForecastsResponse''),
     (''GetForecastBy'', ''GetForecastRequest'', ''GetForecastResponse''),
     (''GetRiskRates'', ''RiskRatesRequest'', ''RiskRatesResponse''),
     (''GetInsiderDeals'', ''GetInsiderDealsRequest'', ''GetInsiderDealsResponse''),
     (''StructuredNoteBy'', ''InstrumentRequest'', ''StructuredNoteResponse''),
     (''StructuredNotes'', ''InstrumentsRequest'', ''StructuredNotesResponse'')]"

definition market_data_contract :: "(string \<times> string \<times> string) list" where
  "market_data_contract =
    [(''GetCandles'', ''GetCandlesRequest'', ''GetCandlesResponse''),
     (''GetLastPrices'', ''GetLastPricesRequest'', ''GetLastPricesResponse''),
     (''GetOrderBook'', ''GetOrderBookRequest'', ''GetOrderBookResponse''),
     (''GetTradingStatus'', ''GetTradingStatusRequest'', ''GetTradingStatusResponse''),
     (''GetTradingStatuses'', ''GetTradingStatusesRequest'', ''GetTradingStatusesResponse''),
     (''GetLastTrades'', ''GetLastTradesRequest'', ''GetLastTradesResponse''),
     (''GetClosePrices'', ''GetClosePricesRequest'', ''GetClosePricesResponse''),
     (''GetTechAnalysis'', ''GetTechAnalysisRequest'', ''GetTechAnalysisResponse''),
     (''GetMarketValues'', ''GetMarketValuesRequest'', ''GetMarketValuesResponse'')]"

definition operations_contract :: "(string \<times> string \<times> string) list" where
  "operations_contract =
    [(''GetOperations'', ''OperationsRequest'', ''OperationsResponse''),
     (''GetPortfolio'', ''PortfolioRequest'', ''PortfolioResponse''),
     (''GetPositions'', ''PositionsRequest'', ''PositionsResponse''),
     (''GetWithdrawLimits'', ''WithdrawLimitsRequest'', ''WithdrawLimitsResponse''),
     (''GetBrokerReport'', ''BrokerReportRequest'', ''BrokerReportResponse''),
     (''GetDividendsForeignIssuer'', ''GetDividendsForeignIssuerRequest'', ''GetDividendsForeignIssuerResponse''),
     (''GetOperationsByCursor'', ''GetOperationsByCursorRequest'', ''GetOperationsByCursorResponse'')]"

definition orders_contract :: "(string \<times> string \<times> string) list" where
  "orders_contract =
    [(''PostOrder'', ''PostOrderRequest'', ''PostOrderResponse''),
     (''PostOrderAsync'', ''PostOrderAsyncRequest'', ''PostOrderAsyncResponse''),
     (''CancelOrder'', ''CancelOrderRequest'', ''CancelOrderResponse''),
     (''GetOrderState'', ''GetOrderStateRequest'', ''OrderState''),
     (''GetOrders'', ''GetOrdersRequest'', ''GetOrdersResponse''),
     (''ReplaceOrder'', ''ReplaceOrderRequest'', ''PostOrderResponse''),
     (''GetMaxLots'', ''GetMaxLotsRequest'', ''GetMaxLotsResponse''),
     (''GetOrderPrice'', ''GetOrderPriceRequest'', ''GetOrderPriceResponse'')]"

definition stop_orders_contract :: "(string \<times> string \<times> string) list" where
  "stop_orders_contract =
    [(''PostStopOrder'', ''PostStopOrderRequest'', ''PostStopOrderResponse''),
     (''GetStopOrders'', ''GetStopOrdersRequest'', ''GetStopOrdersResponse''),
     (''CancelStopOrder'', ''CancelStopOrderRequest'', ''CancelStopOrderResponse'')]"

definition sandbox_contract :: "(string \<times> string \<times> string) list" where
  "sandbox_contract =
    [(''OpenSandboxAccount'', ''OpenSandboxAccountRequest'', ''OpenSandboxAccountResponse''),
     (''GetSandboxAccounts'', ''GetAccountsRequest'', ''GetAccountsResponse''),
     (''CloseSandboxAccount'', ''CloseSandboxAccountRequest'', ''CloseSandboxAccountResponse''),
     (''PostSandboxOrder'', ''PostOrderRequest'', ''PostOrderResponse''),
     (''PostSandboxOrderAsync'', ''PostOrderAsyncRequest'', ''PostOrderAsyncResponse''),
     (''ReplaceSandboxOrder'', ''ReplaceOrderRequest'', ''PostOrderResponse''),
     (''GetSandboxOrders'', ''GetOrdersRequest'', ''GetOrdersResponse''),
     (''CancelSandboxOrder'', ''CancelOrderRequest'', ''CancelOrderResponse''),
     (''GetSandboxOrderState'', ''GetOrderStateRequest'', ''OrderState''),
     (''GetSandboxOrderPrice'', ''GetOrderPriceRequest'', ''GetOrderPriceResponse''),
     (''GetSandboxPositions'', ''PositionsRequest'', ''PositionsResponse''),
     (''GetSandboxOperations'', ''OperationsRequest'', ''OperationsResponse''),
     (''GetSandboxOperationsByCursor'', ''GetOperationsByCursorRequest'', ''GetOperationsByCursorResponse''),
     (''GetSandboxPortfolio'', ''PortfolioRequest'', ''PortfolioResponse''),
     (''SandboxPayIn'', ''SandboxPayInRequest'', ''SandboxPayInResponse''),
     (''GetSandboxWithdrawLimits'', ''WithdrawLimitsRequest'', ''WithdrawLimitsResponse''),
     (''GetSandboxMaxLots'', ''GetMaxLotsRequest'', ''GetMaxLotsResponse''),
     (''PostSandboxStopOrder'', ''PostStopOrderRequest'', ''PostStopOrderResponse''),
     (''GetSandboxStopOrders'', ''GetStopOrdersRequest'', ''GetStopOrdersResponse''),
     (''CancelSandboxStopOrder'', ''CancelStopOrderRequest'', ''CancelStopOrderResponse'')]"

definition signals_contract :: "(string \<times> string \<times> string) list" where
  "signals_contract =
    [(''GetStrategies'', ''GetStrategiesRequest'', ''GetStrategiesResponse''),
     (''GetSignals'', ''GetSignalsRequest'', ''GetSignalsResponse'')]"

definition all_contracts :: "(string \<times> string \<times> string) list list" where
  "all_contracts = [users_contract, instruments_contract, market_data_contract, operations_contract,
     orders_contract, stop_orders_contract, sandbox_contract, signals_contract]"

section \<open>The overloads\<close>

definition kMethod :: "service \<Rightarrow> rpc \<Rightarrow> string" where
  "kMethod s r = svc_full_name s @ ''/'' @ rpc_rpc r"

definition rpc_blocking :: "client \<Rightarrow> service \<Rightarrow> rpc \<Rightarrow> call_options \<Rightarrow> 'r call_env \<Rightarrow> limiter \<Rightarrow>
    call_event list \<times> limiter \<times> 'r result outcome" where
  "rpc_blocking c s r opts env l = unary_sync c opts (kMethod s r) env l"

definition rpc_callback :: "client \<Rightarrow> service \<Rightarrow> rpc \<Rightarrow> 'q \<Rightarrow> call_options \<Rightarrow> int \<Rightarrow> int \<Rightarrow> nat \<Rightarrow>
    ('q, 'r) async_sys \<Rightarrow> ('q, 'r) async_sys cpp" where
  "rpc_callback c s r req opts clock now a sys = unary_async c opts (kMethod s r) req clock now a sys"

text \<open>
  The awaitable overload captures the request and the options in the start function of an awaiter;
  starting it calls the callback overload.
\<close>

record 'q captured_call =
  cc_service :: service
  cc_rpc :: rpc
  cc_req :: 'q
  cc_opts :: call_options

definition rpc_awaitable :: "service \<Rightarrow> rpc \<Rightarrow> 'q \<Rightarrow> call_options \<Rightarrow> ('q captured_call, 'r result) unary_awaiter" where
  "rpc_awaitable s r req opts =
     mk_unary_awaiter \<lparr>cc_service = s, cc_rpc = r, cc_req = req, cc_opts = opts\<rparr>"

definition start_captured :: "client \<Rightarrow> 'q captured_call \<Rightarrow> int \<Rightarrow> int \<Rightarrow> nat \<Rightarrow>
    ('q, 'r) async_sys \<Rightarrow> ('q, 'r) async_sys cpp" where
  "start_captured c call clock now a sys =
     rpc_callback c (cc_service call) (cc_rpc call) (cc_req call) (cc_opts call) clock now a sys"

definition get_user_tariff :: rpc where
  "get_user_tariff = \<lparr>rpc_fun = ''get_user_tariff'', rpc_rpc = ''GetUserTariff'',
     rpc_req = ''GetUserTariffRequest'', rpc_resp = ''GetUserTariffResponse''\<rparr>"

definition load_rate_limits :: "client \<Rightarrow> tariff call_env \<Rightarrow> limiter \<Rightarrow>
    call_event list \<times> limiter \<times> tariff result outcome" where
  "load_rate_limits c env l =
     (case rpc_blocking c users_service get_user_tariff default_call_options env l of
        (evs, l1, out) \<Rightarrow>
          (evs, (case out of Returned (Value t) \<Rightarrow> configure t l1 | _ \<Rightarrow> l1), out))"

section \<open>Facts on the tables\<close>

lemmas service_tables = users_service_def instruments_service_def market_data_service_def
  operations_service_def orders_service_def stop_orders_service_def sandbox_service_def
  signals_service_def

lemmas contract_tables = users_contract_def instruments_contract_def market_data_contract_def
  operations_contract_def orders_contract_def stop_orders_contract_def sandbox_contract_def
  signals_contract_def

lemma all_servicesE:
  assumes "s \<in> set all_services"
  obtains "s = users_service" | "s = instruments_service" | "s = market_data_service"
    | "s = operations_service" | "s = orders_service" | "s = stop_orders_service"
    | "s = sandbox_service" | "s = signals_service"
  using assms by (auto simp: all_services_def)

lemma service_name_no_slash: "s \<in> set all_services \<Longrightarrow> CHR ''/'' \<notin> set (svc_full_name s)"
  by (erule all_servicesE) (simp_all add: service_tables)

lemma service_name_head: "s \<in> set all_services \<Longrightarrow> \<exists>t. svc_full_name s = CHR ''t'' # t"
  by (erule all_servicesE) (simp_all add: service_tables)

lemma service_names_distinct: "distinct (map svc_full_name all_services)"
  by (simp add: all_services_def service_tables)

lemma service_rpcs_distinct: "s \<in> set all_services \<Longrightarrow> distinct (map rpc_rpc (svc_rpcs s))"
  by (erule all_servicesE) (simp_all add: service_tables)

lemma kMethod_service:
  "CHR ''/'' \<notin> set (svc_full_name s) \<Longrightarrow> takeWhile (\<lambda>c. c \<noteq> CHR ''/'') (kMethod s r) = svc_full_name s"
proof -
  assume "CHR ''/'' \<notin> set (svc_full_name s)"
  then have "\<And>c. c \<in> set (svc_full_name s) \<Longrightarrow> c \<noteq> CHR ''/''" by auto
  then show ?thesis by (simp add: kMethod_def takeWhile_append2)
qed

lemma kMethod_same_service:
  assumes "s \<in> set all_services" "s' \<in> set all_services" "kMethod s r = kMethod s' r'"
  shows "s = s'"
proof -
  have "svc_full_name s = svc_full_name s'"
    using assms kMethod_service service_name_no_slash by metis
  then show ?thesis
    using assms(1,2) service_names_distinct by (simp add: distinct_map inj_on_def)
qed

lemma kMethod_normal: "s \<in> set all_services \<Longrightarrow> normalize_method (kMethod s r) = kMethod s r"
  using service_name_head [of s] by (auto simp: normalize_method_def kMethod_def)

lemma normalize_slash: "normalize_method (CHR ''/'' # m) = m"
  by (simp add: normalize_method_def)

text \<open>
  The wrappers are exactly the unary RPCs that the service contracts declare: the same RPCs
  in the same order, with the declared request and response types.
\<close>

lemma wrappers_match_contracts:
  "map (\<lambda>s. map (\<lambda>r. (rpc_rpc r, rpc_req r, rpc_resp r)) (svc_rpcs s)) all_services = all_contracts"
  by (simp add: all_services_def all_contracts_def service_tables contract_tables)

text \<open>
  No two wrappers share a limiter key, and every key is in the normal form under which
  \<^verbatim>\<open>configure\<close> stores methods, so the limiter finds a tariff entry for it with or without a
  leading slash.
\<close>

lemma limiter_keys_distinct:
  "distinct (concat (map (\<lambda>s. map (kMethod s) (svc_rpcs s)) all_services))
   \<and> (\<forall>s\<in>set all_services. \<forall>r\<in>set (svc_rpcs s).
        normalize_method (kMethod s r) = kMethod s r
        \<and> normalize_method (CHR ''/'' # kMethod s r) = kMethod s r)"
proof -
  let ?keys = "\<lambda>s. map (kMethod s) (svc_rpcs s)"
  have one: "distinct (?keys s)" if "s \<in> set all_services" for s
    using service_rpcs_distinct [OF that] by (auto simp: distinct_map inj_on_def kMethod_def)
  have two: "set (?keys s) \<inter> set (?keys s') = {}"
    if "s \<in> set all_services" "s' \<in> set all_services" "s \<noteq> s'" for s s'
    using kMethod_same_service [OF that(1,2)] that(3) by auto
  have ne: "?keys s \<noteq> []" if "s \<in> set all_services" for s
    using that by (auto elim!: all_servicesE simp: service_tables)
  have "distinct all_services" using service_names_distinct by (simp add: distinct_map)
  moreover have "inj_on ?keys (set all_services)"
  proof (rule inj_onI, rule ccontr)
    fix s s' assume ss: "s \<in> set all_services" "s' \<in> set all_services" "?keys s = ?keys s'" "s \<noteq> s'"
    with two [OF ss(1,2,4)] ne [OF ss(1)] show False by simp
  qed
  ultimately have "distinct (map ?keys all_services)" by (simp add: distinct_map)
  then have "distinct (concat (map ?keys all_services))"
    using one by (intro distinct_concat) (auto dest: kMethod_same_service)
  then show ?thesis by (simp add: kMethod_normal normalize_slash)
qed

text \<open>
  What a tariff says of an RPC: the limit of the last group that has its path in its list of
  methods, written \<^verbatim>\<open>Service/Rpc\<close> or, as gRPC writes paths, \<^verbatim>\<open>/Service/Rpc\<close>.
\<close>

definition lists_rpc :: "service \<Rightarrow> rpc \<Rightarrow> unary_limit \<Rightarrow> bool" where
  "lists_rpc s r ul \<longleftrightarrow> svc_full_name s @ ''/'' @ rpc_rpc r \<in> set (ul_methods ul)
     \<or> ''/'' @ svc_full_name s @ ''/'' @ rpc_rpc r \<in> set (ul_methods ul)"

definition rpc_limit :: "tariff \<Rightarrow> service \<Rightarrow> rpc \<Rightarrow> int option" where
  "rpc_limit t s r = map_option ul_limit_per_minute (find (lists_rpc s r) (rev t))"

text \<open>The other threads use the limiter of the client but do not reconfigure it.\<close>

definition others_keep_config :: "'r call_env \<Rightarrow> bool" where
  "others_keep_config env \<longleftrightarrow> (\<forall>k l. rl_config (env_others env k l) = rl_config l)
     \<and> (\<forall>k. \<forall>w\<in>set (snd (env_clock env k)). \<forall>l. rl_config (fst w l) = rl_config l)"

lemma normalize_eq_iff:
  "m \<noteq> [] \<Longrightarrow> hd m \<noteq> CHR ''/'' \<Longrightarrow> normalize_method x = m \<longleftrightarrow> x = m \<or> x = CHR ''/'' # m"
  by (cases x) (auto simp: normalize_method_def)

lemma lists_rpc_normalized:
  assumes "s \<in> set all_services"
  shows "kMethod s r \<in> normalize_method ` set (ul_methods ul) \<longleftrightarrow> lists_rpc s r ul"
proof -
  have "kMethod s r \<noteq> []" "hd (kMethod s r) \<noteq> CHR ''/''"
    using service_name_head [OF assms] by (auto simp: kMethod_def)
  from normalize_eq_iff [OF this] show ?thesis
    unfolding lists_rpc_def by (auto simp: image_iff kMethod_def eq_commute)
qed

lemma rpc_limit_tariff:
  assumes "s \<in> set all_services"
  shows "tariff_limit t (kMethod s r) = rpc_limit t s r"
  by (induction t rule: rev_induct)
    (simp_all add: tariff_limit_def rpc_limit_def lists_rpc_normalized [OF assms])

lemma blocking_keeps_config:
  assumes "others_keep_config env" "rpc_blocking c s r opts env l = (evs, l', out)"
  shows "rl_config l' = rl_config l"
  using unary_loop_keeps [of "\<lambda>x. rl_config x = rl_config l" env "kMethod s r" l c opts 1] assms
  by (simp add: others_keep_config_def acquire_config rpc_blocking_def unary_sync_def)

text \<open>
  C33: when the tariff is fetched, the key under which the limiter counts the calls of each wrapper
  has the limit of the last tariff group that lists the path of its RPC, with or without a
  leading slash, and no limit if none does. When fetching fails, in whatever way, the limiter keeps its
  configuration (window, keys, which keys share a group, limits), unless another thread changes it.
\<close>

theorem load_rate_limits_governs:
  assumes "load_rate_limits c env l = (evs, l', out)"
  shows "(\<forall>t. out = Returned (Value t) \<longrightarrow>
       (\<forall>s\<in>set all_services. \<forall>r\<in>set (svc_rpcs s). limit_of l' (kMethod s r) = rpc_limit t s r))
    \<and> ((\<nexists>t. out = Returned (Value t)) \<and> others_keep_config env \<longrightarrow> rl_config l' = rl_config l)"
proof -
  obtain l1 where call: "rpc_blocking c users_service get_user_tariff default_call_options env l = (evs, l1, out)"
    and l': "l' = (case out of Returned (Value t) \<Rightarrow> configure t l1 | _ \<Rightarrow> l1)"
    using assms by (auto simp: load_rate_limits_def split: prod.splits)
  have "l' = l1" if "\<nexists>t. out = Returned (Value t)" using l' that by (simp split: outcome.splits result.splits)
  with call l' blocking_keeps_config [of env] show ?thesis
    by (auto simp: configure_limit rpc_limit_tariff)
qed

text \<open>
  A tariff with two groups that list one RPC, the second one with a slash; and a server that is not
  available, asked by a client whose limiter has a limit of one call.
\<close>

definition demo_tariff :: tariff where
  "demo_tariff =
     [\<lparr>ul_limit_per_minute = 9, ul_methods = [''tinkoff.public.invest.api.contract.v1.UsersService/GetUserTariff'']\<rparr>,
      \<lparr>ul_limit_per_minute = 5, ul_methods = [''/tinkoff.public.invest.api.contract.v1.UsersService/GetUserTariff'']\<rparr>]"

definition demo_tariff_env :: "tariff call_env" where
  "demo_tariff_env = \<lparr>env_others = \<lambda>_ l. l, env_clock = \<lambda>_. (0, []), env_now = \<lambda>_. 0,
     env_call = \<lambda>_ _. \<lparr>rep_code = OK, rep_error_message = [], rep_trailing = [], rep_resp = demo_tariff\<rparr>\<rparr>"

definition refused_tariff_env :: "tariff call_env" where
  "refused_tariff_env = demo_tariff_env\<lparr>env_call :=
     \<lambda>_ _. \<lparr>rep_code = UNAUTHENTICATED, rep_error_message = ''40003'', rep_trailing = [], rep_resp = []\<rparr>\<rparr>"

lemma demo_tariff_call:
  "\<exists>evs l'. load_rate_limits demo_client demo_tariff_env (mk_limiter 60000) = (evs, l', Returned (Value demo_tariff))"
proof -
  have acq: "acquire (kMethod users_service get_user_tariff) (env_clock demo_tariff_env 1)
      (env_others demo_tariff_env 1 (mk_limiter 60000)) = (True, mk_limiter 60000)"
    by (simp add: acquire_def mk_limiter_def demo_tariff_env_def)
  show ?thesis
    unfolding load_rate_limits_def rpc_blocking_def unary_sync_def
    by (subst unary_loop_answered [OF acq demo_context refl]) (simp add: demo_tariff_env_def)
qed

lemma refused_tariff_call:
  "\<exists>evs l' e. load_rate_limits demo_client refused_tariff_env one_per_minute = (evs, l', Returned (Failure e))"
proof -
  have acq: "acquire (kMethod users_service get_user_tariff) (env_clock refused_tariff_env 1)
      (env_others refused_tariff_env 1 one_per_minute) = (True, one_per_minute)"
    by (simp add: acquire_def one_per_minute_def set_limit_def add_group_def mk_limiter_def assign_group_def normalize_method_def
        refused_tariff_env_def demo_tariff_env_def kMethod_def users_service_def)
  show ?thesis
    unfolding load_rate_limits_def rpc_blocking_def unary_sync_def
    by (subst unary_loop_answered [OF acq demo_context refl])
      (simp add: refused_tariff_env_def make_error_def Let_def get_int_metadata_absent get_metadata_def retries_after_def retryable_def
        default_call_options_def)
qed

theorem load_rate_limits_governs_witness:
  "(\<exists>evs l'. load_rate_limits demo_client demo_tariff_env (mk_limiter 60000) = (evs, l', Returned (Value demo_tariff))
      \<and> limit_of l' (kMethod users_service get_user_tariff) = Some 5)
   \<and> (\<exists>evs l' e. load_rate_limits demo_client refused_tariff_env one_per_minute = (evs, l', Returned (Failure e))
      \<and> rl_config l' = (60000, [(''S/A'', 0)], [1]))"
proof -
  have "users_service \<in> set all_services" "get_user_tariff \<in> set (svc_rpcs users_service)"
    "rpc_limit demo_tariff users_service get_user_tariff = Some 5"
    by (simp_all add: all_services_def rpc_limit_def lists_rpc_def demo_tariff_def users_service_def get_user_tariff_def)
  moreover have "others_keep_config refused_tariff_env"
    by (simp add: others_keep_config_def refused_tariff_env_def demo_tariff_env_def)
  moreover have "rl_config one_per_minute = (60000, [(''S/A'', 0)], [1])"
    by (simp add: rl_config_def one_per_minute_def set_limit_def add_group_def mk_limiter_def assign_group_def normalize_method_def)
  ultimately show ?thesis
    using demo_tariff_call refused_tariff_call load_rate_limits_governs by fastforce
qed

section \<open>Awaiting a call\<close>

text \<open>
  An awaited call starts the callback overload with the captured arguments, once, and whatever result
  its callback stores is the one that the coroutine reads.
\<close>

lemma awaited_call:
  assumes "unary_await_suspend (rpc_awaitable s r req opts) = (start, a)"
  shows "\<exists>call. start = Some call \<and> fst (unary_await_suspend a) = None
    \<and> start_captured c call clock now addr sys = rpc_callback c s r req opts clock now addr sys
    \<and> unary_await_resume (unary_complete res a) = Inr res"
  using assms by (auto simp: rpc_awaitable_def mk_unary_awaiter_def unary_await_suspend_def start_captured_def
      unary_await_resume_def unary_complete_def)

end
