(* ===== verification/Stream_Loop.thy ===== *)
theory Stream_Loop
  imports Error
begin

text \<open>
  What the two stream classes share (\<^verbatim>\<open>include/tinvest/streams/server_stream.hpp\<close>): the
  states reported to the user, the options, the reconnection delay, and the contract of the state
  callback. The locale \<open>stream_machine\<close> is that contract's proof principle: a machine whose
  steps keep an invariant and report at most one state each, always one that may follow the
  previous report, reports a protocol-conforming sequence in every execution. Both stream
  classes are interpretations of it.
\<close>

section \<open>States and options\<close>

datatype stream_state = connecting | connected | disconnected | stopped

record stream_options =
  so_initial_backoff :: int
  so_max_backoff :: int
  so_reconnect :: bool

definition default_stream_options :: stream_options where
  "default_stream_options = \<lparr>so_initial_backoff = 100, so_max_backoff = 30000, so_reconnect = True\<rparr>"

text \<open>The wait, in milliseconds, before the next attempt.\<close>

definition backoff_delay :: "stream_options \<Rightarrow> nat \<Rightarrow> int" where
  "backoff_delay opts attempt =
     (let delay = so_initial_backoff opts * 2 ^ min attempt 8
      in if delay > so_max_backoff opts then so_max_backoff opts else delay)"

text \<open>The error reported with \<^verbatim>\<open>disconnected\<close>: code and message of the status only.\<close>

definition disconnect_error :: "status_code \<Rightarrow> string \<Rightarrow> error" where
  "disconnect_error code msg = default_error\<lparr>err_code := code, err_message := msg\<rparr>"

text \<open>
  The delays never exceed the configured maximum and never decrease from one failed attempt
  to the next; with the default options they are 100 ms doubled up to eight times, so they stop
  growing at 25.6 s, below the configured maximum of 30 s.
\<close>

lemma backoff_bounded:
  assumes "0 \<le> so_initial_backoff opts"
  shows "backoff_delay opts n \<le> so_max_backoff opts
    \<and> backoff_delay opts n \<le> backoff_delay opts (Suc n)
    \<and> backoff_delay default_stream_options n = 100 * 2 ^ min n 8
    \<and> backoff_delay default_stream_options n \<le> 25600"
proof -
  have "(2 :: int) ^ min n 8 \<le> 2 ^ min (Suc n) 8" by (intro power_increasing) auto
  with assms have "so_initial_backoff opts * 2 ^ min n 8 \<le> so_initial_backoff opts * 2 ^ min (Suc n) 8"
    by (rule mult_left_mono [rotated])
  moreover have "(2 :: int) ^ min n 8 \<le> 2 ^ 8" by (intro power_increasing) auto
  ultimately show ?thesis by (simp add: backoff_delay_def default_stream_options_def Let_def)
qed

section \<open>The contract of the state callback\<close>

text \<open>Which state may be reported next, given the reports so far, newest first.\<close>

fun legal_next :: "stream_state list \<Rightarrow> stream_state \<Rightarrow> bool" where
  "legal_next [] n = (n = connecting \<or> n = stopped)"
| "legal_next (connecting # _) n = (n = connected \<or> n = disconnected \<or> n = stopped)"
| "legal_next (connected # _) n = (n = disconnected \<or> n = stopped)"
| "legal_next (disconnected # _) n = (n = connecting \<or> n = stopped)"
| "legal_next (stopped # _) n = (n = connecting \<or> n = stopped)"

fun protocol :: "stream_state list \<Rightarrow> bool" where
  "protocol [] = True"
| "protocol (n # ns) = (legal_next ns n \<and> protocol ns)"

lemma legal_connecting: "legal_next ns connecting \<longleftrightarrow> ns = [] \<or> hd ns = disconnected \<or> hd ns = stopped"
  by (cases "(ns, connecting)" rule: legal_next.cases) auto

lemma legal_connected: "legal_next ns connected \<longleftrightarrow> (\<exists>r. ns = connecting # r)"
  by (cases "(ns, connected)" rule: legal_next.cases) auto

lemma legal_disconnected:
  "legal_next ns disconnected \<longleftrightarrow> ns \<noteq> [] \<and> (hd ns = connecting \<or> hd ns = connected)"
  by (cases "(ns, disconnected)" rule: legal_next.cases) auto

lemma legal_stopped: "legal_next ns stopped"
  by (cases "(ns, stopped)" rule: legal_next.cases) auto

lemmas legal_simps = legal_connecting legal_connected legal_disconnected legal_stopped

locale stream_machine =
  fixes initial :: "'s \<Rightarrow> bool"
    and step :: "'s \<Rightarrow> 's \<Rightarrow> bool"
    and inv :: "'s \<Rightarrow> bool"
    and reported :: "'s \<Rightarrow> stream_state list"
  assumes initial_inv: "initial s \<Longrightarrow> inv s \<and> reported s = []"
    and step_inv: "inv s \<Longrightarrow> step s s' \<Longrightarrow> inv s'"
    and step_notes: "inv s \<Longrightarrow> step s s' \<Longrightarrow>
      reported s' = reported s \<or> (\<exists>n. legal_next (reported s) n \<and> reported s' = n # reported s)"
begin

inductive reach :: "'s \<Rightarrow> bool" where
  reach_init: "initial s \<Longrightarrow> reach s"
| reach_step: "reach s \<Longrightarrow> step s s' \<Longrightarrow> reach s'"

lemma reach_inv: "reach s \<Longrightarrow> inv s"
  by (induction rule: reach.induct) (auto dest: initial_inv step_inv)

lemma reach_protocol: "reach s \<Longrightarrow> protocol (reported s)"
proof (induction rule: reach.induct)
  case (reach_init s)
  then show ?case by (simp add: initial_inv)
next
  case (reach_step s s')
  then show ?case using step_notes [OF reach_inv [OF reach_step.hyps(1)] reach_step.hyps(2)] by auto
qed

lemma reach_steps:
  assumes "reach s" "step\<^sup>*\<^sup>* s s'"
  shows "reach s'"
  using assms(2,1) by (induction rule: rtranclp_induct) (auto intro: reach_step)

end

section \<open>Winding down\<close>

text \<open>
  What a machine promises that has been told to stop: each of its own steps brings it closer to the
  end, in a well-founded order, and as long as it has not finished one of them is possible. A client
  that joins it then gets a run that ends, whatever the order of the steps. Both stream classes are
  interpretations, and so are a reconnection and the program that runs several streams beside its own
  threads.

  The steps of the locale are the ones that are bound to be taken as long as they are possible: those
  of threads that can run, and completions that gRPC owes. The extension \<open>stoppable_among\<close> puts them
  among all the steps that can happen, those of other users and arriving messages included: these
  never lead away from the end, so a run that is never finished starves a step that is owed.
\<close>

locale stoppable =
  fixes reach :: "'s \<Rightarrow> bool"
    and step :: "'s \<Rightarrow> 's \<Rightarrow> bool"
    and stopping :: "'s \<Rightarrow> bool"
    and finished :: "'s \<Rightarrow> bool"
    and closer :: "('s \<times> 's) set"
  assumes reach_closed: "reach s \<Longrightarrow> step s s' \<Longrightarrow> reach s'"
    and wf_closer: "wf closer"
    and step_closer: "reach s \<Longrightarrow> stopping s \<Longrightarrow> step s s' \<Longrightarrow> stopping s' \<and> (s', s) \<in> closer"
    and can_step: "reach s \<Longrightarrow> stopping s \<Longrightarrow> \<not> finished s \<Longrightarrow> \<exists>s'. step s s'"
begin

lemma run_stopping:
  assumes "step\<^sup>*\<^sup>* s s'" "reach s" "stopping s"
  shows "reach s' \<and> stopping s'"
  using assms by (induction rule: rtranclp_induct) (auto dest: reach_closed step_closer)

lemma stuck_finished: "reach s \<Longrightarrow> stopping s \<Longrightarrow> step\<^sup>*\<^sup>* s s' \<Longrightarrow> (\<nexists>t. step s' t) \<Longrightarrow> finished s'"
  using run_stopping can_step by blast

lemma no_infinite_run:
  assumes "reach (f 0)" "stopping (f 0)"
  shows "\<exists>i. \<not> step (f i) (f (Suc i))"
proof (rule ccontr)
  assume "\<not> ?thesis"
  then have steps: "step (f i) (f (Suc i))" for i by blast
  have "reach (f i) \<and> stopping (f i)" for i
    by (induction i) (use assms steps in \<open>auto dest: reach_closed step_closer\<close>)
  then have "(f (Suc i), f i) \<in> closer" for i using step_closer steps by blast
  then show False using wf_closer unfolding wf_iff_no_infinite_down_chain by blast
qed

lemma reaches_end:
  assumes "reach s" "stopping s"
  shows "\<exists>s'. step\<^sup>*\<^sup>* s s' \<and> finished s'"
  using assms
proof (induction s rule: wf_induct_rule [OF wf_closer])
  case (1 s)
  show ?case
  proof (cases "finished s")
    case False
    then obtain t where t: "step s t" using can_step 1(2,3) by blast
    then have "(t, s) \<in> closer" "reach t" "stopping t"
      using step_closer reach_closed 1(2,3) by blast+
    then show ?thesis using 1(1) t by (meson converse_rtranclp_into_rtranclp)
  qed blast
qed

lemmas winds_down = no_infinite_run stuck_finished reaches_end

end

locale stoppable_among = stoppable reach step stopping finished closer
  for reach :: "'s \<Rightarrow> bool" and step :: "'s \<Rightarrow> 's \<Rightarrow> bool" and stopping :: "'s \<Rightarrow> bool"
    and finished :: "'s \<Rightarrow> bool" and closer :: "('s \<times> 's) set" +
  fixes anystep :: "'s \<Rightarrow> 's \<Rightarrow> bool"
  assumes reach_anystep: "reach s \<Longrightarrow> anystep s s' \<Longrightarrow> reach s'"
    and anystep_keeps: "reach s \<Longrightarrow> stopping s \<Longrightarrow> \<not> finished s \<Longrightarrow> anystep s s' \<Longrightarrow>
      stopping s' \<and> (\<forall>t. (t, s') \<in> closer \<longrightarrow> (t, s) \<in> closer)"
begin

lemma anyrun_keeps:
  assumes "\<And>i. anystep (f i) (f (Suc i))" "\<And>i. \<not> finished (f i)" "reach (f 0)" "stopping (f 0)"
  shows "reach (f i) \<and> stopping (f i)"
  using assms by (induction i) (auto dest: reach_anystep anystep_keeps)

lemma anyrun_closer:
  assumes "\<And>i. anystep (f i) (f (Suc i))" "\<And>i. \<not> finished (f i)" "reach (f 0)" "stopping (f 0)"
  shows "i \<le> j \<Longrightarrow> (t, f j) \<in> closer \<Longrightarrow> (t, f i) \<in> closer"
proof (induction j rule: dec_induct)
  case (step n)
  then show ?case using anyrun_keeps [OF assms] anystep_keeps assms(1,2) by blast
qed

lemma finished_or_starved:
  assumes "f 0 = s" "\<forall>i. anystep (f i) (f (Suc i))" "reach s" "stopping s"
  shows "(\<exists>i. finished (f i)) \<or> (\<exists>n. \<forall>i\<ge>n. (\<exists>t. step (f i) t) \<and> \<not> step (f i) (f (Suc i)))"
proof (cases "\<exists>i. finished (f i)")
  case False
  note run = assms(2) [rule_format] False [simplified, rule_format] assms(3,4) [folded assms(1)]
  obtain n where n: "\<And>t. (t, f n) \<in> closer \<Longrightarrow> t \<notin> range f"
    using wf_closer unfolding wf_eq_minimal by (metis rangeE rangeI)
  have "\<not> step (f i) (f (Suc i))" if "n \<le> i" for i
    using step_closer [of "f i" "f (Suc i)"] anyrun_keeps [of f, OF run, of i] anyrun_closer [of f, OF run that] n by blast
  moreover have "\<exists>t. step (f i) t" for i using can_step anyrun_keeps [of f, OF run, of i] run(2) by blast
  ultimately show ?thesis by blast
qed blast

text \<open>Wherever such a machine is in a run of whatever steps, it is finished or a step is owed.\<close>

lemma anyrun_finished:
  assumes "anystep\<^sup>*\<^sup>* s s'" "reach s" "stopping s" "\<nexists>t. step s' t"
  shows "\<exists>t. anystep\<^sup>*\<^sup>* s t \<and> anystep\<^sup>*\<^sup>* t s' \<and> finished t"
proof -
  have "(reach s' \<and> stopping s') \<or> (\<exists>t. anystep\<^sup>*\<^sup>* s t \<and> anystep\<^sup>*\<^sup>* t s' \<and> finished t)"
    using assms(1-3)
  proof (induction rule: rtranclp_induct)
    case (step y z)
    then show ?case
      by (metis reach_anystep anystep_keeps rtranclp.rtrancl_into_rtrancl rtranclp.rtrancl_refl)
  qed blast
  then show ?thesis using can_step assms(1,4) by blast
qed

end

section \<open>Runs of a machine given by its actions\<close>

text \<open>
  The machines with several workers are functions of the action and the state, \<open>None\<close> when the action
  is not possible. A run is a sequence of actions, all of them possible; it is disciplined when each
  action is allowed where it is taken.
\<close>

fun run_actions :: "('a \<Rightarrow> 's \<Rightarrow> 's option) \<Rightarrow> 'a list \<Rightarrow> 's \<Rightarrow> 's option" where
  "run_actions exec [] s = Some s"
| "run_actions exec (a # as) s = (case exec a s of None \<Rightarrow> None | Some s' \<Rightarrow> run_actions exec as s')"

fun disciplined :: "('a \<Rightarrow> 's \<Rightarrow> 's option) \<Rightarrow> ('a \<Rightarrow> 's \<Rightarrow> bool) \<Rightarrow> 'a list \<Rightarrow> 's \<Rightarrow> bool" where
  "disciplined exec allowed [] s = True"
| "disciplined exec allowed (a # as) s =
     (allowed a s \<and> (case exec a s of None \<Rightarrow> True | Some s' \<Rightarrow> disciplined exec allowed as s'))"

lemma run_actions_keep:
  assumes "run_actions exec as s = Some s'" "\<And>a s s'. exec a s = Some s' \<Longrightarrow> f s' = f s"
  shows "f s' = f s"
  using assms(1)
proof (induction as arbitrary: s)
  case (Cons a as)
  then obtain t where "exec a s = Some t" "run_actions exec as t = Some s'" by (auto split: option.splits)
  then show ?case using Cons.IH assms(2) by metis
qed simp

text \<open>
  A simulation by a machine with a step relation: an allowed action is a step there or changes
  nothing. Disciplined runs then stay among the states that the other machine reaches.
\<close>

locale action_simulation =
  fixes exec :: "'a \<Rightarrow> 's \<Rightarrow> 's option"
    and allowed :: "'a \<Rightarrow> 's \<Rightarrow> bool"
    and step :: "'y \<Rightarrow> 'y \<Rightarrow> bool"
    and reach :: "'y \<Rightarrow> bool"
    and sim :: "'s \<Rightarrow> 'y \<Rightarrow> bool"
  assumes reach_next: "reach y \<Longrightarrow> step y y' \<Longrightarrow> reach y'"
    and exec_sim: "sim s y \<Longrightarrow> reach y \<Longrightarrow> allowed a s \<Longrightarrow> exec a s = Some s' \<Longrightarrow> \<exists>y'. (y' = y \<or> step y y') \<and> sim s' y'"
begin

lemma run_sim:
  assumes "run_actions exec as s = Some s'" "disciplined exec allowed as s" "sim s y" "reach y"
  shows "\<exists>y'. reach y' \<and> sim s' y'"
  using assms
proof (induction as arbitrary: s y)
  case (Cons a as)
  then obtain t where t: "exec a s = Some t" "allowed a s" "run_actions exec as t = Some s'" "disciplined exec allowed as t"
    by (auto split: option.splits)
  with exec_sim [OF Cons.prems(3,4)] obtain y' where "y' = y \<or> step y y'" "sim t y'" by blast
  then show ?case using Cons.IH [OF t(3,4)] Cons.prems(4) reach_next by blast
qed auto

end

end
