(* ===== verification/Server_Stream.thy ===== *)
theory Server_Stream
  imports Stream_Loop Client
begin

text \<open>
  \<^verbatim>\<open>include/tinvest/streams/server_stream.hpp\<close>: \<^verbatim>\<open>ServerStream<Req, Resp>\<close> and its
  factories. The fields guarded by the mutex (and the atomic \<^verbatim>\<open>got_data_\<close>) are a record; every
  stretch of code between two lock operations or waits is one definition on it, with the calls it
  makes to the user and to gRPC as events. The machine \<open>ss_step\<close> interleaves the worker thread
  (\<^verbatim>\<open>run\<close>), user threads (\<^verbatim>\<open>start\<close>, \<^verbatim>\<open>stop\<close>) and the reactions of the gRPC library,
  which are limited to what gRPC documents: a read completes only while one is outstanding, and
  \<^verbatim>\<open>OnDone\<close> comes once per call, after the last read has completed. That an open read ends and
  \<^verbatim>\<open>OnDone\<close> comes is not something to count on while the server keeps the stream open: gRPC owes it
  once the call is cancelled, so the machine records \<^verbatim>\<open>TryCancel\<close>.

  The machine has one worker at a time: its rule for \<^verbatim>\<open>start\<close> adds to the test of
  \<^verbatim>\<open>worker_.joinable()\<close> that the previous worker has finished, which the code does not check. It is
  the machine of an object whose \<^verbatim>\<open>start\<close> is only called when a \<^verbatim>\<open>stop\<close> that was begun has
  returned. \<open>Server_Restart\<close> has the machine without that guard, with any number of workers, and shows
  what survives there.
\<close>

section \<open>The object\<close>

type_synonym grpc_status = "status_code \<times> string"

record ('q, 'r) server_stream =
  ss_rpc :: "string \<times> string"
  ss_request :: 'q
  ss_opts :: stream_options
  ss_on_data :: bool
  ss_on_state :: bool
  ss_is_ping :: "('r \<Rightarrow> bool) option"
  ss_joinable :: bool
  ss_stopping :: bool
  ss_done :: bool
  ss_got_data :: bool
  ss_status :: grpc_status
  ss_ctx :: bool

datatype ('q, 'r) stream_event =
    Notify stream_state "error option"
  | Data 'r
  | StartStream "string \<times> string" "'q"
  | TryCancel

text \<open>The constructor: the callbacks are present or empty.\<close>

definition new_server_stream :: "string \<times> string \<Rightarrow> 'q \<Rightarrow> bool \<Rightarrow> bool \<Rightarrow> stream_options \<Rightarrow>
    ('q, 'r) server_stream" where
  "new_server_stream rpc req on_data on_state opts =
     \<lparr>ss_rpc = rpc, ss_request = req, ss_opts = opts, ss_on_data = on_data, ss_on_state = on_state,
      ss_is_ping = None, ss_joinable = False, ss_stopping = False, ss_done = False,
      ss_got_data = False, ss_status = (OK, []), ss_ctx = False\<rparr>"

definition set_ping_filter :: "('r \<Rightarrow> bool) \<Rightarrow> ('q, 'r) server_stream \<Rightarrow> ('q, 'r) server_stream" where
  "set_ping_filter f o1 = o1\<lparr>ss_is_ping := Some f\<rparr>"

definition ss_notify :: "stream_state \<Rightarrow> error option \<Rightarrow> ('q, 'r) server_stream \<Rightarrow>
    ('q, 'r) stream_event list" where
  "ss_notify st e o1 = (if ss_on_state o1 then [Notify st e] else [])"

section \<open>User operations\<close>

text \<open>The flag says whether a new worker thread is started.\<close>

definition ss_start :: "('q, 'r) server_stream \<Rightarrow> bool \<times> ('q, 'r) server_stream" where
  "ss_start o1 =
     (if ss_joinable o1 then (False, o1) else (True, o1\<lparr>ss_stopping := False, ss_joinable := True\<rparr>))"

definition ss_stop :: "('q, 'r) server_stream \<Rightarrow> ('q, 'r) stream_event list \<times> ('q, 'r) server_stream" where
  "ss_stop o1 =
     ((if ss_ctx o1 then [TryCancel] else []), o1\<lparr>ss_stopping := True, ss_joinable := False\<rparr>)"

section \<open>The worker\<close>

datatype worker_pc =
    Detached
  | LoopTop
  | Connecting
  | Streaming
  | Returned_from_run_once grpc_status
  | Backoff int
  | Leaving
  | Finished

text \<open>The head of the loop in \<^verbatim>\<open>run\<close>.\<close>

definition ss_run_top :: "('q, 'r) server_stream \<Rightarrow>
    ('q, 'r) stream_event list \<times> ('q, 'r) server_stream \<times> worker_pc" where
  "ss_run_top o1 =
     (if ss_stopping o1 then ([], o1, Leaving)
      else (ss_notify connecting None o1, o1\<lparr>ss_got_data := False\<rparr>, Connecting))"

text \<open>\<^verbatim>\<open>run_once\<close> up to its wait.\<close>

definition ss_run_once_begin :: "('q, 'r) server_stream \<Rightarrow>
    ('q, 'r) stream_event list \<times> ('q, 'r) server_stream \<times> worker_pc" where
  "ss_run_once_begin o1 =
     (if ss_stopping o1 then ([], o1, Returned_from_run_once (CANCELLED, []))
      else ([StartStream (ss_rpc o1) (ss_request o1)], o1\<lparr>ss_ctx := True, ss_done := False\<rparr>, Streaming))"

text \<open>The end of \<^verbatim>\<open>run_once\<close>, when \<^verbatim>\<open>done_\<close> is set.\<close>

definition ss_run_once_end :: "('q, 'r) server_stream \<Rightarrow> ('q, 'r) server_stream \<times> worker_pc" where
  "ss_run_once_end o1 = (o1\<lparr>ss_ctx := False\<rparr>, Returned_from_run_once (ss_status o1))"

text \<open>The rest of the loop body, up to the wait for the backoff; also the next attempt number.\<close>

definition ss_run_after :: "nat \<Rightarrow> grpc_status \<Rightarrow> ('q, 'r) server_stream \<Rightarrow>
    ('q, 'r) stream_event list \<times> nat \<times> worker_pc" where
  "ss_run_after attempt st o1 =
     (if ss_stopping o1 then ([], attempt, Leaving)
      else
        let attempt1 = (if ss_got_data o1 then 0 else attempt);
            ev = ss_notify disconnected (Some (disconnect_error (fst st) (snd st))) o1
        in if \<not> so_reconnect (ss_opts o1) then (ev, attempt1, Leaving)
           else (ev, Suc attempt1, Backoff (backoff_delay (ss_opts o1) attempt1)))"

definition ss_run_wake :: "('q, 'r) server_stream \<Rightarrow> worker_pc" where
  "ss_run_wake o1 = (if ss_stopping o1 then Leaving else LoopTop)"

section \<open>Reactions\<close>

definition ss_handle_data :: "'r \<Rightarrow> ('q, 'r) server_stream \<Rightarrow>
    ('q, 'r) stream_event list \<times> ('q, 'r) server_stream" where
  "ss_handle_data r o1 =
     (let ev1 = (if ss_got_data o1 then [] else ss_notify connected None o1);
          ping = (case ss_is_ping o1 of None \<Rightarrow> False | Some f \<Rightarrow> f r);
          ev2 = (if ping then [] else if ss_on_data o1 then [Data r] else [])
      in (ev1 @ ev2, o1\<lparr>ss_got_data := True\<rparr>))"

definition ss_handle_done :: "grpc_status \<Rightarrow> ('q, 'r) server_stream \<Rightarrow> ('q, 'r) server_stream" where
  "ss_handle_done st o1 = o1\<lparr>ss_status := st, ss_done := True\<rparr>"

section \<open>Factories\<close>

text \<open>
  Create the stream, set the ping filter (\<open>has_ping\<close> of the response type) and start it. The
  stub method that \<^verbatim>\<open>bind_stream\<close> binds is the pair of service and method.
\<close>

definition make_stream :: "string \<times> string \<Rightarrow> ('r \<Rightarrow> bool) \<Rightarrow> 'q \<Rightarrow> bool \<Rightarrow> bool \<Rightarrow> stream_options \<Rightarrow>
    bool \<times> ('q, 'r) server_stream" where
  "make_stream rpc has_ping req on_data on_state opts =
     ss_start (set_ping_filter has_ping (new_server_stream rpc req on_data on_state opts))"

definition make_positions_stream :: "('r \<Rightarrow> bool) \<Rightarrow> 'q \<Rightarrow> bool \<Rightarrow> bool \<Rightarrow> stream_options \<Rightarrow>
    bool \<times> ('q, 'r) server_stream" where
  "make_positions_stream = make_stream (''OperationsStreamService'', ''PositionsStream'')"

definition make_portfolio_stream :: "('r \<Rightarrow> bool) \<Rightarrow> 'q \<Rightarrow> bool \<Rightarrow> bool \<Rightarrow> stream_options \<Rightarrow>
    bool \<times> ('q, 'r) server_stream" where
  "make_portfolio_stream = make_stream (''OperationsStreamService'', ''PortfolioStream'')"

definition make_trades_stream :: "('r \<Rightarrow> bool) \<Rightarrow> 'q \<Rightarrow> bool \<Rightarrow> bool \<Rightarrow> stream_options \<Rightarrow>
    bool \<times> ('q, 'r) server_stream" where
  "make_trades_stream = make_stream (''OrdersStreamService'', ''TradesStream'')"

definition make_order_state_stream :: "('r \<Rightarrow> bool) \<Rightarrow> 'q \<Rightarrow> bool \<Rightarrow> bool \<Rightarrow> stream_options \<Rightarrow>
    bool \<times> ('q, 'r) server_stream" where
  "make_order_state_stream = make_stream (''OrdersStreamService'', ''OrderStateStream'')"

definition make_market_data_server_stream :: "('r \<Rightarrow> bool) \<Rightarrow> 'q \<Rightarrow> bool \<Rightarrow> bool \<Rightarrow> stream_options \<Rightarrow>
    bool \<times> ('q, 'r) server_stream" where
  "make_market_data_server_stream =
     make_stream (''MarketDataStreamService'', ''MarketDataServerSideStream'')"

section \<open>The machine\<close>

text \<open>
  \<open>sy_live\<close>: a call is started and \<^verbatim>\<open>OnDone\<close> has not been delivered; \<open>sy_reading\<close>: a read is
  outstanding; \<open>sy_cancelled\<close>: \<^verbatim>\<open>TryCancel\<close> was called on the context of the current call. The events
  and the received messages are recorded, newest first.
\<close>

record ('q, 'r) ss_sys =
  sy_obj :: "('q, 'r) server_stream"
  sy_pc :: worker_pc
  sy_attempt :: nat
  sy_live :: bool
  sy_reading :: bool
  sy_log :: "('q, 'r) stream_event list"
  sy_received :: "'r list"
  sy_cancelled :: bool

datatype actor = User | Worker | Delivery | Completion

inductive ss_step :: "actor \<Rightarrow> ('q, 'r) ss_sys \<Rightarrow> ('q, 'r) ss_sys \<Rightarrow> bool" where
  start_noop: "ss_start (sy_obj s) = (False, o2) \<Longrightarrow> ss_step User s s"
| start: "ss_start (sy_obj s) = (True, o2) \<Longrightarrow> sy_pc s = Detached \<or> sy_pc s = Finished \<Longrightarrow>
    ss_step User s (s\<lparr>sy_obj := o2, sy_pc := LoopTop, sy_attempt := 0\<rparr>)"
| stop: "ss_stop (sy_obj s) = (ev, o2) \<Longrightarrow>
    ss_step User s (s\<lparr>sy_obj := o2, sy_log := ev @ sy_log s, sy_cancelled := sy_cancelled s \<or> TryCancel \<in> set ev\<rparr>)"
| top: "sy_pc s = LoopTop \<Longrightarrow> ss_run_top (sy_obj s) = (ev, o2, pc) \<Longrightarrow>
    ss_step Worker s (s\<lparr>sy_obj := o2, sy_pc := pc, sy_log := ev @ sy_log s\<rparr>)"
| once_cancelled: "sy_pc s = Connecting \<Longrightarrow> ss_run_once_begin (sy_obj s) = (ev, o2, pc) \<Longrightarrow> pc \<noteq> Streaming \<Longrightarrow>
    ss_step Worker s (s\<lparr>sy_obj := o2, sy_pc := pc\<rparr>)"
| once_begin: "sy_pc s = Connecting \<Longrightarrow> ss_run_once_begin (sy_obj s) = (ev, o2, Streaming) \<Longrightarrow>
    ss_step Worker s (s\<lparr>sy_obj := o2, sy_pc := Streaming, sy_live := True, sy_reading := True,
      sy_cancelled := False, sy_log := ev @ sy_log s\<rparr>)"
| once_end: "sy_pc s = Streaming \<Longrightarrow> ss_done (sy_obj s) \<Longrightarrow> ss_run_once_end (sy_obj s) = (o2, pc) \<Longrightarrow>
    ss_step Worker s (s\<lparr>sy_obj := o2, sy_pc := pc\<rparr>)"
| after: "sy_pc s = Returned_from_run_once st \<Longrightarrow>
    ss_run_after (sy_attempt s) st (sy_obj s) = (ev, att, pc) \<Longrightarrow>
    ss_step Worker s (s\<lparr>sy_pc := pc, sy_attempt := att, sy_log := ev @ sy_log s\<rparr>)"
| wake: "sy_pc s = Backoff d \<Longrightarrow> ss_step Worker s (s\<lparr>sy_pc := ss_run_wake (sy_obj s)\<rparr>)"
| leave: "sy_pc s = Leaving \<Longrightarrow>
    ss_step Worker s (s\<lparr>sy_pc := Finished, sy_log := ss_notify stopped None (sy_obj s) @ sy_log s\<rparr>)"
| read_ok: "sy_reading s \<Longrightarrow> ss_handle_data r (sy_obj s) = (ev, o2) \<Longrightarrow>
    ss_step Delivery s (s\<lparr>sy_obj := o2, sy_log := rev ev @ sy_log s, sy_received := r # sy_received s\<rparr>)"
| read_end: "sy_reading s \<Longrightarrow> ss_step Completion s (s\<lparr>sy_reading := False\<rparr>)"
| completed: "sy_live s \<Longrightarrow> \<not> sy_reading s \<Longrightarrow>
    ss_step Completion s (s\<lparr>sy_live := False, sy_obj := ss_handle_done st (sy_obj s)\<rparr>)"

definition ss_initial :: "('q, 'r) ss_sys \<Rightarrow> bool" where
  "ss_initial s \<longleftrightarrow> (\<exists>rpc req d n opts f.
     sy_obj s = (new_server_stream rpc req d n opts)\<lparr>ss_is_ping := f\<rparr>)
     \<and> sy_pc s = Detached \<and> \<not> sy_live s \<and> \<not> sy_reading s \<and> sy_log s = [] \<and> sy_received s = [] \<and> \<not> sy_cancelled s"

text \<open>The reported states, newest first.\<close>

definition states_of :: "('q, 'r) stream_event list \<Rightarrow> stream_state list" where
  "states_of evs = List.map_filter (\<lambda>ev. case ev of Notify st e \<Rightarrow> Some st | _ \<Rightarrow> None) evs"

definition data_of :: "('q, 'r) stream_event list \<Rightarrow> 'r list" where
  "data_of evs = List.map_filter (\<lambda>ev. case ev of Data r \<Rightarrow> Some r | _ \<Rightarrow> None) evs"

lemma states_of_simps [simp]:
  "states_of [] = []"
  "states_of (Notify st e # evs) = st # states_of evs"
  "states_of (Data r # evs) = states_of evs"
  "states_of (StartStream x q # evs) = states_of evs"
  "states_of (TryCancel # evs) = states_of evs"
  "states_of (as @ bs) = states_of as @ states_of bs"
  by (simp_all add: states_of_def map_filter_def)

lemma data_of_simps [simp]:
  "data_of [] = []"
  "data_of (Notify st e # evs) = data_of evs"
  "data_of (Data r # evs) = r # data_of evs"
  "data_of (StartStream x q # evs) = data_of evs"
  "data_of (TryCancel # evs) = data_of evs"
  "data_of (as @ bs) = data_of as @ data_of bs"
  by (simp_all add: data_of_def map_filter_def)

lemma notify_of_simps [simp]:
  "states_of (ss_notify st e o1) = (if ss_on_state o1 then [st] else [])"
  "data_of (ss_notify st e o1) = []"
  "rev (ss_notify st e o1) = ss_notify st e o1"
  by (simp_all add: ss_notify_def)

section \<open>The invariant\<close>

text \<open>What the last report was, by the position of the worker.\<close>

definition last_report_ok :: "worker_pc \<Rightarrow> bool \<Rightarrow> stream_state list \<Rightarrow> bool" where
  "last_report_ok pc got ns \<longleftrightarrow> (case pc of
     Detached \<Rightarrow> ns = []
   | LoopTop \<Rightarrow> ns = [] \<or> hd ns = disconnected \<or> hd ns = stopped
   | Connecting \<Rightarrow> (\<exists>r. ns = connecting # r) \<and> \<not> got
   | Streaming \<Rightarrow> (\<exists>r. ns = (if got then connected else connecting) # r)
   | Returned_from_run_once st \<Rightarrow> ns \<noteq> [] \<and> (hd ns = connecting \<or> hd ns = connected)
   | Backoff d \<Rightarrow> ns \<noteq> [] \<and> hd ns = disconnected
   | Leaving \<Rightarrow> True
   | Finished \<Rightarrow> ns \<noteq> [] \<and> hd ns = stopped)"

inductive_cases ss_stepE: "ss_step a s s'"

lemmas ss_ops = ss_start_def ss_stop_def ss_run_top_def ss_run_once_begin_def ss_run_once_end_def
  ss_run_after_def ss_run_wake_def ss_handle_data_def ss_handle_done_def Let_def


definition is_ping_msg :: "('q, 'r) server_stream \<Rightarrow> 'r \<Rightarrow> bool" where
  "is_ping_msg o1 r = (case ss_is_ping o1 of None \<Rightarrow> False | Some f \<Rightarrow> f r)"

lemma handle_data_effect:
  assumes "ss_handle_data r o1 = (ev, o2)"
  shows "o2 = o1\<lparr>ss_got_data := True\<rparr>"
    and "states_of (rev ev) = (if ss_got_data o1 \<or> \<not> ss_on_state o1 then [] else [connected])"
    and "data_of (rev ev) = (if is_ping_msg o1 r \<or> \<not> ss_on_data o1 then [] else [r])"
  using assms by (auto simp: ss_handle_data_def is_ping_msg_def ss_notify_def Let_def split: if_splits)

text \<open>The three parts of the invariant: control, reports, data.\<close>

definition ss_control :: "('q, 'r) ss_sys \<Rightarrow> bool" where
  "ss_control s \<longleftrightarrow>
     (sy_live s \<longrightarrow> sy_pc s = Streaming)
     \<and> (sy_reading s \<longrightarrow> sy_live s)
     \<and> (sy_pc s = Streaming \<longrightarrow> ss_done (sy_obj s) = (\<not> sy_live s))
     \<and> (ss_ctx (sy_obj s) \<longleftrightarrow> sy_pc s = Streaming)
     \<and> (sy_pc s = Streaming \<and> ss_stopping (sy_obj s) \<longrightarrow> sy_cancelled s)
     \<and> (\<not> ss_joinable (sy_obj s) \<longrightarrow> ss_stopping (sy_obj s) \<or> sy_pc s = Detached)"

definition ss_reports :: "('q, 'r) ss_sys \<Rightarrow> bool" where
  "ss_reports s \<longleftrightarrow>
     (if ss_on_state (sy_obj s)
      then last_report_ok (sy_pc s) (ss_got_data (sy_obj s)) (states_of (sy_log s))
      else states_of (sy_log s) = [])"

definition ss_data :: "('q, 'r) ss_sys \<Rightarrow> bool" where
  "ss_data s \<longleftrightarrow> data_of (sy_log s) =
     (if ss_on_data (sy_obj s) then filter (\<lambda>r. \<not> is_ping_msg (sy_obj s) r) (sy_received s) else [])"

definition ss_inv :: "('q, 'r) ss_sys \<Rightarrow> bool" where
  "ss_inv s \<longleftrightarrow> ss_control s \<and> ss_reports s \<and> ss_data s"

lemma ss_step_control: "ss_control s \<Longrightarrow> ss_step a s s' \<Longrightarrow> ss_control s'"
  by (erule ss_stepE) (auto simp: ss_control_def ss_ops split: if_splits)

lemma ss_step_data: "ss_data s \<Longrightarrow> ss_step a s s' \<Longrightarrow> ss_data s'"
proof (erule ss_stepE)
  fix r ev o2
  assume "ss_data s" "ss_handle_data r (sy_obj s) = (ev, o2)"
    "s' = s\<lparr>sy_obj := o2, sy_log := rev ev @ sy_log s, sy_received := r # sy_received s\<rparr>"
  then show "ss_data s'"
    using handle_data_effect [of r "sy_obj s" ev o2] by (simp add: ss_data_def is_ping_msg_def)
qed (auto simp: ss_data_def is_ping_msg_def ss_ops split: if_splits)

text \<open>A message arrives only while the worker waits in \<^verbatim>\<open>run_once\<close>.\<close>

lemma ss_delivery_reports:
  assumes "ss_control s" "ss_reports s" "sy_reading s" "ss_handle_data r (sy_obj s) = (ev, o2)"
  shows "let ns = states_of (sy_log s); ns' = states_of (rev ev @ sy_log s) in
    (ns' = ns \<or> (legal_next ns connected \<and> ns' = connected # ns))
    \<and> (if ss_on_state o2 then last_report_ok (sy_pc s) (ss_got_data o2) ns' else ns' = [])"
proof -
  have "sy_pc s = Streaming" using assms by (auto simp: ss_control_def)
  with assms(2) handle_data_effect [OF assms(4)] show ?thesis
    by (auto simp: ss_reports_def last_report_ok_def legal_connected Let_def)
qed

lemma ss_step_reports:
  assumes "ss_control s" "ss_reports s" "ss_step a s s'"
  shows "ss_reports s' \<and> (states_of (sy_log s') = states_of (sy_log s)
    \<or> (\<exists>n. legal_next (states_of (sy_log s)) n \<and> states_of (sy_log s') = n # states_of (sy_log s)))"
  using assms(3)
proof cases
  case (read_ok r ev o2)
  then show ?thesis
    using ss_delivery_reports [OF assms(1,2), of r ev o2] by (auto simp: ss_reports_def Let_def)
next
  case (after st ev att pc)
  then show ?thesis using assms(2)
    by (auto simp: ss_reports_def ss_run_after_def Let_def last_report_ok_def legal_simps split: if_splits)
next
  case (stop ev o2)
  then show ?thesis using assms(2) by (auto simp: ss_reports_def ss_stop_def)
next
  case (top ev o2 pc)
  then show ?thesis using assms(2)
    by (auto simp: ss_reports_def ss_run_top_def last_report_ok_def legal_simps split: if_splits)
qed (use assms(2) in \<open>auto simp: ss_reports_def ss_start_def ss_stop_def ss_run_once_begin_def
      ss_run_once_end_def ss_run_wake_def ss_handle_done_def last_report_ok_def legal_simps split: if_splits\<close>)

interpretation ss: stream_machine ss_initial "\<lambda>s s'. \<exists>a. ss_step a s s'" ss_inv "\<lambda>s. states_of (sy_log s)"
proof unfold_locales
  fix s :: "('a, 'b) ss_sys"
  assume "ss_initial s"
  then show "ss_inv s \<and> states_of (sy_log s) = []"
    by (auto simp: ss_initial_def ss_inv_def ss_control_def ss_reports_def ss_data_def
        new_server_stream_def last_report_ok_def)
next
  fix s s' :: "('a, 'b) ss_sys"
  assume s: "ss_inv s" "\<exists>a. ss_step a s s'"
  then obtain a where a: "ss_step a s s'" by blast
  have parts: "ss_control s" "ss_reports s" "ss_data s" using s(1) by (simp_all add: ss_inv_def)
  show "ss_inv s'"
    using ss_step_control [OF parts(1) a] ss_step_data [OF parts(3) a] ss_step_reports [OF parts(1,2) a]
    by (simp add: ss_inv_def)
  show "states_of (sy_log s') = states_of (sy_log s)
    \<or> (\<exists>n. legal_next (states_of (sy_log s)) n \<and> states_of (sy_log s') = n # states_of (sy_log s))"
    using ss_step_reports [OF parts(1,2) a] by simp
qed


section \<open>Properties\<close>

lemma reported_errors:
  "ss.reach s \<Longrightarrow> Notify st e \<in> set (sy_log s) \<Longrightarrow> (e \<noteq> None \<longleftrightarrow> st = disconnected)"
proof (induction rule: ss.reach.induct)
  case (reach_init s)
  then show ?case by (simp add: ss_initial_def)
next
  case (reach_step s s')
  then obtain a where "ss_step a s s'" by blast
  then show ?case
    using reach_step.IH reach_step.prems
    by cases (auto simp: ss_ops ss_notify_def split: if_splits)
qed

text \<open>A sample run: a stream of numbers in which zero is a ping, up to its first two messages.\<close>

definition demo_stream :: "(int, int) server_stream" where
  "demo_stream = snd (make_trades_stream (\<lambda>r. r = 0) 7 True True default_stream_options)"

definition demo_sys :: "(int, int) ss_sys" where
  "demo_sys =
     \<lparr>sy_obj = demo_stream\<lparr>ss_ctx := True, ss_got_data := True\<rparr>, sy_pc = Streaming, sy_attempt = 0,
      sy_live = True, sy_reading = True,
      sy_log = [Data 5, Notify connected None,
        StartStream (''OrdersStreamService'', ''TradesStream'') 7, Notify connecting None],
      sy_received = [5, 0], sy_cancelled = False\<rparr>"

lemmas demo_stream_simps = demo_stream_def make_trades_stream_def make_stream_def ss_start_def
  set_ping_filter_def new_server_stream_def default_stream_options_def

lemma demo_reach: "ss.reach demo_sys"
proof -
  let ?o0 = "(new_server_stream (''OrdersStreamService'', ''TradesStream'') (7 :: int) True True
      default_stream_options)\<lparr>ss_is_ping := Some (\<lambda>r. r = (0 :: int))\<rparr>"
  let ?s0 = "\<lparr>sy_obj = ?o0, sy_pc = Detached, sy_attempt = 0, sy_live = False, sy_reading = False,
      sy_log = [], sy_received = [], sy_cancelled = False\<rparr>"
  let ?s1 = "?s0\<lparr>sy_obj := demo_stream, sy_pc := LoopTop\<rparr>"
  let ?s2 = "?s1\<lparr>sy_pc := Connecting, sy_log := [Notify connecting None]\<rparr>"
  let ?s3 = "?s2\<lparr>sy_obj := demo_stream\<lparr>ss_ctx := True\<rparr>, sy_pc := Streaming, sy_live := True, sy_reading := True,
      sy_log := StartStream (''OrdersStreamService'', ''TradesStream'') 7 # sy_log ?s2\<rparr>"
  let ?s4 = "?s3\<lparr>sy_obj := demo_stream\<lparr>ss_ctx := True, ss_got_data := True\<rparr>,
      sy_log := Notify connected None # sy_log ?s3, sy_received := [0]\<rparr>"
  have "ss_initial ?s0"
    unfolding ss_initial_def ss_sys.simps by (intro conjI exI, rule refl) simp_all
  then have 0: "ss.reach ?s0" by (rule ss.reach_init)
  have "ss_step User ?s0 ?s1"
    using ss_step.start [of ?s0 demo_stream] by (simp add: demo_stream_simps)
  with 0 have 1: "ss.reach ?s1" by (blast intro: ss.reach_step)
  have "ss_step Worker ?s1 ?s2"
    using ss_step.top [of ?s1 "[Notify connecting None]" demo_stream Connecting]
    by (simp add: demo_stream_simps ss_run_top_def ss_notify_def)
  with 1 have 2: "ss.reach ?s2" by (blast intro: ss.reach_step)
  have "ss_step Worker ?s2 ?s3"
    using ss_step.once_begin [of ?s2 "[StartStream (''OrdersStreamService'', ''TradesStream'') 7]"
        "demo_stream\<lparr>ss_ctx := True\<rparr>"]
    by (simp add: demo_stream_simps ss_run_once_begin_def)
  with 2 have 3: "ss.reach ?s3" by (blast intro: ss.reach_step)
  have "ss_step Delivery ?s3 ?s4"
    using ss_step.read_ok [of ?s3 0 "[Notify connected None]" "demo_stream\<lparr>ss_ctx := True, ss_got_data := True\<rparr>"]
    by (simp add: demo_stream_simps ss_handle_data_def ss_notify_def)
  with 3 have 4: "ss.reach ?s4" by (blast intro: ss.reach_step)
  have "ss_step Delivery ?s4 demo_sys"
    using ss_step.read_ok [of ?s4 5 "[Data 5]" "demo_stream\<lparr>ss_ctx := True, ss_got_data := True\<rparr>"]
    by (simp add: demo_sys_def demo_stream_simps ss_handle_data_def)
  with 4 show ?thesis by (blast intro: ss.reach_step)
qed

text \<open>
  As long as there is one worker at a time, the state callback of a server
  stream sees a conforming sequence: \<^verbatim>\<open>connected\<close> only right after \<^verbatim>\<open>connecting\<close>,
  \<^verbatim>\<open>disconnected\<close> only after one of these, \<^verbatim>\<open>connecting\<close> only at the beginning or after
  \<^verbatim>\<open>disconnected\<close> or \<^verbatim>\<open>stopped\<close>; an error is attached exactly to \<^verbatim>\<open>disconnected\<close>.
\<close>

lemma server_stream_protocol:
  assumes "ss.reach s"
  shows "protocol (states_of (sy_log s))
    \<and> (\<forall>st e. Notify st e \<in> set (sy_log s) \<longrightarrow> (e \<noteq> None \<longleftrightarrow> st = disconnected))"
  using ss.reach_protocol [OF assms] reported_errors [OF assms] by blast

text \<open>
  C7: the data callback of a server stream receives exactly the messages that arrived and are not
  pings, in the order of their arrival, across all reconnections.
\<close>

theorem server_stream_delivers:
  assumes "ss.reach s" "ss_on_data (sy_obj s)"
  shows "rev (data_of (sy_log s)) = filter (\<lambda>r. \<not> is_ping_msg (sy_obj s) r) (rev (sy_received s))"
  using ss.reach_inv [OF assms(1)] assms(2) by (simp add: ss_inv_def ss_data_def rev_filter)

theorem server_stream_delivers_witness:
  "rev (data_of (sy_log demo_sys)) = [5] \<and> sy_received demo_sys = [5, 0]"
  using server_stream_delivers [OF demo_reach]
  by (simp add: demo_sys_def demo_stream_simps is_ping_msg_def)

text \<open>How far a stopping worker is from its end.\<close>

fun pc_rank :: "worker_pc \<Rightarrow> nat" where
  "pc_rank Detached = 0"
| "pc_rank Finished = 0"
| "pc_rank Leaving = 1"
| "pc_rank LoopTop = 2"
| "pc_rank (Returned_from_run_once st) = 2"
| "pc_rank (Backoff d) = 2"
| "pc_rank Connecting = 3"
| "pc_rank Streaming = 3"

definition ss_rank :: "('q, 'r) ss_sys \<Rightarrow> nat" where
  "ss_rank s = pc_rank (sy_pc s) + (if sy_live s then 1 else 0) + (if sy_reading s then 1 else 0)"

lemma stopping_step_decreases:
  assumes "ss_control s" "ss_stopping (sy_obj s)" "ss_step a s s'" "a = Worker \<or> a = Completion"
  shows "ss_rank s' < ss_rank s"
  using assms(3,4,1,2)
  by cases (auto simp: ss_rank_def ss_control_def ss_ops split: if_splits)

text \<open>
  The steps that are bound to come: those of the worker, and the completions by gRPC of a call that
  has been cancelled. Before that the server decides when a read or the call ends.
\<close>

definition ss_winding :: "('req, 'resp) ss_sys \<Rightarrow> ('req, 'resp) ss_sys \<Rightarrow> bool" where
  "ss_winding s s' \<longleftrightarrow> ss_step Worker s s' \<or> sy_cancelled s \<and> ss_step Completion s s'"

lemma unfinished_can_step:
  assumes "ss_control s" "ss_stopping (sy_obj s)" "sy_pc s \<noteq> Detached" "sy_pc s \<noteq> Finished"
  shows "\<exists>s'. ss_winding s s'"
proof (cases "sy_pc s = Streaming \<and> sy_live s")
  case True
  then have "sy_cancelled s" using assms(1,2) by (simp add: ss_control_def)
  then show ?thesis using True ss_step.read_end [of s] ss_step.completed [of s] unfolding ss_winding_def by metis
next
  case False
  have "\<exists>s'. ss_step Worker s s'"
  proof (cases "sy_pc s")
    case LoopTop
    then show ?thesis using ss_step.top [OF LoopTop] by (metis prod_cases3)
  next
    case Connecting
    obtain ev o2 pc where r: "ss_run_once_begin (sy_obj s) = (ev, o2, pc)" using prod_cases3 by blast
    then show ?thesis
      using ss_step.once_cancelled [OF Connecting r] ss_step.once_begin [OF Connecting, of ev o2] r by metis
  next
    case Streaming
    then have "ss_done (sy_obj s)" using assms(1) False by (simp add: ss_control_def)
    then show ?thesis using ss_step.once_end [OF Streaming] by (metis surj_pair)
  next
    case (Returned_from_run_once st)
    then show ?thesis using ss_step.after by (metis prod_cases3)
  next
    case (Backoff d)
    then show ?thesis using ss_step.wake by metis
  next
    case Leaving
    then show ?thesis using ss_step.leave by metis
  qed (use assms in auto)
  then show ?thesis by (auto simp: ss_winding_def)
qed

text \<open>No step at all of a stopping stream that has not finished leads away from the end.\<close>

lemma stopping_any_step:
  assumes "ss_control s" "ss_stopping (sy_obj s)" "sy_pc s \<noteq> Detached" "sy_pc s \<noteq> Finished" "ss_step a s s'"
  shows "ss_stopping (sy_obj s') \<and> ss_rank s' \<le> ss_rank s"
proof -
  have "ss_stopping (sy_obj s')" using assms(5,2-4) by cases (auto simp: ss_ops split: if_splits)
  moreover have "ss_rank s' \<le> ss_rank s"
  proof (cases "a = Worker \<or> a = Completion")
    case False
    with assms(5,3,4) show ?thesis by cases (auto simp: ss_rank_def)
  qed (use stopping_step_decreases [OF assms(1,2,5)] in auto)
  ultimately show ?thesis by simp
qed

interpretation ss_stop: stoppable_among ss.reach ss_winding "\<lambda>s. ss_stopping (sy_obj s)"
  "\<lambda>s. sy_pc s \<in> {Detached, Finished}" "measure ss_rank" "\<lambda>s s'. \<exists>a. ss_step a s s'"
proof
  show "ss.reach s'" if "ss.reach s" "ss_winding s s'" for s s' :: "('a, 'b) ss_sys"
    using that ss.reach_step by (auto simp: ss_winding_def)
  show "ss.reach s'" if "ss.reach s" "\<exists>a. ss_step a s s'" for s s' :: "('a, 'b) ss_sys"
    using ss.reach_step that .
  fix s :: "('a, 'b) ss_sys" assume r: "ss.reach s" and st: "ss_stopping (sy_obj s)"
  have c: "ss_control s" using ss.reach_inv [OF r] by (simp add: ss_inv_def)
  have "ss_stopping (sy_obj s')" if "ss_step a s s'" "a \<in> {Worker, Completion}" for a s'
    using that st by cases (auto simp: ss_ops split: if_splits)
  then show "ss_stopping (sy_obj s') \<and> (s', s) \<in> measure ss_rank" if "ss_winding s s'" for s'
    using that stopping_step_decreases [OF c st] by (auto simp: ss_winding_def)
  show "\<exists>s'. ss_winding s s'" if "sy_pc s \<notin> {Detached, Finished}"
    using that unfinished_can_step [OF c st] by auto
  show "ss_stopping (sy_obj s') \<and> (\<forall>t. (t, s') \<in> measure ss_rank \<longrightarrow> (t, s) \<in> measure ss_rank)"
    if "sy_pc s \<notin> {Detached, Finished}" "\<exists>a. ss_step a s s'" for s'
    using that stopping_any_step [OF c st] by fastforce
qed simp

text \<open>
  C21: a stopped server stream winds down because \<^verbatim>\<open>stop\<close> cancels the call. Count on the steps of the
  worker, and on gRPC's completions only once \<^verbatim>\<open>TryCancel\<close> was called, as the server may keep an
  idle stream open for ever: these steps alone, in whatever order, cannot go on for ever, they
  do not cease before the worker has finished, and they lead there, so that the join of \<^verbatim>\<open>stop\<close> returns.
  Messages that still arrive and other users' calls do not keep it away either: an endless run of steps of
  all kinds passes through the end of the worker unless, from some point on, such a step is owed and never
  comes. (One worker: a \<^verbatim>\<open>start\<close> that overtakes the join is another matter.)
\<close>

theorem stop_winds_down:
  assumes "ss.reach s" "ss_stopping (sy_obj s)"
  shows "(\<nexists>f. f 0 = s \<and> (\<forall>i. ss_winding (f i) (f (Suc i))))
    \<and> (\<forall>s'. ss_winding\<^sup>*\<^sup>* s s' \<longrightarrow> (\<nexists>t. ss_winding s' t) \<longrightarrow> sy_pc s' \<in> {Detached, Finished})
    \<and> (\<exists>s'. ss_winding\<^sup>*\<^sup>* s s' \<and> sy_pc s' \<in> {Detached, Finished})
    \<and> (\<forall>f. f 0 = s \<longrightarrow> (\<forall>i. \<exists>a. ss_step a (f i) (f (Suc i))) \<longrightarrow>
         (\<exists>i. sy_pc (f i) \<in> {Detached, Finished})
         \<or> (\<exists>n. \<forall>i\<ge>n. (\<exists>t. ss_winding (f i) t) \<and> \<not> ss_winding (f i) (f (Suc i))))"
  using ss_stop.winds_down ss_stop.finished_or_starved assms by blast

definition demo_stopped :: "(int, int) ss_sys" where
  "demo_stopped = demo_sys\<lparr>sy_obj := (sy_obj demo_sys)\<lparr>ss_stopping := True, ss_joinable := False\<rparr>,
     sy_log := TryCancel # sy_log demo_sys, sy_cancelled := True\<rparr>"

theorem stop_winds_down_witness:
  "\<exists>s'. ss_winding\<^sup>*\<^sup>* demo_stopped s' \<and> sy_pc s' \<in> {Detached, Finished}"
proof -
  have "ss_step User demo_sys demo_stopped"
    using ss_step.stop [of demo_sys "[TryCancel]"] by (simp add: ss_stop_def demo_stopped_def demo_sys_def)
  then have r: "ss.reach demo_stopped" using demo_reach by (blast intro: ss.reach_step)
  have "ss_stopping (sy_obj demo_stopped)" by (simp add: demo_stopped_def demo_sys_def)
  then show ?thesis using stop_winds_down [OF r] by blast
qed

end
