(* ===== verification/Server_Restart.thy ===== *)
theory Server_Restart
  imports Server_Stream
begin

text \<open>
  \<^verbatim>\<open>ServerStream\<close> with any number of workers: as in the market data stream, \<^verbatim>\<open>stop\<close> moves the thread out
  of the object under the lock and joins it afterwards, and a \<^verbatim>\<open>start\<close> in between launches a second
  worker. Each worker has its own context and reactor, local variables of \<^verbatim>\<open>run_once\<close>, and its own call;
  \<^verbatim>\<open>ctx_\<close>, \<^verbatim>\<open>done_\<close>, \<^verbatim>\<open>status_\<close>, \<^verbatim>\<open>stopping_\<close> and \<^verbatim>\<open>got_data_\<close> are shared. The regions are
  the functions of \<open>Server_Stream\<close>, the machine is a function of the sequence of actions.

  Shown: as long as every \<^verbatim>\<open>start\<close> finds the earlier workers finished, what the user sees is what the
  machine with one worker shows; without that, a worker can leave its call behind, and
  a stream can outlive its stop.
\<close>

section \<open>The machine\<close>

record sr_worker =
  sw_pc :: worker_pc
  sw_attempt :: nat
  sw_live :: bool
  sw_reading :: bool
  sw_cancelled :: bool

definition no_sw :: sr_worker where
  "no_sw = \<lparr>sw_pc = Detached, sw_attempt = 0, sw_live = False, sw_reading = False, sw_cancelled = False\<rparr>"

text \<open>\<open>sr_target\<close>: the worker whose context \<^verbatim>\<open>ctx_\<close> points to.\<close>

record ('q, 'r) sr_sys =
  sr_obj :: "('q, 'r) server_stream"
  sr_target :: "nat option"
  sr_work :: "nat \<Rightarrow> sr_worker"
  sr_count :: nat
  sr_log :: "('q, 'r) stream_event list"
  sr_received :: "'r list"

definition sr_init :: "('q, 'r) server_stream \<Rightarrow> ('q, 'r) sr_sys" where
  "sr_init o1 = \<lparr>sr_obj = o1, sr_target = None, sr_work = (\<lambda>_. no_sw), sr_count = 0, sr_log = [], sr_received = []\<rparr>"

definition sr_set :: "nat \<Rightarrow> sr_worker \<Rightarrow> ('q, 'r) sr_sys \<Rightarrow> ('q, 'r) sr_sys" where
  "sr_set i k s = s\<lparr>sr_work := (sr_work s)(i := k)\<rparr>"

definition sr_cancel :: "('q, 'r) sr_sys \<Rightarrow> ('q, 'r) sr_sys" where
  "sr_cancel s = (case sr_target s of None \<Rightarrow> s | Some j \<Rightarrow> sr_set j ((sr_work s j)\<lparr>sw_cancelled := True\<rparr>) s)"

datatype 'r sr_action =
    SStart | SStop
  | STop nat | SBegin nat | SOnceEnd nat | SAfter nat | SWake nat | SLeave nat
  | SReadOk nat 'r | SReadEnd nat | SDone nat grpc_status

fun sr_exec :: "'r sr_action \<Rightarrow> ('q, 'r) sr_sys \<Rightarrow> ('q, 'r) sr_sys option" where
  "sr_exec SStart s = (case ss_start (sr_obj s) of (launched, o2) \<Rightarrow>
     if launched
     then Some ((sr_set (sr_count s) (no_sw\<lparr>sw_pc := LoopTop\<rparr>) s)\<lparr>sr_obj := o2, sr_count := Suc (sr_count s)\<rparr>)
     else Some s)"
| "sr_exec SStop s = (case ss_stop (sr_obj s) of (ev, o2) \<Rightarrow>
     Some ((if ev = [] then s else sr_cancel s)\<lparr>sr_obj := o2, sr_log := ev @ sr_log s\<rparr>))"
| "sr_exec (STop i) s = (let k = sr_work s i in
     if sw_pc k = LoopTop
     then (case ss_run_top (sr_obj s) of (ev, o2, pc) \<Rightarrow>
       Some ((sr_set i (k\<lparr>sw_pc := pc\<rparr>) s)\<lparr>sr_obj := o2, sr_log := ev @ sr_log s\<rparr>))
     else None)"
| "sr_exec (SBegin i) s = (let k = sr_work s i in
     if sw_pc k = Connecting
     then (case ss_run_once_begin (sr_obj s) of (ev, o2, pc) \<Rightarrow>
       if pc = Streaming
       then Some ((sr_set i (k\<lparr>sw_pc := pc, sw_live := True, sw_reading := True, sw_cancelled := False\<rparr>) s)
              \<lparr>sr_obj := o2, sr_target := Some i, sr_log := ev @ sr_log s\<rparr>)
       else Some ((sr_set i (k\<lparr>sw_pc := pc\<rparr>) s)\<lparr>sr_obj := o2\<rparr>))
     else None)"
| "sr_exec (SOnceEnd i) s = (let k = sr_work s i in
     if sw_pc k = Streaming \<and> ss_done (sr_obj s)
     then (case ss_run_once_end (sr_obj s) of (o2, pc) \<Rightarrow>
       Some ((sr_set i (k\<lparr>sw_pc := pc\<rparr>) s)\<lparr>sr_obj := o2, sr_target := None\<rparr>))
     else None)"
| "sr_exec (SAfter i) s = (let k = sr_work s i in
     case sw_pc k of
       Returned_from_run_once st \<Rightarrow> (case ss_run_after (sw_attempt k) st (sr_obj s) of (ev, att, pc) \<Rightarrow>
         Some ((sr_set i (k\<lparr>sw_pc := pc, sw_attempt := att\<rparr>) s)\<lparr>sr_log := ev @ sr_log s\<rparr>))
     | _ \<Rightarrow> None)"
| "sr_exec (SWake i) s = (let k = sr_work s i in
     case sw_pc k of Backoff d \<Rightarrow> Some (sr_set i (k\<lparr>sw_pc := ss_run_wake (sr_obj s)\<rparr>) s) | _ \<Rightarrow> None)"
| "sr_exec (SLeave i) s = (let k = sr_work s i in
     if sw_pc k = Leaving
     then Some ((sr_set i (k\<lparr>sw_pc := Finished\<rparr>) s)\<lparr>sr_log := ss_notify stopped None (sr_obj s) @ sr_log s\<rparr>)
     else None)"
| "sr_exec (SReadOk i r) s =
     (if sw_reading (sr_work s i)
      then (case ss_handle_data r (sr_obj s) of (ev, o2) \<Rightarrow>
        Some (s\<lparr>sr_obj := o2, sr_log := rev ev @ sr_log s, sr_received := r # sr_received s\<rparr>))
      else None)"
| "sr_exec (SReadEnd i) s = (let k = sr_work s i in
     if sw_reading k then Some (sr_set i (k\<lparr>sw_reading := False\<rparr>) s) else None)"
| "sr_exec (SDone i st) s = (let k = sr_work s i in
     if sw_live k \<and> \<not> sw_reading k
     then Some ((sr_set i (k\<lparr>sw_live := False\<rparr>) s)\<lparr>sr_obj := ss_handle_done st (sr_obj s)\<rparr>)
     else None)"

text \<open>A start that launches a worker finds all earlier ones finished.\<close>

definition sr_joined :: "('q, 'r) sr_sys \<Rightarrow> bool" where
  "sr_joined s \<longleftrightarrow> list_all (\<lambda>i. sw_pc (sr_work s i) = Finished) [0..<sr_count s]"

definition sr_start_ok :: "'r sr_action \<Rightarrow> ('q, 'r) sr_sys \<Rightarrow> bool" where
  "sr_start_ok a s \<longleftrightarrow> (case a of SStart \<Rightarrow> ss_joinable (sr_obj s) \<or> sr_joined s | _ \<Rightarrow> True)"

text \<open>A worker that is past \<^verbatim>\<open>run_once\<close> has destroyed its context and its reactor.\<close>

definition sr_dangling :: "('q, 'r) sr_sys \<Rightarrow> nat \<Rightarrow> bool" where
  "sr_dangling s i \<longleftrightarrow> sw_live (sr_work s i) \<and> sw_pc (sr_work s i) \<noteq> Streaming"

section \<open>Starting only after the join\<close>

definition sr_cur :: "('q, 'r) sr_sys \<Rightarrow> nat" where
  "sr_cur s = sr_count s - 1"

definition sr_gone :: "sr_worker \<Rightarrow> bool" where
  "sr_gone k \<longleftrightarrow> sw_pc k \<in> {Detached, Finished} \<and> \<not> sw_live k \<and> \<not> sw_reading k"

definition sr_same :: "sr_worker \<Rightarrow> ('q, 'r) ss_sys \<Rightarrow> bool" where
  "sr_same k y \<longleftrightarrow> sw_pc k = sy_pc y \<and> sw_attempt k = sy_attempt y \<and> sw_live k = sy_live y \<and> sw_reading k = sy_reading y
     \<and> (sy_live y \<and> ss_stopping (sy_obj y) \<longrightarrow> sw_cancelled k)"

definition sr_sim :: "('q, 'r) sr_sys \<Rightarrow> ('q, 'r) ss_sys \<Rightarrow> bool" where
  "sr_sim s y \<longleftrightarrow> sr_obj s = sy_obj y \<and> sr_log s = sy_log y \<and> sr_received s = sy_received y
     \<and> sr_same (sr_work s (sr_cur s)) y \<and> (\<forall>i. i \<noteq> sr_cur s \<longrightarrow> sr_gone (sr_work s i))
     \<and> (ss_ctx (sy_obj y) \<longrightarrow> sr_target s = Some (sr_cur s))
     \<and> (sr_count s = 0 \<longrightarrow> sy_pc y = Detached)"

lemma sr_sim_init:
  assumes "o1 = (new_server_stream rpc req d n opts)\<lparr>ss_is_ping := f\<rparr>"
  shows "\<exists>y. ss.reach y \<and> sr_sim (sr_init o1) y"
proof -
  let ?y = "\<lparr>sy_obj = o1, sy_pc = Detached, sy_attempt = 0, sy_live = False, sy_reading = False, sy_log = [], sy_received = [], sy_cancelled = False\<rparr>"
  have "ss_initial ?y" unfolding ss_initial_def ss_sys.simps assms by (intro conjI exI, rule refl) simp_all
  moreover have "sr_sim (sr_init o1) ?y"
    using assms by (simp add: sr_sim_def sr_init_def sr_same_def sr_gone_def no_sw_def sr_cur_def new_server_stream_def)
  ultimately show ?thesis using ss.reach_init by blast
qed

lemma sr_simD:
  assumes "sr_sim s y"
  shows "sr_obj s = sy_obj y" "sr_log s = sy_log y" "sr_received s = sy_received y"
    and "sr_same (sr_work s (sr_cur s)) y" "i \<noteq> sr_cur s \<Longrightarrow> sr_gone (sr_work s i)"
  using assms by (simp_all add: sr_sim_def)

lemma sr_sim_current:
  assumes "sr_sim s y" "ss_control y" "\<not> sr_gone (sr_work s i)"
  shows "i = sr_cur s" "sr_same (sr_work s i) y" "sy_pc y \<notin> {Detached, Finished}" "sr_count s \<noteq> 0"
proof -
  show i: "i = sr_cur s" using assms sr_simD(5) by blast
  then show same: "sr_same (sr_work s i) y" using sr_simD(4) [OF assms(1)] by simp
  then show pc: "sy_pc y \<notin> {Detached, Finished}"
    using assms(2,3) by (auto simp: sr_same_def sr_gone_def ss_control_def)
  then show "sr_count s \<noteq> 0" using assms(1) by (auto simp: sr_sim_def)
qed

text \<open>An action of the current worker or of its call, on both sides.\<close>

lemma sr_sim_update:
  assumes "sr_sim s y" "ss_control y" "\<not> sr_gone (sr_work s i)"
    and "sr_work s' = (sr_work s)(i := k)" "sr_count s' = sr_count s"
    and "sr_obj s' = sy_obj y'" "sr_log s' = sy_log y'" "sr_received s' = sy_received y'"
    and "sr_same k y'" "ss_ctx (sy_obj y') \<Longrightarrow> sr_target s' = Some i"
  shows "sr_sim s' y'"
  using assms(1,4-) sr_sim_current [OF assms(1-3)] by (simp add: sr_sim_def sr_cur_def)

lemma sr_sim_worker:
  assumes sim: "sr_sim s y" and ctl: "ss_control y" and exec: "sr_exec a s = Some s'"
    and a: "a \<in> {STop i, SBegin i, SOnceEnd i, SAfter i, SWake i, SLeave i}"
  shows "\<exists>y'. ss_step Worker y y' \<and> sr_sim s' y'"
proof -
  let ?k = "sr_work s i"
  have gone: "\<not> sr_gone ?k" using a exec by (auto simp: sr_gone_def Let_def split: if_splits worker_pc.splits)
  note cur = sr_sim_current [OF sim ctl gone] and upd = sr_sim_update [OF sim ctl gone] and view = sr_simD(1-3) [OF sim]
  have t: "sr_target s = Some i" if "ss_ctx (sy_obj y)" using sim that cur(1) by (simp add: sr_sim_def)
  note [simp] = view t sr_set_def
  have same: "sy_pc y = sw_pc ?k" "sy_attempt y = sw_attempt ?k" using cur(2) by (simp_all add: sr_same_def)
  show ?thesis
  proof (cases "sw_pc ?k")
    case LoopTop
    obtain ev o2 pc where r: "ss_run_top (sy_obj y) = (ev, o2, pc)" by (metis prod_cases3)
    let ?y = "y\<lparr>sy_obj := o2, sy_pc := pc, sy_log := ev @ sy_log y\<rparr>"
    have "a = STop i" using a exec LoopTop by auto
    then have "sr_sim s' ?y"
      using exec r LoopTop cur(2)
      by (intro upd [where k = "?k\<lparr>sw_pc := pc\<rparr>"]) (auto simp: sr_same_def ss_run_top_def split: if_splits)
    then show ?thesis using ss_step.top [OF _ r] same LoopTop by auto
  next
    case Connecting
    obtain ev o2 pc where r: "ss_run_once_begin (sy_obj y) = (ev, o2, pc)" by (metis prod_cases3)
    have a': "a = SBegin i" using a exec Connecting by auto
    show ?thesis
    proof (cases "pc = Streaming")
      case True
      let ?y = "y\<lparr>sy_obj := o2, sy_pc := Streaming, sy_live := True, sy_reading := True, sy_cancelled := False,
        sy_log := ev @ sy_log y\<rparr>"
      have "sr_sim s' ?y"
        using a' exec r Connecting cur(2) True
        by (intro upd [where k = "?k\<lparr>sw_pc := Streaming, sw_live := True, sw_reading := True, sw_cancelled := False\<rparr>"])
          (auto simp: sr_same_def ss_run_once_begin_def split: if_splits)
      then show ?thesis using ss_step.once_begin [of y ev o2] r same Connecting True by auto
    next
      case False
      let ?y = "y\<lparr>sy_obj := o2, sy_pc := pc\<rparr>"
      have "sr_sim s' ?y"
        using a' exec r Connecting cur(2) False
        by (intro upd [where k = "?k\<lparr>sw_pc := pc\<rparr>"]) (auto simp: sr_same_def ss_run_once_begin_def split: if_splits)
      then show ?thesis using ss_step.once_cancelled [OF _ r False] same Connecting by auto
    qed
  next
    case Streaming
    obtain o2 pc where r: "ss_run_once_end (sy_obj y) = (o2, pc)" by (metis surj_pair)
    let ?y = "y\<lparr>sy_obj := o2, sy_pc := pc\<rparr>"
    have "a = SOnceEnd i" using a exec Streaming by auto
    then have "ss_done (sy_obj y)" and "sr_sim s' ?y"
      using exec r Streaming cur(2)
      by (auto simp: sr_same_def ss_run_once_end_def split: if_splits intro!: upd [where k = "?k\<lparr>sw_pc := pc\<rparr>"])
    then show ?thesis using ss_step.once_end [OF _ _ r] same Streaming by auto
  next
    case (Returned_from_run_once st)
    obtain ev att pc where r: "ss_run_after (sy_attempt y) st (sy_obj y) = (ev, att, pc)" by (metis prod_cases3)
    let ?y = "y\<lparr>sy_pc := pc, sy_attempt := att, sy_log := ev @ sy_log y\<rparr>"
    have "a = SAfter i" using a exec Returned_from_run_once by auto
    then have "sr_sim s' ?y"
      using exec r Returned_from_run_once cur(2) same(2)
      by (intro upd [where k = "?k\<lparr>sw_pc := pc, sw_attempt := att\<rparr>"]) (auto simp: sr_same_def)
    then show ?thesis using ss_step.after [OF _ r] same Returned_from_run_once by auto
  next
    case (Backoff d)
    let ?y = "y\<lparr>sy_pc := ss_run_wake (sy_obj y)\<rparr>"
    have "a = SWake i" using a exec Backoff by auto
    then have "sr_sim s' ?y"
      using exec Backoff cur(2) by (intro upd [where k = "?k\<lparr>sw_pc := ss_run_wake (sy_obj y)\<rparr>"]) (auto simp: sr_same_def)
    then show ?thesis using ss_step.wake [of y d] same Backoff by auto
  next
    case Leaving
    let ?y = "y\<lparr>sy_pc := Finished, sy_log := ss_notify stopped None (sy_obj y) @ sy_log y\<rparr>"
    have "a = SLeave i" using a exec Leaving by auto
    then have "sr_sim s' ?y"
      using exec Leaving cur(2) by (intro upd [where k = "?k\<lparr>sw_pc := Finished\<rparr>"]) (auto simp: sr_same_def)
    then show ?thesis using ss_step.leave [of y] same Leaving by auto
  qed (use a exec in auto)
qed

lemma sr_sim_call:
  assumes sim: "sr_sim s y" and ctl: "ss_control y" and exec: "sr_exec a s = Some s'"
    and a: "a \<in> {SReadOk i r, SReadEnd i, SDone i st}"
  shows "\<exists>b y'. ss_step b y y' \<and> sr_sim s' y'"
proof -
  let ?k = "sr_work s i"
  have gone: "\<not> sr_gone ?k" using a exec by (auto simp: sr_gone_def Let_def split: if_splits)
  note cur = sr_sim_current [OF sim ctl gone] and upd = sr_sim_update [OF sim ctl gone] and view = sr_simD(1-3) [OF sim]
  have t: "sr_target s = Some i" if "ss_ctx (sy_obj y)" using sim that cur(1) by (simp add: sr_sim_def)
  note [simp] = view t sr_set_def
  have same: "sy_live y = sw_live ?k" "sy_reading y = sw_reading ?k" using cur(2) by (simp_all add: sr_same_def)
  from a consider "a = SReadOk i r" | "a = SReadEnd i" | "a = SDone i st" by blast
  then show ?thesis
  proof cases
    case 1
    obtain ev o2 where r: "ss_handle_data r (sy_obj y) = (ev, o2)" by (metis surj_pair)
    let ?y = "y\<lparr>sy_obj := o2, sy_log := rev ev @ sy_log y, sy_received := r # sy_received y\<rparr>"
    have "sy_reading y" "sr_sim s' ?y"
      using 1 exec r cur(2) same handle_data_effect(1) [OF r]
      by (auto simp: sr_same_def split: if_splits intro!: upd [where k = ?k])
    then show ?thesis using ss_step.read_ok [OF _ r] by blast
  next
    case 2
    have "sy_reading y" "sr_sim s' (y\<lparr>sy_reading := False\<rparr>)"
      using 2 exec cur(2) same
      by (auto simp: sr_same_def Let_def split: if_splits intro!: upd [where k = "?k\<lparr>sw_reading := False\<rparr>"])
    then show ?thesis using ss_step.read_end by blast
  next
    case 3
    have "sy_live y" "\<not> sy_reading y" "sr_sim s' (y\<lparr>sy_live := False, sy_obj := ss_handle_done st (sy_obj y)\<rparr>)"
      using 3 exec cur(2) same
      by (auto simp: sr_same_def Let_def ss_handle_done_def split: if_splits intro!: upd [where k = "?k\<lparr>sw_live := False\<rparr>"])
    then show ?thesis using ss_step.completed by blast
  qed
qed

lemma sr_sim_stop:
  assumes sim: "sr_sim s y" and ctl: "ss_control y" and exec: "sr_exec SStop s = Some s'"
  shows "\<exists>y'. ss_step User y y' \<and> sr_sim s' y'"
proof -
  let ?o = "(sy_obj y)\<lparr>ss_stopping := True, ss_joinable := False\<rparr>" and ?ev = "if ss_ctx (sy_obj y) then [TryCancel] else []"
  let ?y = "y\<lparr>sy_obj := ?o, sy_log := ?ev @ sy_log y, sy_cancelled := sy_cancelled y \<or> ss_ctx (sy_obj y)\<rparr>"
  have "ss_step User y ?y" using ss_step.stop [of y ?ev ?o] by (simp add: ss_stop_def split: if_splits)
  moreover have "sr_sim s' ?y"
  proof (cases "ss_ctx (sy_obj y)")
    case True
    then show ?thesis using exec sim
      by (auto simp: ss_stop_def sr_sim_def sr_cancel_def sr_set_def sr_same_def sr_cur_def)
  next
    case False
    then have "\<not> sy_live y" using ctl by (auto simp: ss_control_def)
    then show ?thesis using exec sim False by (auto simp: ss_stop_def sr_sim_def sr_same_def sr_cur_def)
  qed
  ultimately show ?thesis by blast
qed

lemma sr_sim_start:
  assumes sim: "sr_sim s y" and ctl: "ss_control y" and exec: "sr_exec SStart s = Some s'"
    and joined: "ss_joinable (sr_obj s) \<or> sr_joined s"
  shows "\<exists>y'. (y' = y \<or> ss_step User y y') \<and> sr_sim s' y'"
proof (cases "ss_joinable (sr_obj s)")
  case True
  then show ?thesis using exec sim by (intro exI [of _ y]) (simp add: ss_start_def)
next
  case False
  let ?o = "(sy_obj y)\<lparr>ss_stopping := False, ss_joinable := True\<rparr>"
  let ?y = "y\<lparr>sy_obj := ?o, sy_pc := LoopTop, sy_attempt := 0\<rparr>"
  have obj: "sr_obj s = sy_obj y" by (rule sr_simD(1) [OF sim])
  have pc: "sy_pc y = Detached \<or> sy_pc y = Finished"
    using sim joined False by (cases "sr_count s") (auto simp: sr_sim_def sr_joined_def sr_cur_def sr_same_def list_all_iff)
  then have idle: "\<not> sy_live y" "\<not> sy_reading y" "\<not> ss_ctx (sy_obj y)" using ctl by (auto simp: ss_control_def)
  have gone: "sr_gone (sr_work s i)" for i
    using sim idle pc by (cases "i = sr_cur s") (auto simp: sr_sim_def sr_same_def sr_gone_def)
  have "ss_step User y ?y" using ss_step.start [of y ?o] False pc obj by (simp add: ss_start_def)
  moreover have "sr_sim s' ?y"
    using exec False sim gone idle
    by (auto simp: ss_start_def sr_sim_def sr_set_def sr_cur_def sr_same_def no_sw_def)
  ultimately show ?thesis by blast
qed

interpretation sr: action_simulation sr_exec sr_start_ok "\<lambda>y y'. \<exists>b. ss_step b y y'" ss.reach sr_sim
proof
  show "ss.reach y'" if "ss.reach y" "\<exists>b. ss_step b y y'" for y y' :: "('b, 'a) ss_sys"
    using that by (rule ss.reach_step)
  fix s s' :: "('b, 'a) sr_sys" and y and a
  assume sim: "sr_sim s y" and reach: "ss.reach y" and ok: "sr_start_ok a s" and exec: "sr_exec a s = Some s'"
  have ctl: "ss_control y" using ss.reach_inv [OF reach] by (simp add: ss_inv_def)
  note acts = sr_sim_worker [OF sim ctl exec] sr_sim_call [OF sim ctl exec]
  show "\<exists>y'. (y' = y \<or> (\<exists>b. ss_step b y y')) \<and> sr_sim s' y'"
  proof (cases a)
    case SStart
    then show ?thesis using sr_sim_start [OF sim ctl] exec ok by (auto simp: sr_start_ok_def)
  next
    case SStop
    then show ?thesis using sr_sim_stop [OF sim ctl] exec by auto
  qed (use acts in blast)+
qed

lemma sr_sim_safe:
  assumes "ss.reach y" "sr_sim s y"
  shows "\<not> sr_dangling s i \<and> (sw_live (sr_work s i) \<and> ss_stopping (sr_obj s) \<longrightarrow> sw_cancelled (sr_work s i))"
proof (cases "i = sr_cur s")
  case True
  moreover have "ss_control y" using ss.reach_inv [OF assms(1)] by (simp add: ss_inv_def)
  ultimately show ?thesis using assms(2) by (auto simp: sr_sim_def sr_same_def sr_dangling_def ss_control_def)
next
  case False
  then show ?thesis using assms(2) by (auto simp: sr_sim_def sr_gone_def sr_dangling_def)
qed

text \<open>No action changes the callbacks.\<close>

definition sr_callbacks :: "('q, 'r) sr_sys \<Rightarrow> bool \<times> ('r \<Rightarrow> bool) option" where
  "sr_callbacks s = (ss_on_data (sr_obj s), ss_is_ping (sr_obj s))"

lemma sr_exec_callbacks: "sr_exec a s = Some s' \<Longrightarrow> sr_callbacks s' = sr_callbacks s"
  by (cases a) (auto simp: sr_callbacks_def ss_ops sr_set_def sr_cancel_def split: if_splits worker_pc.splits option.splits)

section \<open>Properties\<close>

text \<open>The runs of the two theorems.\<close>

definition server_restart_run :: "'r sr_action list" where
  "server_restart_run =
     [SStart, STop 0, SBegin 0, SStop, SStart, STop 1, SBegin 1, SReadEnd 0, SDone 0 (CANCELLED, []), SOnceEnd 1]"

definition server_overtaken_run :: "'r sr_action list" where
  "server_overtaken_run =
     [SStart, STop 0, SBegin 0, SStop, SStart, SReadEnd 0, SDone 0 (CANCELLED, []), SOnceEnd 0, SAfter 0, SWake 0,
      STop 0, SBegin 0, STop 1, SBegin 1, SStop]"

lemmas sr_ops = sr_set_def sr_cancel_def no_sw_def ss_start_def ss_stop_def ss_run_top_def ss_run_once_begin_def
  ss_run_once_end_def ss_run_after_def ss_run_wake_def ss_handle_done_def set_ping_filter_def new_server_stream_def

text \<open>
  C23: a server stream may be stopped and started again any number of times, when every \<^verbatim>\<open>start\<close> that
  launches a worker comes after the earlier workers have finished. Whatever else is
  interleaved, what the user sees of the object with all its workers is what the machine with one
  worker can show, so the state callback sees a conforming sequence and the data callback
  exactly the messages that are not pings, in order; no context or reactor is destroyed while gRPC still
  uses it; and once the stream is told to stop every call that is still open has been cancelled.
\<close>

theorem server_restart_refines:
  assumes "run_actions sr_exec as (sr_init (set_ping_filter f (new_server_stream rpc req True True opts))) = Some s"
    and "disciplined sr_exec sr_start_ok as (sr_init (set_ping_filter f (new_server_stream rpc req True True opts)))"
  shows "protocol (states_of (sr_log s))
    \<and> rev (data_of (sr_log s)) = filter (\<lambda>r. \<not> f r) (rev (sr_received s))
    \<and> \<not> sr_dangling s i
    \<and> (sw_live (sr_work s i) \<and> ss_stopping (sr_obj s) \<longrightarrow> sw_cancelled (sr_work s i))"
proof -
  let ?o = "set_ping_filter f (new_server_stream rpc req True True opts)"
  obtain y0 where "ss.reach y0" "sr_sim (sr_init ?o) y0"
    using sr_sim_init [of ?o "Some f" rpc req True True opts] by (auto simp: set_ping_filter_def)
  then obtain y where y: "ss.reach y" "sr_sim s y" using sr.run_sim [OF assms] by blast
  have "sr_callbacks s = sr_callbacks (sr_init ?o)" by (rule run_actions_keep [OF assms(1) sr_exec_callbacks])
  then have cb: "ss_on_data (sy_obj y)" "is_ping_msg (sy_obj y) = f"
    using sr_simD(1) [OF y(2)]
    by (auto simp: sr_callbacks_def sr_init_def set_ping_filter_def new_server_stream_def is_ping_msg_def fun_eq_iff)
  have inv: "ss_data y" using ss.reach_inv [OF y(1)] by (simp add: ss_inv_def)
  have "protocol (states_of (sr_log s))" using ss.reach_protocol [OF y(1)] sr_simD(2) [OF y(2)] by simp
  moreover have "rev (data_of (sr_log s)) = filter (\<lambda>r. \<not> f r) (rev (sr_received s))"
    using inv cb sr_simD(2,3) [OF y(2)] by (simp add: ss_data_def rev_filter)
  ultimately show ?thesis using sr_sim_safe [OF y] by blast
qed

theorem server_restart_refines_witness:
  "\<exists>s. run_actions sr_exec [SStart, STop 0, SBegin 0, SReadOk 0 0, SReadOk 0 5, SStop, SReadEnd 0, SDone 0 (CANCELLED, []),
        SOnceEnd 0, SAfter 0, SLeave 0, SStart, STop 1, SBegin 1, SReadOk 1 6, SStop]
      (sr_init (set_ping_filter (\<lambda>r. r = (0 :: int)) (new_server_stream (''S'', ''M'') (7 :: int) True True default_stream_options))) = Some s
    \<and> rev (data_of (sr_log s)) = [5, 6] \<and> sw_cancelled (sr_work s 1)
    \<and> rev (states_of (sr_log s)) = [connecting, connected, stopped, connecting, connected] \<and> protocol (states_of (sr_log s))"
proof -
  let ?as = "[SStart, STop 0, SBegin 0, SReadOk 0 0, SReadOk 0 5, SStop, SReadEnd 0, SDone 0 (CANCELLED, []),
        SOnceEnd 0, SAfter 0, SLeave 0, SStart, STop 1, SBegin 1, SReadOk 1 6, SStop]"
  let ?i = "sr_init (set_ping_filter (\<lambda>r. r = (0 :: int)) (new_server_stream (''S'', ''M'') (7 :: int) True True default_stream_options))"
  note defs = sr_init_def sr_ops sr_joined_def sr_start_ok_def ss_handle_data_def ss_notify_def Let_def
  have ok: "disciplined sr_exec sr_start_ok ?as ?i" by (simp add: defs)
  obtain s where s: "run_actions sr_exec ?as ?i = Some s" "rev (sr_received s) = [0, 5, 6]"
    "sw_live (sr_work s 1)" "ss_stopping (sr_obj s)"
    "rev (states_of (sr_log s)) = [connecting, connected, stopped, connecting, connected]"
    by (simp add: defs)
  show ?thesis using server_restart_refines [OF s(1) ok, of 1] s by auto
qed

text \<open>
  C24: a \<^verbatim>\<open>start\<close> by another thread between the locked region of a \<^verbatim>\<open>stop\<close> and its join breaks a server
  stream. In \<open>server_restart_run\<close> the end of the first worker's call sets the flag that the second
  worker waits for: it destroys its context and its reactor while gRPC still reads into them. In
  \<open>server_overtaken_run\<close> the first worker finds the stop flag cleared and reconnects, so that the \<^verbatim>\<open>stop\<close> that
  joins it waits for a live stream; the user sees two connections being set up at once; and a second
  \<^verbatim>\<open>stop\<close> cancels only the call that connected last, leaving the other open.
\<close>

theorem server_restart_overtakes_stop:
  assumes "so_reconnect opts"
  shows "\<exists>s t. run_actions sr_exec server_restart_run (sr_init (set_ping_filter f (new_server_stream rpc req d True opts))) = Some s
    \<and> sr_dangling s 1 \<and> sw_reading (sr_work s 1)
    \<and> run_actions sr_exec server_overtaken_run (sr_init (set_ping_filter f (new_server_stream rpc req d True opts))) = Some t
    \<and> ss_stopping (sr_obj t) \<and> sw_live (sr_work t 0) \<and> \<not> sw_cancelled (sr_work t 0) \<and> \<not> protocol (states_of (sr_log t))"
  using assms by (simp add: server_restart_run_def server_overtaken_run_def sr_init_def sr_ops sr_dangling_def ss_notify_def Let_def)

theorem server_restart_overtakes_stop_witness:
  "\<exists>t. run_actions sr_exec server_overtaken_run
      (sr_init (set_ping_filter (\<lambda>r. r = (0 :: int)) (new_server_stream (''S'', ''M'') (7 :: int) True True default_stream_options))) = Some t
    \<and> sw_live (sr_work t 0) \<and> \<not> sw_cancelled (sr_work t 0)"
  using server_restart_overtakes_stop [of default_stream_options "\<lambda>r. r = (0 :: int)" "(''S'', ''M'')" "7 :: int" True]
  by (auto simp: default_stream_options_def)

end
