(* ===== verification/Task_Ownership.thy ===== *)
theory Task_Ownership
  imports Coroutines
begin

text \<open>
  The ownership side of \<^verbatim>\<open>Task\<close> (\<^verbatim>\<open>include/tinvest/awaitable.hpp\<close>): a task variable holds a
  coroutine handle or none; it is created by a coroutine call, moved, assigned, awaited and
  destroyed. \<open>task_heap\<close> is the store of frames of \<open>Coroutines\<close> together with the task variables
  in scope; \<open>task_step\<close> has one rule for each operation, guarded by what the language guarantees (a
  variable is constructed once and used only in scope). Destroying a frame that does not exist,
  awaiting through an empty handle and resuming a finished coroutine are undefined.
\<close>

section \<open>Task variables\<close>

record ('v, 'e, 'q, 'r) task_heap =
  th_frames :: "nat \<Rightarrow> ('v, 'e, 'q, 'r) frame option"
  th_next :: nat
  th_vars :: "nat \<Rightarrow> nat option option"

definition empty_task_heap :: "('v, 'e, 'q, 'r) task_heap" where
  "empty_task_heap = \<lparr>th_frames = (\<lambda>_. None), th_next = 0, th_vars = (\<lambda>_. None)\<rparr>"

text \<open>\<^verbatim>\<open>handle_.destroy()\<close>, and its guarded form \<^verbatim>\<open>if (handle_) handle_.destroy()\<close>.\<close>

definition handle_destroy :: "nat \<Rightarrow> ('v, 'e, 'q, 'r) task_heap \<Rightarrow> ('v, 'e, 'q, 'r) task_heap cpp" where
  "handle_destroy h s =
     (case th_frames s h of
        None \<Rightarrow> Inl OutOfRange
      | Some f \<Rightarrow> Inr (s\<lparr>th_frames := (th_frames s)(h := None)\<rparr>))"

definition release :: "nat option \<Rightarrow> ('v, 'e, 'q, 'r) task_heap \<Rightarrow> ('v, 'e, 'q, 'r) task_heap cpp" where
  "release ho s = (case ho of None \<Rightarrow> Inr s | Some h \<Rightarrow> handle_destroy h s)"

text \<open>The handle of a variable in scope.\<close>

definition handle_of :: "nat \<Rightarrow> ('v, 'e, 'q, 'r) task_heap \<Rightarrow> nat option" where
  "handle_of x s = (case th_vars s x of Some ho \<Rightarrow> ho | None \<Rightarrow> None)"

definition task_create :: "nat \<Rightarrow> ('v, 'e, 'q, 'r) co \<Rightarrow> ('v, 'e, 'q, 'r) task_heap \<Rightarrow> ('v, 'e, 'q, 'r) task_heap" where
  "task_create x c s =
     s\<lparr>th_frames := (th_frames s)(th_next s \<mapsto> new_frame c), th_next := th_next s + 1,
       th_vars := (th_vars s)(x \<mapsto> Some (th_next s))\<rparr>"

definition task_move :: "nat \<Rightarrow> nat \<Rightarrow> ('v, 'e, 'q, 'r) task_heap \<Rightarrow> ('v, 'e, 'q, 'r) task_heap" where
  "task_move x y s = s\<lparr>th_vars := (th_vars s)(x \<mapsto> handle_of y s, y \<mapsto> None)\<rparr>"

definition task_assign :: "nat \<Rightarrow> nat \<Rightarrow> ('v, 'e, 'q, 'r) task_heap \<Rightarrow> ('v, 'e, 'q, 'r) task_heap cpp" where
  "task_assign x y s =
     (if x \<noteq> y
      then cbind (release (handle_of x s) s)
             (\<lambda>s1. Inr (s1\<lparr>th_vars := (th_vars s1)(x \<mapsto> handle_of y s1, y \<mapsto> None)\<rparr>))
      else Inr s)"

definition task_drop :: "nat \<Rightarrow> ('v, 'e, 'q, 'r) task_heap \<Rightarrow> ('v, 'e, 'q, 'r) task_heap cpp" where
  "task_drop x s =
     cbind (release (handle_of x s) s) (\<lambda>s1. Inr (s1\<lparr>th_vars := (th_vars s1)(x := None)\<rparr>))"

text \<open>
  \<^verbatim>\<open>co_await std::move(t)\<close>: the awaiter copies the handle without owning it; the child runs to
  its end with some outcome (\<open>Coroutines\<close> says which).
\<close>

definition task_await :: "nat \<Rightarrow> 'e + 'v \<Rightarrow> ('v, 'e, 'q, 'r) task_heap \<Rightarrow> ('v, 'e, 'q, 'r) task_heap cpp" where
  "task_await x o1 s =
     (case handle_of x s of
        None \<Rightarrow> Inl OutOfRange
      | Some h \<Rightarrow>
          (case th_frames s h of
             None \<Rightarrow> Inl OutOfRange
           | Some f \<Rightarrow>
               (case fr_pos f of
                  Running c \<Rightarrow> Inr (s\<lparr>th_frames := (th_frames s)(h \<mapsto> \<lparr>fr_promise = settle o1 (fr_promise f), fr_pos = AtEnd\<rparr>)\<rparr>)
                | _ \<Rightarrow> Inl OutOfRange)))"

section \<open>Programs\<close>

inductive task_step :: "('v, 'e, 'q, 'r) task_heap \<Rightarrow> ('v, 'e, 'q, 'r) task_heap cpp \<Rightarrow> bool" where
  create: "th_vars s x = None \<Longrightarrow> task_step s (Inr (task_create x c s))"
| move: "th_vars s x = None \<Longrightarrow> th_vars s y \<noteq> None \<Longrightarrow> task_step s (Inr (task_move x y s))"
| assign: "th_vars s x \<noteq> None \<Longrightarrow> th_vars s y \<noteq> None \<Longrightarrow> task_step s (task_assign x y s)"
| drop: "th_vars s x \<noteq> None \<Longrightarrow> task_step s (task_drop x s)"
| await: "th_vars s x \<noteq> None \<Longrightarrow> task_step s (task_await x o1 s)"

inductive task_reach :: "('v, 'e, 'q, 'r) task_heap \<Rightarrow> bool" where
  start: "task_reach empty_task_heap"
| step: "task_reach s \<Longrightarrow> task_step s (Inr s') \<Longrightarrow> task_reach s'"

section \<open>Exclusive ownership\<close>

text \<open>
  Some map gives every frame its owner, the one variable that holds its handle; frames are waiting
  for their first resumption or at their end.
\<close>

definition owns :: "('v, 'e, 'q, 'r) task_heap \<Rightarrow> (nat \<Rightarrow> nat option) \<Rightarrow> bool" where
  "owns s own \<longleftrightarrow>
     (\<forall>x h. th_vars s x = Some (Some h) \<longleftrightarrow> own h = Some x)
     \<and> (\<forall>h. th_frames s h = None \<longleftrightarrow> own h = None)
     \<and> (\<forall>h\<ge>th_next s. own h = None)"

definition positions_ok :: "('v, 'e, 'q, 'r) task_heap \<Rightarrow> bool" where
  "positions_ok s \<longleftrightarrow> (\<forall>h f. th_frames s h = Some f \<longrightarrow> (\<exists>c. fr_pos f = Running c) \<or> fr_pos f = AtEnd)"

definition owned :: "('v, 'e, 'q, 'r) task_heap \<Rightarrow> bool" where
  "owned s \<longleftrightarrow> (\<exists>own. owns s own) \<and> positions_ok s"

lemma ownsD:
  assumes "owns s own"
  shows "th_vars s x = Some (Some h) \<longleftrightarrow> own h = Some x"
    "th_frames s h = None \<longleftrightarrow> own h = None" "th_next s \<le> h \<Longrightarrow> own h = None"
  using assms by (auto simp: owns_def)

lemma ownsI:
  assumes "\<And>x h. th_vars s x = Some (Some h) \<longleftrightarrow> own h = Some x"
    "\<And>h. th_frames s h = None \<longleftrightarrow> own h = None" "\<And>h. th_next s \<le> h \<Longrightarrow> own h = None"
  shows "owns s own"
  using assms by (auto simp: owns_def)

lemma handle_of_Some: "handle_of x s = Some h \<longleftrightarrow> th_vars s x = Some (Some h)"
  by (auto simp: handle_of_def split: option.splits)

lemma owns_create:
  assumes "owns s own" "th_vars s x = None"
  shows "owns (task_create x c s) (own(th_next s \<mapsto> x))"
proof (rule ownsI)
  have fresh: "own (th_next s) = None" using ownsD(3) [OF assms(1)] by simp
  have nox: "own h \<noteq> Some x" for h using ownsD(1) [OF assms(1), of x h] assms(2) by auto
  show "th_vars (task_create x c s) z = Some (Some h) \<longleftrightarrow> (own(th_next s \<mapsto> x)) h = Some z" for z h
    using ownsD(1) [OF assms(1), of z h] fresh nox [of h] by (auto simp: task_create_def)
  show "th_frames (task_create x c s) h = None \<longleftrightarrow> (own(th_next s \<mapsto> x)) h = None" for h
    using ownsD(2) [OF assms(1), of h] by (simp add: task_create_def)
  show "(own(th_next s \<mapsto> x)) h = None" if "th_next (task_create x c s) \<le> h" for h
    using ownsD(3) [OF assms(1), of h] that by (simp add: task_create_def)
qed

text \<open>Handing the handle of \<open>y\<close> to \<open>x\<close>, a variable that holds none.\<close>

definition hand_over :: "nat \<Rightarrow> nat \<Rightarrow> (nat \<Rightarrow> nat option) \<Rightarrow> nat \<Rightarrow> nat option" where
  "hand_over x y own h = (if own h = Some y then Some x else own h)"

lemma owns_hand_over:
  assumes "owns s own" "x \<noteq> y" "handle_of x s = None"
  shows "owns (s\<lparr>th_vars := (th_vars s)(x \<mapsto> handle_of y s, y \<mapsto> None)\<rparr>) (hand_over x y own)"
proof (rule ownsI)
  have nox: "own h \<noteq> Some x" for h
    using ownsD(1) [OF assms(1), of x h] assms(3) by (auto simp: handle_of_def split: option.splits)
  have y: "handle_of y s = Some h \<longleftrightarrow> own h = Some y" for h
    using ownsD(1) [OF assms(1), of y h] by (simp add: handle_of_Some)
  show "th_vars (s\<lparr>th_vars := (th_vars s)(x \<mapsto> handle_of y s, y \<mapsto> None)\<rparr>) z = Some (Some h)
      \<longleftrightarrow> hand_over x y own h = Some z" for z h
    using ownsD(1) [OF assms(1), of z h] y [of h] nox [of h] assms(2) by (auto simp: hand_over_def)
  show "th_frames (s\<lparr>th_vars := (th_vars s)(x \<mapsto> handle_of y s, y \<mapsto> None)\<rparr>) h = None
      \<longleftrightarrow> hand_over x y own h = None" for h
    using ownsD(2) [OF assms(1), of h] by (simp add: hand_over_def)
  show "hand_over x y own h = None" if "th_next (s\<lparr>th_vars := (th_vars s)(x \<mapsto> handle_of y s, y \<mapsto> None)\<rparr>) \<le> h" for h
    using ownsD(3) [OF assms(1), of h] that by (simp add: hand_over_def)
qed

text \<open>Releasing the frame of a variable succeeds; emptying the variable restores the ownership.\<close>

lemma release_defined:
  assumes "owns s own"
  shows "\<exists>s1. release (handle_of x s) s = Inr s1 \<and> th_vars s1 = th_vars s \<and> th_next s1 = th_next s
    \<and> th_frames s1 = (\<lambda>h. if handle_of x s = Some h then None else th_frames s h)"
proof (cases "handle_of x s")
  case (Some h)
  then have "th_frames s h \<noteq> None" using ownsD(1,2) [OF assms] by (simp add: handle_of_Some)
  then show ?thesis using Some by (auto simp: release_def handle_destroy_def fun_eq_iff)
qed (simp add: release_def)

lemma owns_released:
  assumes "owns s own" "th_next s1 = th_next s" "v = None \<or> v = Some None"
    "th_frames s1 = (\<lambda>h. if handle_of x s = Some h then None else th_frames s h)"
  shows "owns (s1\<lparr>th_vars := (th_vars s)(x := v)\<rparr>) (\<lambda>h. if own h = Some x then None else own h)"
proof (rule ownsI)
  show "th_vars (s1\<lparr>th_vars := (th_vars s)(x := v)\<rparr>) z = Some (Some h)
      \<longleftrightarrow> (if own h = Some x then None else own h) = Some z" for z h
    using ownsD(1) [OF assms(1), of z h] assms(3) by auto
  show "th_frames (s1\<lparr>th_vars := (th_vars s)(x := v)\<rparr>) h = None
      \<longleftrightarrow> (if own h = Some x then None else own h) = None" for h
    using ownsD(1) [OF assms(1), of x h] ownsD(2) [OF assms(1), of h] assms(4) by (auto simp: handle_of_Some)
  show "(if own h = Some x then None else own h) = None" if "th_next (s1\<lparr>th_vars := (th_vars s)(x := v)\<rparr>) \<le> h" for h
    using ownsD(3) [OF assms(1), of h] that assms(2) by simp
qed

lemma positions_released:
  "positions_ok s \<Longrightarrow> th_frames s1 = (\<lambda>h. if handle_of x s = Some h then None else th_frames s h) \<Longrightarrow> positions_ok s1"
  by (auto simp: positions_ok_def split: if_splits)

lemma positions_vars [simp]: "positions_ok (s\<lparr>th_vars := vs\<rparr>) = positions_ok s"
  by (simp add: positions_ok_def)

lemma owned_drop:
  assumes "owned s"
  shows "\<exists>s'. task_drop x s = Inr s' \<and> owned s'"
proof -
  obtain own where own: "owns s own" "positions_ok s" using assms by (auto simp: owned_def)
  obtain s1 where s1: "release (handle_of x s) s = Inr s1" "th_vars s1 = th_vars s" "th_next s1 = th_next s"
    "th_frames s1 = (\<lambda>h. if handle_of x s = Some h then None else th_frames s h)"
    using release_defined [OF own(1)] by blast
  show ?thesis
    using owns_released [OF own(1) s1(3) _ s1(4), of None] positions_released [OF own(2) s1(4)] s1(1,2)
    by (auto simp: task_drop_def owned_def)
qed

lemma owned_assign:
  assumes "owned s" "th_vars s x \<noteq> None"
  shows "\<exists>s'. task_assign x y s = Inr s' \<and> owned s'"
proof (cases "x = y")
  case False
  obtain own where own: "owns s own" "positions_ok s" using assms by (auto simp: owned_def)
  obtain s1 where s1: "release (handle_of x s) s = Inr s1" "th_vars s1 = th_vars s" "th_next s1 = th_next s"
    "th_frames s1 = (\<lambda>h. if handle_of x s = Some h then None else th_frames s h)"
    using release_defined [OF own(1)] by blast
  let ?s2 = "s1\<lparr>th_vars := (th_vars s)(x := Some None)\<rparr>"
  have "owns ?s2 (\<lambda>h. if own h = Some x then None else own h)"
    by (rule owns_released [OF own(1) s1(3) _ s1(4)]) simp
  from owns_hand_over [OF this False]
  have "owns (?s2\<lparr>th_vars := (th_vars ?s2)(x \<mapsto> handle_of y ?s2, y \<mapsto> None)\<rparr>)
      (hand_over x y (\<lambda>h. if own h = Some x then None else own h))"
    by (simp add: handle_of_def)
  moreover have "?s2\<lparr>th_vars := (th_vars ?s2)(x \<mapsto> handle_of y ?s2, y \<mapsto> None)\<rparr>
      = s1\<lparr>th_vars := (th_vars s1)(x \<mapsto> handle_of y s1, y \<mapsto> None)\<rparr>"
    using False s1(2) by (simp add: handle_of_def)
  ultimately show ?thesis
    using False s1(1) positions_released [OF own(2) s1(4)] by (auto simp: task_assign_def owned_def)
qed (use assms in \<open>simp add: task_assign_def\<close>)

lemma owned_await:
  assumes "owned s" "task_await x o1 s = Inr s'"
  shows "owned s'"
proof -
  obtain own where own: "owns s own" "positions_ok s" using assms by (auto simp: owned_def)
  obtain h f c where f: "handle_of x s = Some h" "th_frames s h = Some f" "fr_pos f = Running c"
    "s' = s\<lparr>th_frames := (th_frames s)(h \<mapsto> \<lparr>fr_promise = settle o1 (fr_promise f), fr_pos = AtEnd\<rparr>)\<rparr>"
    using assms(2) by (auto simp: task_await_def split: option.splits position.splits)
  have "own h \<noteq> None" using ownsD(2) [OF own(1), of h] f(2) by simp
  then have "owns s' own" using own(1) f(4) by (simp add: owns_def)
  moreover have "positions_ok s'" using own(2) f(4) by (simp add: positions_ok_def)
  ultimately show ?thesis by (auto simp: owned_def)
qed

lemma owned_step:
  assumes "owned s" "task_step s (Inr s')"
  shows "owned s'"
proof -
  obtain own where own: "owns s own" "positions_ok s" using assms(1) by (auto simp: owned_def)
  from assms(2) show ?thesis
  proof (cases rule: task_step.cases)
    case (create x c)
    then show ?thesis
      using owns_create [OF own(1)] own(2) by (auto simp: owned_def positions_ok_def task_create_def new_frame_def)
  next
    case (move x y)
    then have "x \<noteq> y" "handle_of x s = None" by (auto simp: handle_of_def)
    then show ?thesis using move owns_hand_over [OF own(1)] own(2) by (auto simp: owned_def task_move_def)
  next
    case (assign x y)
    then show ?thesis using owned_assign [OF assms(1), of x y] by auto
  next
    case (drop x)
    then show ?thesis using owned_drop [OF assms(1), of x] by auto
  next
    case (await x o1)
    then show ?thesis using owned_await [OF assms(1)] by metis
  qed
qed

lemma owned_reach: "task_reach s \<Longrightarrow> owned s"
proof (induction rule: task_reach.induct)
  case start
  show ?case by (auto simp: owned_def owns_def positions_ok_def empty_task_heap_def)
qed (rule owned_step)

text \<open>Awaiting, the one operation that can be undefined.\<close>

lemma await_undefined:
  assumes "owned s" "th_vars s x \<noteq> None"
  shows "(\<exists>u. task_await x o1 s = Inl u) \<longleftrightarrow> th_vars s x = Some None
      \<or> (\<exists>h f. th_vars s x = Some (Some h) \<and> th_frames s h = Some f \<and> fr_pos f = AtEnd)"
proof (cases "th_vars s x = Some None")
  case False
  obtain own where own: "owns s own" "positions_ok s" using assms(1) by (auto simp: owned_def)
  from False assms(2) obtain h where v: "th_vars s x = Some (Some h)" by (metis not_None_eq)
  then obtain f where f: "th_frames s h = Some f" using ownsD(1,2) [OF own(1)] by fastforce
  then have "(\<exists>c. fr_pos f = Running c) \<or> fr_pos f = AtEnd" using own(2) by (auto simp: positions_ok_def)
  then show ?thesis using v f by (auto simp: task_await_def handle_of_def)
qed (simp add: task_await_def handle_of_def)

text \<open>
  C12: whatever sequence of creations, moves, assignments (self-assignment included), awaits and
  destructions a program performs on its tasks, no frame is destroyed twice or leaked: every frame
  is owned by exactly one variable, and a program without variables in scope has no frames left.
  Destroying a task and assigning a task to another are defined for all variables in scope, also those
  moved from; to await one is undefined exactly when it was moved from or has been awaited before.
  (Creating and moving tasks are total.)
\<close>

theorem task_ownership:
  assumes "task_reach s"
  shows "(\<forall>h. th_frames s h \<noteq> None \<longrightarrow> (\<exists>!x. th_vars s x = Some (Some h)))
    \<and> (\<forall>x h. th_vars s x = Some (Some h) \<longrightarrow> th_frames s h \<noteq> None)
    \<and> (th_vars s = (\<lambda>_. None) \<longrightarrow> th_frames s = (\<lambda>_. None))
    \<and> (\<forall>x. th_vars s x \<noteq> None \<longrightarrow> (\<exists>s'. task_drop x s = Inr s'))
    \<and> (\<forall>x y. th_vars s x \<noteq> None \<longrightarrow> th_vars s y \<noteq> None \<longrightarrow> (\<exists>s'. task_assign x y s = Inr s'))
    \<and> (\<forall>x o1. th_vars s x \<noteq> None \<longrightarrow> ((\<exists>u. task_await x o1 s = Inl u) \<longleftrightarrow> th_vars s x = Some None
         \<or> (\<exists>h f. th_vars s x = Some (Some h) \<and> th_frames s h = Some f \<and> fr_pos f = AtEnd)))"
proof -
  have "owned s" by (rule owned_reach [OF assms])
  then obtain own where own: "owns s own" "positions_ok s" by (auto simp: owned_def)
  have unique: "\<exists>!x. th_vars s x = Some (Some h)" if "th_frames s h \<noteq> None" for h
    using ownsD(1) [OF own(1), of _ h] ownsD(2) [OF own(1), of h] that by auto
  have live: "th_frames s h \<noteq> None" if "th_vars s x = Some (Some h)" for x h
    using ownsD(1) [OF own(1), of x h] ownsD(2) [OF own(1), of h] that by simp
  have empty: "th_frames s = (\<lambda>_. None)" if "th_vars s = (\<lambda>_. None)"
  proof
    fix h
    show "th_frames s h = None" using ownsD(1) [OF own(1), of _ h] ownsD(2) [OF own(1), of h] that by (cases "own h") auto
  qed
  have drop: "\<exists>s'. task_drop x s = Inr s'" for x using owned_drop [OF \<open>owned s\<close>] by blast
  have assign: "\<exists>s'. task_assign x y s = Inr s'" if "th_vars s x \<noteq> None" for x y
    using owned_assign [OF \<open>owned s\<close> that] by blast
  show ?thesis using unique live empty drop assign await_undefined [OF \<open>owned s\<close>] by (intro conjI allI impI) simp_all
qed

theorem task_ownership_witness:
  "\<exists>s :: (int, int, int, int) task_heap. task_reach s \<and> th_vars s = [0 \<mapsto> None, 1 \<mapsto> Some 0]
    \<and> (\<exists>!x. th_vars s x = Some (Some 0)) \<and> (\<exists>s'. task_drop 0 s = Inr s') \<and> (\<exists>s'. task_assign 0 1 s = Inr s')
    \<and> (\<exists>u. task_await 0 (Inr 5) s = Inl u)"
proof -
  let ?s1 = "task_create 0 (CoReturn (1 :: int)) empty_task_heap :: (int, int, int, int) task_heap"
  let ?s2 = "task_move 1 0 ?s1"
  have "task_reach ?s1"
    by (rule task_reach.step [OF task_reach.start]) (rule task_step.create, simp add: empty_task_heap_def)
  then have reach: "task_reach ?s2"
    by (rule task_reach.step) (rule task_step.move; simp add: task_create_def empty_task_heap_def)
  have v: "th_vars ?s2 = [0 \<mapsto> None, 1 \<mapsto> Some 0]" "th_frames ?s2 0 \<noteq> None"
    by (auto simp: task_move_def task_create_def empty_task_heap_def handle_of_def)
  note own = task_ownership [OF reach]
  have "\<exists>!x. th_vars ?s2 x = Some (Some 0)" using own v(2) by blast
  moreover have "\<exists>s'. task_drop 0 ?s2 = Inr s'" "\<exists>s'. task_assign 0 1 ?s2 = Inr s'" using own v(1) by simp_all
  moreover have "\<exists>u. task_await 0 (Inr 5) ?s2 = Inl u" using own v(1) by simp
  ultimately show ?thesis using reach v(1) by blast
qed

end
