(* ===== verification/Decimal.thy ===== *)
theory Decimal
  imports Prelude
begin

text \<open>
  The fixed-point arithmetic of \<^verbatim>\<open>include/tinvest/decimal.hpp\<close>: class
  \<^verbatim>\<open>Decimal\<close> (units and nanos, an \<^verbatim>\<open>int64\<close> and an \<^verbatim>\<open>int32\<close>), its
  \<^verbatim>\<open>__int128\<close> arithmetic, comparisons, and the conversions to and from the protobuf
  messages \<^verbatim>\<open>Quotation\<close> and \<^verbatim>\<open>MoneyValue\<close>. The string and floating-point
  conversions are in the theories that import this one.

  The abstract value of a decimal is its number of nanos, \<open>dec_total d\<close>. The locale
  \<open>canonical_repr\<close> states what makes such a representation usable (every value in range has
  exactly one well-formed representative); its interpretation \<open>dec\<close> discharges this for
  \<^verbatim>\<open>from_total\<close> and \<^verbatim>\<open>total\<close>, and the facts on the operators rest on it.
\<close>

section \<open>Data\<close>

record decimal =
  units :: int
  nano :: int

text \<open>The protobuf messages, with the fields of \<^verbatim>\<open>contracts/common.proto\<close>.\<close>

record quotation =
  q_units :: int
  q_nano :: int

record money_value =
  mv_currency :: string
  mv_units :: int
  mv_nano :: int

record money =
  currency :: string
  amount :: decimal

definition kNano :: int where
  "kNano = 1000000000"

text \<open>The class invariant stated in the source comment, with the widths of the fields.\<close>

definition dec_inv :: "decimal \<Rightarrow> bool" where
  "dec_inv d \<longleftrightarrow> fits 64 (units d) \<and> - kNano < nano d \<and> nano d < kNano
     \<and> \<not> (0 < units d \<and> nano d < 0) \<and> \<not> (units d < 0 \<and> 0 < nano d)"

section \<open>Construction\<close>

definition normalize_carry :: "decimal \<Rightarrow> decimal cpp" where
  "normalize_carry d =
     (if nano d \<le> - kNano \<or> nano d \<ge> kNano
      then cbind (checked 64 (units d + nano d sdiv kNano))
             (\<lambda>u. Inr \<lparr>units = u, nano = narrow 32 (nano d smod kNano)\<rparr>)
      else Inr d)"

definition normalize_sign :: "decimal \<Rightarrow> decimal" where
  "normalize_sign d =
     (if 0 < units d \<and> nano d < 0 then \<lparr>units = units d - 1, nano = nano d + kNano\<rparr>
      else if units d < 0 \<and> 0 < nano d then \<lparr>units = units d + 1, nano = nano d - kNano\<rparr>
      else d)"

definition normalize :: "decimal \<Rightarrow> decimal cpp" where
  "normalize d = cbind (normalize_carry d) (\<lambda>d'. Inr (normalize_sign d'))"

definition mk_decimal :: "int \<Rightarrow> int \<Rightarrow> decimal cpp" where
  "mk_decimal u n = normalize \<lparr>units = u, nano = n\<rparr>"

definition zero_decimal :: decimal where
  "zero_decimal = \<lparr>units = 0, nano = 0\<rparr>"

definition is_zero :: "decimal \<Rightarrow> bool" where
  "is_zero d \<longleftrightarrow> units d = 0 \<and> nano d = 0"

definition dec_total :: "decimal \<Rightarrow> int" where
  "dec_total d = units d * kNano + nano d"

definition from_total :: "int \<Rightarrow> decimal" where
  "from_total t = \<lparr>units = narrow 64 (t sdiv kNano), nano = narrow 32 (t smod kNano)\<rparr>"

section \<open>Operators\<close>

definition div_round :: "int \<Rightarrow> int \<Rightarrow> int cpp" where
  "div_round num den =
     (let half = den sdiv 2 in
      cbind (checked 128 (if (0 \<le> num) = (0 \<le> den) then num + half else num - half))
        (\<lambda>n. if den = 0 then Inl DivideByZero else checked 128 (n sdiv den)))"

definition decimal_add :: "decimal \<Rightarrow> decimal \<Rightarrow> decimal cpp" where
  "decimal_add a b = cbind (checked 128 (dec_total a + dec_total b)) (\<lambda>t. Inr (from_total t))"

definition decimal_sub :: "decimal \<Rightarrow> decimal \<Rightarrow> decimal cpp" where
  "decimal_sub a b = cbind (checked 128 (dec_total a - dec_total b)) (\<lambda>t. Inr (from_total t))"

definition decimal_neg :: "decimal \<Rightarrow> decimal cpp" where
  "decimal_neg a = cbind (checked 128 (- dec_total a)) (\<lambda>t. Inr (from_total t))"

definition decimal_mul :: "decimal \<Rightarrow> decimal \<Rightarrow> decimal cpp" where
  "decimal_mul a b =
     cbind (checked 128 (dec_total a * dec_total b))
       (\<lambda>p. cbind (div_round p kNano) (\<lambda>t. Inr (from_total t)))"

definition decimal_scale :: "decimal \<Rightarrow> int \<Rightarrow> decimal cpp" where
  "decimal_scale a k = cbind (checked 128 (dec_total a * k)) (\<lambda>t. Inr (from_total t))"

definition decimal_div_int :: "decimal \<Rightarrow> int \<Rightarrow> decimal cpp" where
  "decimal_div_int a k = cbind (div_round (dec_total a) k) (\<lambda>t. Inr (from_total t))"

definition decimal_div :: "decimal \<Rightarrow> decimal \<Rightarrow> decimal cpp" where
  "decimal_div a b =
     cbind (checked 128 (dec_total a * kNano))
       (\<lambda>p. cbind (div_round p (dec_total b)) (\<lambda>t. Inr (from_total t)))"

text \<open>The compound assignments: the new value of the object.\<close>

definition decimal_add_assign :: "decimal \<Rightarrow> decimal \<Rightarrow> decimal cpp" where
  "decimal_add_assign this d = decimal_add this d"

definition decimal_sub_assign :: "decimal \<Rightarrow> decimal \<Rightarrow> decimal cpp" where
  "decimal_sub_assign this d = decimal_sub this d"

definition decimal_mul_assign :: "decimal \<Rightarrow> decimal \<Rightarrow> decimal cpp" where
  "decimal_mul_assign this d = decimal_mul this d"

definition decimal_eq :: "decimal \<Rightarrow> decimal \<Rightarrow> bool" where
  "decimal_eq a b \<longleftrightarrow> units a = units b \<and> nano a = nano b"

definition decimal_lt :: "decimal \<Rightarrow> decimal \<Rightarrow> bool" where
  "decimal_lt a b \<longleftrightarrow> dec_total a < dec_total b"

definition decimal_gt :: "decimal \<Rightarrow> decimal \<Rightarrow> bool" where
  "decimal_gt a b \<longleftrightarrow> decimal_lt b a"

definition decimal_le :: "decimal \<Rightarrow> decimal \<Rightarrow> bool" where
  "decimal_le a b \<longleftrightarrow> \<not> decimal_lt b a"

definition decimal_ge :: "decimal \<Rightarrow> decimal \<Rightarrow> bool" where
  "decimal_ge a b \<longleftrightarrow> \<not> decimal_lt a b"

definition decimal_ne :: "decimal \<Rightarrow> decimal \<Rightarrow> bool" where
  "decimal_ne a b \<longleftrightarrow> \<not> decimal_eq a b"

section \<open>Protobuf conversions and Money\<close>

definition decimal_of_quotation :: "quotation \<Rightarrow> decimal cpp" where
  "decimal_of_quotation q = mk_decimal (q_units q) (q_nano q)"

definition decimal_of_money_value :: "money_value \<Rightarrow> decimal cpp" where
  "decimal_of_money_value m = mk_decimal (mv_units m) (mv_nano m)"

definition to_quotation :: "decimal \<Rightarrow> quotation" where
  "to_quotation d = \<lparr>q_units = units d, q_nano = nano d\<rparr>"

definition to_money :: "decimal \<Rightarrow> string \<Rightarrow> money_value" where
  "to_money d cur = \<lparr>mv_currency = cur, mv_units = units d, mv_nano = nano d\<rparr>"

definition money_of_pb :: "money_value \<Rightarrow> money cpp" where
  "money_of_pb m =
     cbind (mk_decimal (mv_units m) (mv_nano m))
       (\<lambda>d. Inr \<lparr>currency = mv_currency m, amount = d\<rparr>)"

definition money_to_pb :: "money \<Rightarrow> money_value" where
  "money_to_pb m = to_money (amount m) (currency m)"

definition money_eq :: "money \<Rightarrow> money \<Rightarrow> bool" where
  "money_eq a b \<longleftrightarrow> currency a = currency b \<and> decimal_eq (amount a) (amount b)"

section \<open>Canonical representations\<close>

text \<open>
  What the operators rely on: a value in range has a well-formed representative, and a
  well-formed representative is determined by its value.
\<close>

locale canonical_repr =
  fixes val :: "'r \<Rightarrow> int"
    and repr :: "int \<Rightarrow> 'r"
    and wf :: "'r \<Rightarrow> bool"
    and in_range :: "int \<Rightarrow> bool"
  assumes val_repr: "in_range t \<Longrightarrow> val (repr t) = t"
    and wf_repr: "in_range t \<Longrightarrow> wf (repr t)"
    and repr_val: "wf r \<Longrightarrow> repr (val r) = r"
    and range_val: "wf r \<Longrightarrow> in_range (val r)"
begin

lemma val_inj: "wf r \<Longrightarrow> wf s \<Longrightarrow> val r = val s \<longleftrightarrow> r = s"
  by (metis repr_val)

lemma wf_iff_repr: "wf r \<longleftrightarrow> (\<exists>t. in_range t \<and> r = repr t)"
  by (metis range_val repr_val wf_repr)

lemma val_neq_less: "wf r \<Longrightarrow> wf s \<Longrightarrow> r \<noteq> s \<longleftrightarrow> val r < val s \<or> val s < val r"
  using val_inj [of r s] by auto

end

section \<open>Construction keeps the value and establishes the invariant\<close>

lemma kNano_pos [simp]: "0 < kNano" "kNano \<noteq> 0" "0 \<le> kNano"
  by (simp_all add: kNano_def)

lemma smod_kNano_bounds: "- kNano < t smod kNano" "t smod kNano < kNano"
  using smod_int_range [of kNano t] by (auto simp: kNano_def)

lemma smod_kNano_sign:
  "0 \<le> t \<Longrightarrow> 0 \<le> t smod kNano" "t \<le> 0 \<Longrightarrow> t smod kNano \<le> 0"
  by (rule smod_int_compares; simp)+

lemma sdiv_kNano_sign:
  "0 \<le> t \<Longrightarrow> 0 \<le> t sdiv kNano" "t \<le> 0 \<Longrightarrow> t sdiv kNano \<le> 0"
  by (simp_all add: sdiv_nonneg sdiv_neg pos_imp_zdiv_nonneg_iff)

lemma fits32_smod_kNano [simp]: "fits 32 (t smod kNano)"
  using smod_kNano_bounds [of t] by (simp add: fits32_iff kNano_def)

lemma normalize_carry_value:
  assumes "fits 64 (units d)" "fits 32 (nano d)" "normalize_carry d = Inr d'"
  shows "dec_total d' = dec_total d" "fits 64 (units d')" "- kNano < nano d'" "nano d' < kNano"
proof -
  have split: "nano d sdiv kNano * kNano + nano d smod kNano = nano d"
    by (rule sdiv_mult_smod_eq)
  have "dec_total d' = dec_total d \<and> fits 64 (units d') \<and> - kNano < nano d' \<and> nano d' < kNano"
    using assms split smod_kNano_bounds [of "nano d"]
    by (auto simp: normalize_carry_def dec_total_def cbind_eq_Inr_iff checked_Inr_iff narrow_id
        algebra_simps split: if_splits)
  then show "dec_total d' = dec_total d" "fits 64 (units d')" "- kNano < nano d'" "nano d' < kNano"
    by simp_all
qed

lemma normalize_sign_value [simp]: "dec_total (normalize_sign d) = dec_total d"
  by (simp add: normalize_sign_def dec_total_def algebra_simps)

lemma normalize_sign_inv:
  "fits 64 (units d) \<Longrightarrow> - kNano < nano d \<Longrightarrow> nano d < kNano \<Longrightarrow> dec_inv (normalize_sign d)"
  by (auto simp: dec_inv_def normalize_sign_def fits64_iff)

lemma mk_decimal_value:
  assumes "fits 64 u" "fits 32 n" "mk_decimal u n = Inr d"
  shows "dec_inv d" "dec_total d = u * kNano + n"
proof -
  from assms(3) obtain d' where
    d': "normalize_carry \<lparr>units = u, nano = n\<rparr> = Inr d'" "d = normalize_sign d'"
    by (auto simp: mk_decimal_def normalize_def cbind_eq_Inr_iff)
  note carry = normalize_carry_value [OF _ _ d'(1), simplified, OF assms(1,2)]
  from carry d'(2) show "dec_inv d" by (simp add: normalize_sign_inv)
  have "dec_total d = dec_total d'" by (simp add: d'(2))
  with carry(1) show "dec_total d = u * kNano + n" by (simp add: dec_total_def)
qed

lemma mk_decimal_defined_iff:
  assumes "fits 64 u" "fits 32 n"
  shows "(\<exists>d. mk_decimal u n = Inr d) \<longleftrightarrow> fits 64 (u + n sdiv kNano)"
proof -
  have "n sdiv kNano = 0" if "- kNano < n" "n < kNano"
    using that by (cases "0 \<le> n") (simp_all add: sdiv_nonneg sdiv_neg)
  then show ?thesis
    using assms
    by (auto simp: mk_decimal_def normalize_def normalize_carry_def cbind_eq_Inr_iff
        checked_def not_le)
qed

lemma mk_decimal_id: "dec_inv d \<Longrightarrow> mk_decimal (units d) (nano d) = Inr d"
  by (auto simp: mk_decimal_def normalize_def normalize_carry_def normalize_sign_def dec_inv_def)

section \<open>The decimal representation is canonical\<close>

definition total_in_range :: "int \<Rightarrow> bool" where
  "total_in_range t \<longleftrightarrow> fits 64 (t sdiv kNano)"

lemma total_in_range_iff:
  "total_in_range t \<longleftrightarrow> - (2 ^ 63) * kNano - kNano < t \<and> t < 2 ^ 63 * kNano"
proof (cases "0 \<le> t")
  case True
  have "t div 1000000000 < 9223372036854775808 \<longleftrightarrow> t < 9223372036854775808 * 1000000000"
    by (intro zdiv_less_iff) simp
  moreover have "0 \<le> t div 1000000000" using True by (simp add: pos_imp_zdiv_nonneg_iff)
  ultimately show ?thesis
    using True by (auto simp: total_in_range_def fits64_iff sdiv_nonneg kNano_def)
next
  case False
  have "- t div 1000000000 < 9223372036854775809
      \<longleftrightarrow> - t < 9223372036854775809 * 1000000000"
    by (intro zdiv_less_iff) simp
  moreover have "0 \<le> - t div 1000000000" using False by (simp add: pos_imp_zdiv_nonneg_iff)
  ultimately show ?thesis
    using False by (auto simp: total_in_range_def fits64_iff sdiv_neg kNano_def)
qed

lemma total_from_total: "total_in_range t \<Longrightarrow> dec_total (from_total t) = t"
  by (simp add: total_in_range_def dec_total_def from_total_def narrow_id sdiv_mult_smod_eq)

lemma from_total_inexact:
  assumes "\<not> total_in_range t"
  shows "dec_total (from_total t) \<noteq> t"
proof
  assume eq: "dec_total (from_total t) = t"
  have "narrow 64 (t sdiv kNano) * kNano + t smod kNano = t sdiv kNano * kNano + t smod kNano"
    using eq by (simp add: dec_total_def from_total_def narrow_id sdiv_mult_smod_eq)
  then have "narrow 64 (t sdiv kNano) = t sdiv kNano" by (simp add: kNano_def)
  then show False using assms fits_narrow [of 64 "t sdiv kNano"] by (simp add: total_in_range_def)
qed

lemma dec_inv_from_total: "total_in_range t \<Longrightarrow> dec_inv (from_total t)"
  using smod_kNano_bounds [of t] smod_kNano_sign [of t] sdiv_kNano_sign [of t]
  by (cases "0 \<le> t") (auto simp: total_in_range_def dec_inv_def from_total_def narrow_id)

lemma total_parts:
  assumes "dec_inv d"
  shows "dec_total d sdiv kNano = units d" "dec_total d smod kNano = nano d"
proof -
  have sign: "(0 \<le> units d \<and> 0 \<le> nano d) \<or> (units d \<le> 0 \<and> nano d \<le> 0)"
    using assms by (auto simp: dec_inv_def)
  have div: "dec_total d sdiv kNano = units d"
  proof (cases "0 \<le> units d \<and> 0 \<le> nano d")
    case True
    then show ?thesis
      using assms by (simp add: dec_total_def dec_inv_def sdiv_nonneg)
  next
    case False
    with sign have neg: "units d \<le> 0" "nano d \<le> 0" by auto
    have "(- dec_total d) div kNano = - units d"
    proof -
      have "- dec_total d = - nano d + (- units d) * kNano" by (simp add: dec_total_def)
      moreover have "(- nano d) div kNano = 0" using assms neg by (simp add: dec_inv_def)
      ultimately show ?thesis using div_mult_self1 [of kNano "- nano d" "- units d"] by simp
    qed
    moreover have "dec_total d \<le> 0"
      using neg mult_nonpos_nonneg [of "units d" kNano] by (simp add: dec_total_def)
    ultimately show ?thesis by (simp add: sdiv_neg)
  qed
  then show "dec_total d sdiv kNano = units d" .
  show "dec_total d smod kNano = nano d"
    using sdiv_mult_smod_eq [of "dec_total d" kNano] div by (simp add: dec_total_def)
qed

lemma dec_inv_widths: "dec_inv d \<Longrightarrow> fits 64 (units d)" "dec_inv d \<Longrightarrow> fits 32 (nano d)"
  by (simp_all add: dec_inv_def fits32_iff kNano_def)

lemma from_total_total: "dec_inv d \<Longrightarrow> from_total (dec_total d) = d"
  by (simp add: from_total_def total_parts narrow_id dec_inv_widths)

lemma total_in_range_total: "dec_inv d \<Longrightarrow> total_in_range (dec_total d)"
  by (simp add: total_in_range_def total_parts) (simp add: dec_inv_def)

interpretation dec: canonical_repr dec_total from_total dec_inv total_in_range
  by unfold_locales
    (simp_all add: total_from_total dec_inv_from_total from_total_total total_in_range_total)

section \<open>Rounded division\<close>

text \<open>The reference: the quotient rounded to the nearest integer, ties away from zero.\<close>

definition round_half_away :: "int \<Rightarrow> int \<Rightarrow> int" where
  "round_half_away num den = sgn num * sgn den * ((\<bar>num\<bar> + \<bar>den\<bar> div 2) div \<bar>den\<bar>)"

lemma nearest_quotient:
  fixes n d :: int
  assumes "0 \<le> n" "0 < d"
  shows "2 * \<bar>n - (n + d div 2) div d * d\<bar> \<le> d"
    and "2 * \<bar>n - (n + d div 2) div d * d\<bar> = d \<Longrightarrow> n < (n + d div 2) div d * d"
proof -
  define q where "q = (n + d div 2) div d"
  define r where "r = (n + d div 2) mod d"
  have r: "0 \<le> r" "r < d" using assms by (simp_all add: r_def)
  have eq: "q * d = n + d div 2 - r" by (simp add: q_def r_def minus_mod_eq_div_mult)
  have half: "2 * (d div 2) \<le> d" "d \<le> 2 * (d div 2) + 1" by presburger+
  have step: "2 * (r - h) \<le> d - 1 \<and> 2 * (h - r) \<le> d" if "2 * h \<le> d" "d \<le> 2 * h + 1" for h
    using that r by auto
  have upper: "2 * (r - d div 2) \<le> d - 1" and lower: "2 * (d div 2 - r) \<le> d"
    using step [OF half] by auto
  have err: "n - (n + d div 2) div d * d = r - d div 2"
    using eq by (simp add: q_def)
  show "2 * \<bar>n - (n + d div 2) div d * d\<bar> \<le> d"
    unfolding err using upper lower by (simp add: abs_if)
  assume "2 * \<bar>n - (n + d div 2) div d * d\<bar> = d"
  then have "r < d div 2" unfolding err using upper by (simp add: abs_if split: if_splits)
  then show "n < (n + d div 2) div d * d" using err by linarith
qed

lemma round_half_away_zero [simp]: "round_half_away 0 den = 0"
  by (simp add: round_half_away_def)

lemma round_half_away_eq:
  "\<bar>num - round_half_away num den * den\<bar>
     = \<bar>\<bar>num\<bar> - (\<bar>num\<bar> + \<bar>den\<bar> div 2) div \<bar>den\<bar> * \<bar>den\<bar>\<bar>"
  "num \<noteq> 0 \<Longrightarrow> den \<noteq> 0 \<Longrightarrow>
     \<bar>round_half_away num den * den\<bar> = (\<bar>num\<bar> + \<bar>den\<bar> div 2) div \<bar>den\<bar> * \<bar>den\<bar>"
proof -
  let ?q = "(\<bar>num\<bar> + \<bar>den\<bar> div 2) div \<bar>den\<bar>"
  have q: "0 \<le> ?q" by (cases "den = 0") (simp_all add: pos_imp_zdiv_nonneg_iff)
  have "num - round_half_away num den * den = sgn num * (\<bar>num\<bar> - ?q * \<bar>den\<bar>)"
    by (simp add: round_half_away_def algebra_simps sgn_if)
  then show "\<bar>num - round_half_away num den * den\<bar> = \<bar>\<bar>num\<bar> - ?q * \<bar>den\<bar>\<bar>"
    by (cases "num = 0"; cases "den = 0") (simp_all add: abs_mult)
  show "\<bar>round_half_away num den * den\<bar> = ?q * \<bar>den\<bar>" if "num \<noteq> 0" "den \<noteq> 0"
    using that q by (simp add: round_half_away_def abs_mult)
qed

lemma round_half_away_nearest:
  assumes "den \<noteq> 0"
  shows "2 * \<bar>num - round_half_away num den * den\<bar> \<le> \<bar>den\<bar>"
    and "2 * \<bar>num - round_half_away num den * den\<bar> = \<bar>den\<bar> \<Longrightarrow>
      \<bar>num\<bar> < \<bar>round_half_away num den * den\<bar>"
proof -
  note near = nearest_quotient [of "\<bar>num\<bar>" "\<bar>den\<bar>"]
  show "2 * \<bar>num - round_half_away num den * den\<bar> \<le> \<bar>den\<bar>"
    using assms near(1) by (simp add: round_half_away_eq(1))
  assume tie: "2 * \<bar>num - round_half_away num den * den\<bar> = \<bar>den\<bar>"
  with assms have "num \<noteq> 0" by auto
  with assms tie near(2) show "\<bar>num\<bar> < \<bar>round_half_away num den * den\<bar>"
    by (simp add: round_half_away_eq)
qed

lemma sdiv_two: "den sdiv 2 = sgn den * (\<bar>den\<bar> div 2)" for den :: int
  by (simp add: signed_divide_int_def)

lemma div_round_numerator:
  "(if (0 \<le> num) = (0 \<le> den) then num + den sdiv 2 else num - den sdiv 2)
     = (if 0 \<le> num then \<bar>num\<bar> + \<bar>den\<bar> div 2 else - (\<bar>num\<bar> + \<bar>den\<bar> div 2))"
  for num den :: int
  by (auto simp: sdiv_two sgn_if)

lemma div_round_eq:
  assumes den: "den \<noteq> 0" and fits: "fits 128 (\<bar>num\<bar> + \<bar>den\<bar> div 2)"
  shows "div_round num den = Inr (round_half_away num den)"
proof -
  let ?m = "\<bar>num\<bar> + \<bar>den\<bar> div 2"
  let ?n = "if 0 \<le> num then ?m else - ?m"
  have m: "0 \<le> ?m" by (simp add: pos_imp_zdiv_nonneg_iff)
  have small: "?m div \<bar>den\<bar> = 0" if "num = 0"
    using that den by (simp add: div_pos_pos_trivial)
  have val: "?n sdiv den = round_half_away num den"
  proof (cases "num = 0")
    case True
    with small show ?thesis by (simp add: signed_divide_int_def abs_if split: if_splits)
  next
    case False
    have "sgn ?m = 1" using False m by (simp add: sgn_if)
    with False m show ?thesis
      by (auto simp: round_half_away_def signed_divide_int_def sgn_minus)
  qed
  have range: "round_half_away num den \<in> {- ?m..?m}"
    using sdiv_int_range [of ?n den] m unfolding val [symmetric] by (auto split: if_splits)
  have "fits 128 ?n" "fits 128 (round_half_away num den)"
    using fits m range by (auto simp: fits128_iff)
  then show ?thesis
    using den val by (simp add: div_round_def div_round_numerator Let_def)
qed

lemma div_round_by_zero: "fits 128 num \<Longrightarrow> div_round num 0 = Inl DivideByZero"
  by (simp add: div_round_def)

section \<open>Operators on well-formed decimals\<close>

lemma total_bound:
  assumes "dec_inv d"
  shows "\<bar>dec_total d\<bar> < 9223372036854775809 * kNano"
  using total_in_range_total [OF assms] by (auto simp: total_in_range_iff kNano_def)

lemma fits128_total_sum:
  assumes "dec_inv a" "dec_inv b"
  shows "fits 128 (dec_total a + dec_total b)" "fits 128 (dec_total a - dec_total b)"
    "fits 128 (- dec_total a)"
  using total_bound [OF assms(1)] total_bound [OF assms(2)]
  by (auto simp: fits128_iff kNano_def abs_less_iff)

lemma fits128_div_numerator:
  assumes "dec_inv a" "\<bar>den\<bar> < 9223372036854775809 * kNano"
  shows "fits 128 (\<bar>dec_total a * kNano\<bar> + \<bar>den\<bar> div 2)"
proof -
  have "\<bar>dec_total a * kNano\<bar> \<le> 9223372036854775809 * kNano * kNano"
    using total_bound [OF assms(1)] by (simp add: abs_mult kNano_def)
  moreover have "0 \<le> \<bar>den\<bar> div 2" "\<bar>den\<bar> div 2 \<le> \<bar>den\<bar>" by simp_all
  ultimately show ?thesis
    using assms(2) abs_ge_zero [of "dec_total a * kNano"]
    unfolding fits128_iff kNano_def by linarith
qed

lemma from_total_exact:
  "total_in_range t \<Longrightarrow> dec_inv (from_total t) \<and> dec_total (from_total t) = t"
  by (simp add: dec.val_repr dec.wf_repr)

text \<open>
  C34: constructing a decimal from any \<^verbatim>\<open>int64\<close> and \<^verbatim>\<open>int32\<close> either yields a value
  that satisfies the class invariant and denotes exactly units + nano/1e9, or overflows because
  the carried units do not fit 64 bits.
\<close>

theorem mk_decimal_canonical:
  assumes "fits 64 u" "fits 32 n"
  shows "case mk_decimal u n of
      Inr d \<Rightarrow> dec_inv d \<and> dec_total d = u * kNano + n
    | Inl e \<Rightarrow> e = SignedOverflow \<and> \<not> fits 64 (u + n sdiv kNano)"
proof (cases "mk_decimal u n")
  case (Inl e)
  with assms have "\<not> fits 64 (u + n sdiv kNano)"
    using mk_decimal_defined_iff by fastforce
  moreover from Inl have "e = SignedOverflow"
    by (auto simp: mk_decimal_def normalize_def normalize_carry_def cbind_eq_Inl_iff
        checked_Inl_iff split: if_splits)
  ultimately show ?thesis using Inl by simp
next
  case (Inr d)
  with assms show ?thesis by (simp add: mk_decimal_value)
qed

theorem mk_decimal_canonical_witness:
  "mk_decimal 1 (- 500000000) = Inr \<lparr>units = 0, nano = 500000000\<rparr>
   \<and> dec_inv \<lparr>units = 0, nano = 500000000\<rparr>
   \<and> dec_total \<lparr>units = 0, nano = 500000000\<rparr> = 1 * kNano + - 500000000"
proof -
  have h: "fits 64 1" "fits 32 (- 500000000)" by (simp_all add: fits64_iff fits32_iff)
  have run: "mk_decimal 1 (- 500000000) = Inr \<lparr>units = 0, nano = 500000000\<rparr>"
    by (simp add: mk_decimal_def normalize_def normalize_carry_def normalize_sign_def kNano_def)
  show ?thesis using mk_decimal_canonical [OF h] run by simp
qed

text \<open>
  C35: addition, subtraction and negation of well-formed decimals never overflow the 128-bit
  intermediate, and whenever the exact result is representable it is returned exactly and
  well-formed.
\<close>

theorem decimal_additive_exact:
  assumes "dec_inv a" "dec_inv b"
  shows "(\<exists>c. decimal_add a b = Inr c \<and>
       (total_in_range (dec_total a + dec_total b) \<longrightarrow>
          dec_inv c \<and> dec_total c = dec_total a + dec_total b))
    \<and> (\<exists>c. decimal_sub a b = Inr c \<and>
       (total_in_range (dec_total a - dec_total b) \<longrightarrow>
          dec_inv c \<and> dec_total c = dec_total a - dec_total b))
    \<and> (\<exists>c. decimal_neg a = Inr c \<and>
       (total_in_range (- dec_total a) \<longrightarrow> dec_inv c \<and> dec_total c = - dec_total a))"
  using fits128_total_sum [OF assms]
  by (simp add: decimal_add_def decimal_sub_def decimal_neg_def from_total_exact)

theorem decimal_additive_exact_witness:
  "\<exists>c. decimal_add \<lparr>units = 10, nano = 500000000\<rparr> \<lparr>units = 2, nano = 750000000\<rparr> = Inr c
     \<and> dec_inv c \<and> dec_total c = 13250000000"
proof -
  have h: "dec_inv \<lparr>units = 10, nano = 500000000\<rparr>" "dec_inv \<lparr>units = 2, nano = 750000000\<rparr>"
    by (simp_all add: dec_inv_def fits64_iff kNano_def)
  have r: "total_in_range 13250000000" by (simp add: total_in_range_iff kNano_def)
  show ?thesis
    using decimal_additive_exact [OF h] r by (simp add: dec_total_def kNano_def)
qed

text \<open>An amount that is added and taken away again leaves the object as it was.\<close>

lemma add_assign_sub_assign:
  assumes "dec_inv a" "dec_inv b" "total_in_range (dec_total a + dec_total b)"
  shows "cbind (decimal_add_assign a b) (\<lambda>c. decimal_sub_assign c b) = Inr a"
proof -
  let ?c = "from_total (dec_total a + dec_total b)"
  have c: "dec_inv ?c" "dec_total ?c = dec_total a + dec_total b" using from_total_exact [OF assms(3)] by simp_all
  have "fits 128 (dec_total ?c - dec_total b)" by (rule fits128_total_sum(2) [OF c(1) assms(2)])
  then show ?thesis
    using fits128_total_sum(1) [OF assms(1,2)] c(2)
    by (simp add: decimal_add_assign_def decimal_sub_assign_def decimal_add_def decimal_sub_def from_total_total assms(1))
qed

text \<open>
  On well-formed decimals the comparison operators are the order of the exact values:
  equality of the fields is equality of the values, the order is total, and the derived
  operators agree with it.
\<close>

lemma decimal_order_exact:
  assumes "dec_inv a" "dec_inv b"
  shows "(decimal_eq a b \<longleftrightarrow> dec_total a = dec_total b)
    \<and> (decimal_lt a b \<longleftrightarrow> dec_total a < dec_total b)
    \<and> (decimal_gt a b \<longleftrightarrow> dec_total a > dec_total b)
    \<and> (decimal_le a b \<longleftrightarrow> decimal_lt a b \<or> decimal_eq a b)
    \<and> (decimal_ge a b \<longleftrightarrow> decimal_gt a b \<or> decimal_eq a b)
    \<and> (decimal_ne a b \<longleftrightarrow> decimal_lt a b \<or> decimal_gt a b)"
proof -
  have "decimal_eq a b \<longleftrightarrow> a = b" by (auto simp: decimal_eq_def)
  then have eq: "decimal_eq a b \<longleftrightarrow> dec_total a = dec_total b"
    using dec.val_inj [OF assms] by simp
  then show ?thesis
    by (auto simp: decimal_lt_def decimal_gt_def decimal_le_def decimal_ge_def decimal_ne_def)
qed

text \<open>
  \<^verbatim>\<open>div_round\<close> returns, for every sign combination and without overflow, an integer
  nearest to the exact quotient, and on a tie the one further from zero.
\<close>

lemma div_round_nearest:
  assumes "den \<noteq> 0" "fits 128 (\<bar>num\<bar> + \<bar>den\<bar> div 2)"
  shows "\<exists>q. div_round num den = Inr q \<and> 2 * \<bar>num - q * den\<bar> \<le> \<bar>den\<bar>
    \<and> (2 * \<bar>num - q * den\<bar> = \<bar>den\<bar> \<longrightarrow> \<bar>num\<bar> < \<bar>q * den\<bar>)"
  using div_round_eq [OF assms] round_half_away_nearest [OF assms(1)] by blast

text \<open>
  C16: the product of two decimals. When the 128-bit intermediate overflows, which is undefined, there
  is no result. When it does not, not even after the addition of half a unit for rounding, there is one: if the
  rounded product is representable the result is well-formed and within half a nano of the exact
  product; if it is not, the units are silently narrowed and the result is a different number.
\<close>

theorem decimal_mul_half_nano:
  "(\<not> fits 128 (dec_total a * dec_total b) \<longrightarrow> decimal_mul a b = Inl SignedOverflow)
   \<and> (fits 128 (\<bar>dec_total a * dec_total b\<bar> + kNano div 2) \<longrightarrow>
      (\<exists>c. decimal_mul a b = Inr c
        \<and> (if total_in_range (round_half_away (dec_total a * dec_total b) kNano)
           then dec_inv c \<and> 2 * \<bar>dec_total a * dec_total b - dec_total c * kNano\<bar> \<le> kNano
           else dec_total c \<noteq> round_half_away (dec_total a * dec_total b) kNano)))"
proof (intro conjI impI)
  let ?p = "dec_total a * dec_total b" and ?t = "round_half_away (dec_total a * dec_total b) kNano"
  show "decimal_mul a b = Inl SignedOverflow" if "\<not> fits 128 ?p" using that by (simp add: decimal_mul_def checked_def)
  assume h: "fits 128 (\<bar>?p\<bar> + kNano div 2)"
  have "fits 128 ?p" using h by (auto simp: fits128_iff kNano_def)
  moreover have "div_round ?p kNano = Inr ?t" using h by (intro div_round_eq) auto
  ultimately have "decimal_mul a b = Inr (from_total ?t)" by (simp add: decimal_mul_def)
  then show "\<exists>c. decimal_mul a b = Inr c \<and> (if total_in_range ?t
      then dec_inv c \<and> 2 * \<bar>?p - dec_total c * kNano\<bar> \<le> kNano else dec_total c \<noteq> ?t)"
    using from_total_exact [of ?t] from_total_inexact [of ?t] round_half_away_nearest(1) [of kNano ?p] by auto
qed

theorem decimal_mul_half_nano_witness:
  "(\<exists>c. decimal_mul \<lparr>units = 10, nano = 500000000\<rparr> \<lparr>units = 2, nano = 250000000\<rparr> = Inr c
     \<and> dec_inv c \<and> 2 * \<bar>23625000000000000000 - dec_total c * kNano\<bar> \<le> kNano)
   \<and> (\<exists>c. decimal_mul \<lparr>units = 10000000000, nano = 0\<rparr> \<lparr>units = 10000000000, nano = 0\<rparr> = Inr c
     \<and> dec_total c \<noteq> 100000000000000000000 * kNano)"
proof
  let ?a = "\<lparr>units = 10, nano = 500000000\<rparr>" and ?b = "\<lparr>units = 2, nano = 250000000\<rparr>"
  have t: "dec_total ?a * dec_total ?b = 23625000000000000000"
    by (simp add: dec_total_def kNano_def)
  have "fits 128 (\<bar>dec_total ?a * dec_total ?b\<bar> + kNano div 2)"
    unfolding t by (simp add: fits128_iff kNano_def)
  moreover have "total_in_range (round_half_away (dec_total ?a * dec_total ?b) kNano)"
    unfolding t by (simp add: round_half_away_def total_in_range_iff kNano_def)
  ultimately show "\<exists>c. decimal_mul ?a ?b = Inr c \<and> dec_inv c \<and> 2 * \<bar>23625000000000000000 - dec_total c * kNano\<bar> \<le> kNano"
    using decimal_mul_half_nano [of ?a ?b] t by simp
  let ?d = "\<lparr>units = 10000000000, nano = 0\<rparr>"
  have u: "dec_total ?d * dec_total ?d = 100000000000000000000000000000000000000"
    by (simp add: dec_total_def kNano_def)
  have "fits 128 (\<bar>dec_total ?d * dec_total ?d\<bar> + kNano div 2)"
    unfolding u by (simp add: fits128_iff kNano_def)
  moreover have "round_half_away (dec_total ?d * dec_total ?d) kNano = 100000000000000000000 * kNano"
    "\<not> total_in_range (100000000000000000000 * kNano)"
    unfolding u by (simp_all add: round_half_away_def total_in_range_iff kNano_def)
  ultimately show "\<exists>c. decimal_mul ?d ?d = Inr c \<and> dec_total c \<noteq> 100000000000000000000 * kNano"
    using decimal_mul_half_nano [of ?d ?d] by simp
qed

text \<open>
  C15: dividing well-formed decimals never overflows: a zero divisor is a division by zero, and
  otherwise a representable quotient is returned well-formed and within half a nano.
\<close>

theorem decimal_div_half_nano:
  assumes "dec_inv a" "dec_inv b"
  shows "if is_zero b then decimal_div a b = Inl DivideByZero
    else \<exists>c. decimal_div a b = Inr c
      \<and> (total_in_range (round_half_away (dec_total a * kNano) (dec_total b)) \<longrightarrow>
           dec_inv c \<and> 2 * \<bar>dec_total a * kNano - dec_total c * dec_total b\<bar> \<le> \<bar>dec_total b\<bar>)"
proof -
  have fits: "fits 128 (\<bar>dec_total a * kNano\<bar> + \<bar>dec_total b\<bar> div 2)"
    using fits128_div_numerator [OF assms(1) total_bound [OF assms(2)]] .
  have "0 \<le> \<bar>dec_total b\<bar> div 2" by simp
  with fits have fits': "fits 128 (dec_total a * kNano)" by (auto simp: fits128_iff)
  have zero: "is_zero b \<longleftrightarrow> dec_total b = 0"
    using dec.val_inj [OF assms(2), of zero_decimal]
    by (auto simp: is_zero_def zero_decimal_def dec_total_def dec_inv_def fits64_iff)
  show ?thesis
    using fits' zero div_round_by_zero [OF fits'] div_round_eq [OF _ fits]
      round_half_away_nearest(1) [of "dec_total b" "dec_total a * kNano"]
    by (auto simp: decimal_div_def from_total_exact)
qed

theorem decimal_div_half_nano_witness:
  "\<exists>c. decimal_div \<lparr>units = 1, nano = 0\<rparr> \<lparr>units = 3, nano = 0\<rparr> = Inr c
     \<and> dec_inv c \<and> 2 * \<bar>1000000000000000000 - dec_total c * 3000000000\<bar> \<le> 3000000000"
proof -
  let ?a = "\<lparr>units = 1, nano = 0\<rparr>" and ?b = "\<lparr>units = 3, nano = 0\<rparr>"
  have h: "dec_inv ?a" "dec_inv ?b" by (simp_all add: dec_inv_def fits64_iff kNano_def)
  have r: "total_in_range (round_half_away (dec_total ?a * kNano) (dec_total ?b))"
    by (simp add: round_half_away_def dec_total_def total_in_range_iff kNano_def)
  show ?thesis
    using decimal_div_half_nano [OF h] r by (simp add: is_zero_def dec_total_def kNano_def)
qed

text \<open>
  Converting a well-formed decimal to a \<^verbatim>\<open>Quotation\<close> or, with a currency, to a
  \<^verbatim>\<open>MoneyValue\<close> and back gives the same decimal and the same \<^verbatim>\<open>Money\<close>.
\<close>

lemma pb_round_trip:
  assumes "dec_inv d"
  shows "decimal_of_quotation (to_quotation d) = Inr d
    \<and> decimal_of_money_value (to_money d cur) = Inr d
    \<and> (\<exists>m. money_of_pb (money_to_pb \<lparr>currency = cur, amount = d\<rparr>) = Inr m
          \<and> money_eq m \<lparr>currency = cur, amount = d\<rparr>)"
  using mk_decimal_id [OF assms]
  by (simp add: decimal_of_quotation_def decimal_of_money_value_def to_quotation_def to_money_def
      money_of_pb_def money_to_pb_def money_eq_def decimal_eq_def)

end
