(* ===== verification/Decimal_String.thy ===== *)
theory Decimal_String
  imports Decimal
begin

text \<open>
  The string conversions of \<^verbatim>\<open>include/tinvest/decimal.hpp\<close>:
  \<^verbatim>\<open>Decimal::to_string\<close>, \<^verbatim>\<open>Decimal::from_string\<close> and
  \<^verbatim>\<open>Money::to_string\<close>. The index loops over the input are recursions over the
  remaining characters; the digit buffer of \<^verbatim>\<open>to_string\<close> is filled and trimmed as in
  the source. Overflow of the 64-bit unit accumulator is an \<open>Inl\<close> outcome.
\<close>

section \<open>Printing\<close>

text \<open>The magnitude of the units as the unsigned 64-bit value the code prints.\<close>

definition abs_units :: "int \<Rightarrow> nat" where
  "abs_units u = (if u < 0 then (nat ((- (u + 1)) mod 2 ^ 64) + 1) mod 2 ^ 64
                  else nat (u mod 2 ^ 64))"

text \<open>The loop \<^verbatim>\<open>for (i = 8; i >= 0; --i)\<close>: digits are written from the back.\<close>

fun fill_buf :: "nat \<Rightarrow> nat \<Rightarrow> string \<Rightarrow> string" where
  "fill_buf 0 frac buf = buf"
| "fill_buf (Suc i) frac buf = fill_buf i (frac div 10) (digit_char (frac mod 10) # buf)"

fun trim_len :: "string \<Rightarrow> nat \<Rightarrow> nat" where
  "trim_len buf 0 = 0"
| "trim_len buf (Suc n) = (if buf ! n = CHR ''0'' then trim_len buf n else Suc n)"

definition frac_string :: "nat \<Rightarrow> string" where
  "frac_string frac =
     (if frac \<noteq> 0 then (let buf = fill_buf 9 frac [] in CHR ''.'' # take (trim_len buf 9) buf)
      else [])"

definition decimal_to_string :: "decimal \<Rightarrow> string" where
  "decimal_to_string d =
     (if units d < 0 \<or> nano d < 0 then ''-'' else [])
     @ show_nat (abs_units (units d))
     @ frac_string (if nano d < 0 then nat (- nano d) else nat (nano d))"

definition money_to_string :: "money \<Rightarrow> string" where
  "money_to_string m = decimal_to_string (amount m) @ '' '' @ currency m"

section \<open>Parsing\<close>

fun parse_units :: "int \<Rightarrow> bool \<Rightarrow> string \<Rightarrow> (int \<times> bool \<times> string) cpp" where
  "parse_units u any [] = Inr (u, any, [])"
| "parse_units u any (c # s) =
     (if is_digit c
      then cbind (checked 64 (u * 10))
             (\<lambda>v. cbind (checked 64 (v + int (digit_val c))) (\<lambda>w. parse_units w True s))
      else Inr (u, any, c # s))"

fun parse_frac :: "int \<Rightarrow> int \<Rightarrow> bool \<Rightarrow> string \<Rightarrow> (int \<times> bool \<times> string) cpp" where
  "parse_frac n scale any [] = Inr (n, any, [])"
| "parse_frac n scale any (c # s) =
     (if is_digit c
      then cbind (checked 32 (n + narrow 32 (int (digit_val c) * scale)))
             (\<lambda>m. parse_frac m (scale sdiv 10) True s)
      else Inr (n, any, c # s))"

text \<open>The part after the integer digits: \<open>None\<close> is the early \<^verbatim>\<open>return std::nullopt\<close>.\<close>

definition parse_rest :: "bool \<Rightarrow> string \<Rightarrow> (int \<times> bool) option cpp" where
  "parse_rest any r =
     (case r of
        [] \<Rightarrow> Inr (Some (0, any))
      | c # s \<Rightarrow>
          if c \<noteq> CHR ''.'' \<and> c \<noteq> CHR '','' then Inr None
          else cbind (parse_frac 0 (kNano sdiv 10) any s)
                 (\<lambda>(n, any', rest). if rest \<noteq> [] then Inr None else Inr (Some (n, any'))))"

definition from_string_body :: "bool \<Rightarrow> string \<Rightarrow> decimal option cpp" where
  "from_string_body neg body =
     cbind (parse_units 0 False body)
       (\<lambda>(u, any, r). cbind (parse_rest any r)
         (\<lambda>res. case res of
            None \<Rightarrow> Inr None
          | Some (n, any') \<Rightarrow>
              if \<not> any' then Inr None
              else cbind (checked 64 (if neg then - u else u))
                     (\<lambda>u'. cbind (mk_decimal u' (if neg then - n else n))
                       (\<lambda>d. Inr (Some d)))))"

definition from_string :: "string \<Rightarrow> decimal option cpp" where
  "from_string s =
     (case s of
        [] \<Rightarrow> Inr None
      | c # cs \<Rightarrow>
          if c = CHR ''-'' \<or> c = CHR ''+'' then from_string_body (c = CHR ''-'') cs
          else from_string_body False s)"

section \<open>The unit accumulator\<close>

lemma read_digits_ge: "acc \<le> read_digits acc s"
proof (induction s arbitrary: acc)
  case (Cons c s)
  have "acc \<le> acc * 10 + digit_val c" by simp
  also have "\<dots> \<le> read_digits (acc * 10 + digit_val c) s" by (rule Cons.IH)
  finally show ?case by simp
qed simp

lemma fits64_int: "fits 64 (int n) \<longleftrightarrow> n < 9223372036854775808"
  by (simp add: fits64_iff)

lemma parse_units_digits:
  assumes "list_all is_digit s" "r = [] \<or> \<not> is_digit (hd r)" "u < 9223372036854775808"
  shows "parse_units (int u) any (s @ r) =
    (if read_digits u s < 9223372036854775808
     then Inr (int (read_digits u s), any \<or> s \<noteq> [], r) else Inl SignedOverflow)"
  using assms
proof (induction s arbitrary: u any)
  case Nil
  then show ?case by (cases r) auto
next
  case (Cons c s)
  let ?v = "u * 10 + digit_val c"
  have le: "?v \<le> read_digits ?v s" by (rule read_digits_ge)
  have eqs: "int u * 10 = int (u * 10)" "int (u * 10) + int (digit_val c) = int ?v" by simp_all
  show ?case
  proof (cases "?v < 9223372036854775808")
    case True
    then have "fits 64 (int (u * 10))" "fits 64 (int ?v)" by (simp_all only: fits64_int)
    with Cons True show ?thesis
      by (simp add: eqs del: of_nat_add of_nat_mult of_nat_numeral)
  next
    case False
    then have "\<not> fits 64 (int ?v)" using fits64_int [of ?v] by blast
    then have "checked 64 (int (u * 10) + int (digit_val c)) = Inl SignedOverflow"
      unfolding eqs(2) by (simp add: checked_def)
    with Cons.prems False le show ?thesis
      by (simp add: eqs(1) checked_def [of 64 "int (u * 10)"] del: of_nat_add of_nat_mult of_nat_numeral)
  qed
qed

section \<open>The fraction accumulator\<close>

lemma digit_val_le: "is_digit c \<Longrightarrow> digit_val c \<le> 9"
  by (auto simp: is_digit_def digit_val_def)

lemma read_digits_acc: "read_digits acc s = acc * 10 ^ length s + read_digits 0 s"
proof (induction s arbitrary: acc)
  case (Cons c s)
  show ?case
    using Cons [of "acc * 10 + digit_val c"] Cons [of "digit_val c"]
    by (simp add: algebra_simps)
qed simp

lemma read_digits_less: "list_all is_digit s \<Longrightarrow> read_digits 0 s < 10 ^ length s"
proof (induction s)
  case (Cons c s)
  then have "read_digits 0 s + 1 \<le> 10 ^ length s" "digit_val c \<le> 9"
    by (simp_all add: digit_val_le)
  moreover from this(2) have "digit_val c * 10 ^ length s \<le> 9 * 10 ^ length s" by simp
  ultimately have "digit_val c * 10 ^ length s + read_digits 0 s < 10 * 10 ^ length s" by linarith
  then show ?case by (simp add: read_digits_acc [of "digit_val c"])
qed simp

lemma parse_frac_zero_scale:
  "list_all is_digit s \<Longrightarrow> fits 32 n \<Longrightarrow> parse_frac n 0 any s = Inr (n, any \<or> s \<noteq> [], [])"
  by (induction s arbitrary: any) (auto simp: narrow_id fits32_iff)

lemma sdiv_pow10: "(10 :: int) ^ Suc k sdiv 10 = 10 ^ k"
  by (simp add: sdiv_nonneg)

lemma parse_frac_digits:
  assumes "list_all is_digit s" "list_all is_digit t" "length s \<le> k" "length s = k \<or> t = []"
    and "n + 10 ^ k \<le> 1000000000"
  shows "parse_frac (int n) (10 ^ k sdiv 10) any (s @ t) =
    Inr (int (n + read_digits 0 s * 10 ^ (k - length s)), any \<or> s @ t \<noteq> [], [])"
  using assms
proof (induction s arbitrary: n any k)
  case Nil
  have "fits 32 (int n)" using Nil.prems(5) by (simp add: fits32_iff)
  show ?case
  proof (cases "t = []")
    case False
    with Nil.prems(4) have "k = 0" by simp
    then show ?thesis
      using Nil.prems(2) \<open>fits 32 (int n)\<close> parse_frac_zero_scale [of t "int n" any]
      by (simp add: signed_divide_int_def)
  qed simp
next
  case (Cons c s)
  then obtain k' where k: "k = Suc k'" by (cases k) auto
  let ?d = "digit_val c * 10 ^ k'"
  from Cons.prems have c: "is_digit c" "digit_val c \<le> 9" by (simp_all add: digit_val_le)
  have d: "?d + 10 ^ k' \<le> 10 ^ k"
  proof -
    have "?d \<le> 9 * 10 ^ k'" using c(2) by simp
    then show ?thesis by (simp add: k)
  qed
  have lim: "n + ?d + 10 ^ k' \<le> 1000000000" using d Cons.prems(5) by simp
  have val: "int (digit_val c) * 10 ^ k' = int ?d" by simp
  have "int (n + ?d) \<le> int 1000000000" unfolding of_nat_le_iff using lim by linarith
  then have fits: "fits 32 (int ?d)" "fits 32 (int n + int ?d)"
    unfolding fits32_iff of_nat_add by linarith+
  have "parse_frac (int n) (10 ^ k sdiv 10) any ((c # s) @ t)
      = parse_frac (int (n + ?d)) (10 ^ k' sdiv 10) True (s @ t)"
    using c fits unfolding k sdiv_pow10 by (simp add: val narrow_id del: of_nat_mult of_nat_power)
  also have "\<dots> = Inr (int (n + ?d + read_digits 0 s * 10 ^ (k' - length s)), True, [])"
    using Cons.IH [of k' "n + ?d" True] Cons.prems k lim by auto
  finally show ?case
    using Cons.prems(3)
    by (simp add: k read_digits_acc [of "digit_val c"] algebra_simps power_add [symmetric])
qed

section \<open>What a well-formed literal denotes\<close>

definition digit_string :: "string \<Rightarrow> bool" where
  "digit_string s \<longleftrightarrow> list_all is_digit s"

text \<open>The nanos of a fraction: at most nine digits count, as \<^verbatim>\<open>scale\<close> reaches 0.\<close>

definition frac_nanos :: "string \<Rightarrow> nat" where
  "frac_nanos f = read_digits 0 (take 9 f) * 10 ^ (9 - min 9 (length f))"

definition signed_decimal :: "bool \<Rightarrow> nat \<Rightarrow> nat \<Rightarrow> decimal" where
  "signed_decimal neg u n =
     (if neg then \<lparr>units = - int u, nano = - int n\<rparr> else \<lparr>units = int u, nano = int n\<rparr>)"

lemma frac_nanos_less: "digit_string f \<Longrightarrow> frac_nanos f < 1000000000"
proof -
  assume "digit_string f"
  then have "list_all is_digit (take 9 f)"
    by (auto simp: digit_string_def list_all_iff dest: in_set_takeD)
  then have "read_digits 0 (take 9 f) < 10 ^ min 9 (length f)"
    using read_digits_less [of "take 9 f"] by (simp add: min.commute)
  then have "frac_nanos f < 10 ^ min 9 (length f) * 10 ^ (9 - min 9 (length f))"
    by (simp add: frac_nanos_def)
  then show ?thesis by (simp add: power_add [symmetric])
qed

lemma signed_decimal_inv:
  assumes "u < 9223372036854775808" "n < 1000000000"
  shows "dec_inv (signed_decimal neg u n)"
    and "mk_decimal (if neg then - int u else int u) (if neg then - int n else int n)
      = Inr (signed_decimal neg u n)"
proof -
  show inv: "dec_inv (signed_decimal neg u n)"
    using assms by (auto simp: signed_decimal_def dec_inv_def fits64_iff kNano_def)
  show "mk_decimal (if neg then - int u else int u) (if neg then - int n else int n)
      = Inr (signed_decimal neg u n)"
    using mk_decimal_id [OF inv] by (simp add: signed_decimal_def split: if_splits)
qed

lemma parse_frac_value:
  assumes "digit_string f"
  shows "parse_frac 0 (kNano sdiv 10) any f = Inr (int (frac_nanos f), any \<or> f \<noteq> [], [])"
proof -
  have dig: "list_all is_digit (take 9 f)" "list_all is_digit (drop 9 f)"
    using assms by (auto simp: digit_string_def list_all_iff dest: in_set_takeD in_set_dropD)
  have "parse_frac (int 0) (10 ^ 9 sdiv 10) any (take 9 f @ drop 9 f)
      = Inr (int (0 + read_digits 0 (take 9 f) * 10 ^ (9 - length (take 9 f))),
          any \<or> take 9 f @ drop 9 f \<noteq> [], [])"
    by (rule parse_frac_digits) (use dig in auto)
  then show ?thesis by (simp add: frac_nanos_def kNano_def min.commute)
qed

lemma parse_rest_frac:
  assumes "digit_string f" "sep = CHR ''.'' \<or> sep = CHR '',''"
  shows "parse_rest any (sep # f) = Inr (Some (int (frac_nanos f), any \<or> f \<noteq> []))"
  using assms(2) by (auto simp: parse_rest_def parse_frac_value [OF assms(1)])

lemma from_string_body_value:
  assumes "digit_string i" "r = [] \<or> \<not> is_digit (hd r)"
    and "parse_rest (i \<noteq> []) r = Inr (Some (int n, True))"
    and "read_digits 0 i < 9223372036854775808" "n < 1000000000"
  shows "from_string_body neg (i @ r) = Inr (Some (signed_decimal neg (read_digits 0 i) n))"
proof -
  have "parse_units 0 False (i @ r) = Inr (int (read_digits 0 i), i \<noteq> [], r)"
    using parse_units_digits [of i r 0 False] assms(1,2,4) by (simp add: digit_string_def)
  moreover have "fits 64 (if neg then - int (read_digits 0 i) else int (read_digits 0 i))"
    using assms(4) by (simp add: fits64_iff)
  ultimately show ?thesis
    using assms(3) signed_decimal_inv(2) [OF assms(4,5), of neg]
    by (simp add: from_string_body_def)
qed

lemma from_string_signed:
  "from_string (CHR ''-'' # s) = from_string_body True s"
  "from_string (CHR ''+'' # s) = from_string_body False s"
  "s \<noteq> [] \<Longrightarrow> hd s \<noteq> CHR ''-'' \<Longrightarrow> hd s \<noteq> CHR ''+'' \<Longrightarrow>
     from_string s = from_string_body False s"
  by (auto simp: from_string_def split: list.splits)

lemma digit_string_hd: "digit_string i \<Longrightarrow> i \<noteq> [] \<Longrightarrow> is_digit (hd i)"
  by (cases i) (simp_all add: digit_string_def)

definition sign_string :: "bool \<Rightarrow> string" where
  "sign_string neg = (if neg then ''-'' else [])"

lemma from_string_sign_string:
  assumes "s \<noteq> []" "hd s \<noteq> CHR ''-''" "hd s \<noteq> CHR ''+''"
  shows "from_string (sign_string neg @ s) = from_string_body neg s"
  using assms from_string_signed by (cases neg) (simp_all add: sign_string_def)

section \<open>The accepted language\<close>

text \<open>
  The grammar read off the early returns: an optional sign, integer digits, and optionally one
  separator with fraction digits after it, with one digit at least. \<open>from_string_ref\<close> is the
  reference: it splits the text instead of scanning it, and reads each part as a number.
\<close>

definition split_sign :: "string \<Rightarrow> bool \<times> string" where
  "split_sign s =
     (case s of
        [] \<Rightarrow> (False, [])
      | c # cs \<Rightarrow> if c = CHR ''-'' then (True, cs) else if c = CHR ''+'' then (False, cs)
          else (False, s))"

definition literal_tail :: "string \<Rightarrow> string \<Rightarrow> bool" where
  "literal_tail i r =
     (case r of
        [] \<Rightarrow> i \<noteq> []
      | c # f \<Rightarrow> (c = CHR ''.'' \<or> c = CHR '','') \<and> digit_string f \<and> (i \<noteq> [] \<or> f \<noteq> []))"

definition from_string_ref :: "string \<Rightarrow> decimal option cpp" where
  "from_string_ref s =
     (let (neg, body) = split_sign s; i = takeWhile is_digit body; r = dropWhile is_digit body
      in if 2 ^ 63 \<le> read_digits 0 i then Inl SignedOverflow
         else if literal_tail i r
         then Inr (Some (signed_decimal neg (read_digits 0 i) (frac_nanos (tl r))))
         else Inr None)"

lemma parse_frac_stops:
  assumes "list_all is_digit f" "\<not> is_digit c" "parse_frac n sc any f = Inr (m, a, [])"
  shows "parse_frac n sc any (f @ c # t) = Inr (m, a, c # t)"
  using assms
proof (induction f arbitrary: n sc any)
  case (Cons x f)
  then show ?case
    by (cases "checked 32 (n + narrow 32 (int (digit_val x) * sc))") simp_all
qed simp

lemma parse_rest_rejects:
  assumes "\<not> digit_string f"
  shows "parse_rest any (sep # f) = Inr None"
proof (cases "sep = CHR ''.'' \<or> sep = CHR '',''")
  case True
  let ?g = "takeWhile is_digit f"
  have g: "digit_string ?g" by (auto simp: digit_string_def list_all_iff dest: set_takeWhileD)
  from assms obtain c t where ct: "dropWhile is_digit f = c # t"
    by (cases "dropWhile is_digit f") (auto simp: digit_string_def list_all_iff dropWhile_eq_Nil_conv)
  then have f: "f = ?g @ c # t" and c: "\<not> is_digit c"
    using takeWhile_dropWhile_id [of is_digit f] hd_dropWhile [of is_digit f] by auto
  have "parse_frac 0 (kNano sdiv 10) any (?g @ c # t)
      = Inr (int (frac_nanos ?g), any \<or> ?g \<noteq> [], c # t)"
    using g c parse_frac_value [OF g] unfolding digit_string_def by (rule parse_frac_stops)
  then have "parse_frac 0 (kNano sdiv 10) any f
      = Inr (int (frac_nanos ?g), any \<or> ?g \<noteq> [], c # t)"
    using f by simp
  then show ?thesis using True by (auto simp: parse_rest_def)
qed (auto simp: parse_rest_def)

lemma parse_rest_tail:
  "parse_rest (i \<noteq> []) r =
     (if literal_tail i r then Inr (Some (int (frac_nanos (tl r)), True))
      else if r = [] \<or> (r = ''.'' \<or> r = '','') \<and> i = [] then Inr (Some (0, False))
      else Inr None)"
proof (cases r)
  case Nil
  then show ?thesis by (simp add: parse_rest_def literal_tail_def frac_nanos_def)
next
  case (Cons c f)
  show ?thesis
  proof (cases "(c = CHR ''.'' \<or> c = CHR '','') \<and> digit_string f")
    case True
    then have p: "parse_rest (i \<noteq> []) (c # f) = Inr (Some (int (frac_nanos f), i \<noteq> [] \<or> f \<noteq> []))"
      by (intro parse_rest_frac) auto
    show ?thesis
      unfolding Cons p using True by (auto simp: literal_tail_def frac_nanos_def)
  next
    case False
    then have "parse_rest (i \<noteq> []) (c # f) = Inr None"
      by (cases "digit_string f") (simp_all add: parse_rest_rejects, simp add: parse_rest_def)
    moreover have "\<not> literal_tail i r" using False Cons by (auto simp: literal_tail_def)
    moreover have "r \<noteq> ''.''" "r \<noteq> '',''" using False Cons by (auto simp: digit_string_def)
    ultimately show ?thesis using Cons by simp
  qed
qed

lemma from_string_body_ref:
  fixes body :: string
  defines "i \<equiv> takeWhile is_digit body" and "r \<equiv> dropWhile is_digit body"
  shows "from_string_body neg body =
    (if 2 ^ 63 \<le> read_digits 0 i then Inl SignedOverflow
     else if literal_tail i r
     then Inr (Some (signed_decimal neg (read_digits 0 i) (frac_nanos (tl r)))) else Inr None)"
proof -
  have body: "body = i @ r" by (simp add: i_def r_def)
  have i: "digit_string i"
    by (auto simp: i_def digit_string_def list_all_iff dest: set_takeWhileD)
  have r: "r = [] \<or> \<not> is_digit (hd r)" using hd_dropWhile [of is_digit body] by (auto simp: r_def)
  have units: "parse_units 0 False body =
      (if read_digits 0 i < 9223372036854775808
       then Inr (int (read_digits 0 i), i \<noteq> [], r) else Inl SignedOverflow)"
    using parse_units_digits [of i r 0 False] i r by (simp add: body digit_string_def)
  consider (big) "9223372036854775808 \<le> read_digits 0 i"
    | (lit) "read_digits 0 i < 9223372036854775808" "literal_tail i r"
    | (bad) "read_digits 0 i < 9223372036854775808" "\<not> literal_tail i r"
    by linarith
  then show ?thesis
  proof cases
    case big
    then show ?thesis by (simp add: from_string_body_def units)
  next
    case lit
    then have "digit_string (tl r)"
      by (auto simp: literal_tail_def digit_string_def split: list.splits)
    then have "from_string_body neg (i @ r)
        = Inr (Some (signed_decimal neg (read_digits 0 i) (frac_nanos (tl r))))"
      using lit i r by (intro from_string_body_value) (simp_all add: parse_rest_tail frac_nanos_less)
    then show ?thesis using lit by (simp add: body [symmetric])
  next
    case bad
    then show ?thesis by (simp add: from_string_body_def units parse_rest_tail)
  qed
qed

text \<open>
  C36: on every text the scanner equals the reference: a text of the grammar
  \<open>[+-] digits [(.|,) digits]\<close> with at least one digit is read to the decimal of exactly its
  sign, integer part and first nine fraction digits, every other text is rejected with
  \<^verbatim>\<open>nullopt\<close>, and the one undefined case is an integer part of \<open>2^63\<close> or more, which
  overflows the accumulator (whatever follows it).
\<close>

theorem from_string_spec: "from_string s = from_string_ref s"
proof (cases s)
  case Nil
  then show ?thesis
    by (simp add: from_string_def from_string_ref_def split_sign_def literal_tail_def)
next
  case (Cons c cs)
  then show ?thesis
    by (simp add: from_string_def from_string_ref_def split_sign_def from_string_body_ref Let_def)
qed

section \<open>Printing and parsing round trip\<close>

lemma abs_units_eq: "fits 64 u \<Longrightarrow> abs_units u = nat \<bar>u\<bar>"
proof (cases "u < 0")
  case True
  assume "fits 64 u"
  with True have "(- (u + 1)) mod 2 ^ 64 = - (u + 1)" "- (u + 1) + 1 < 2 ^ 64"
    by (auto simp: fits64_iff intro: mod_pos_pos_trivial)
  moreover from True have "nat (- (u + 1)) + 1 = nat (- u)" by simp
  moreover have "nat (- u) < 2 ^ 64" using \<open>fits 64 u\<close> by (auto simp: fits64_iff)
  ultimately show ?thesis using True by (simp add: abs_units_def)
next
  case False
  assume "fits 64 u"
  with False have "u mod 2 ^ 64 = u" by (auto simp: fits64_iff intro: mod_pos_pos_trivial)
  with False show ?thesis by (simp add: abs_units_def)
qed

lemma fill_buf_append: "fill_buf i frac buf = fill_buf i frac [] @ buf"
proof (induction i arbitrary: frac buf)
  case (Suc i)
  show ?case
    using Suc [of "frac div 10" "digit_char (frac mod 10) # buf"]
      Suc [of "frac div 10" "[digit_char (frac mod 10)]"] by simp
qed simp

lemma fill_buf_props:
  "length (fill_buf i frac []) = i \<and> digit_string (fill_buf i frac [])
     \<and> read_digits 0 (fill_buf i frac []) = frac mod 10 ^ i"
proof (induction i arbitrary: frac)
  case 0
  then show ?case by (simp add: digit_string_def)
next
  case (Suc i)
  let ?c = "digit_char (frac mod 10)"
  have "fill_buf (Suc i) frac [] = fill_buf i (frac div 10) [] @ [?c]"
    using fill_buf_append [of i "frac div 10" "[?c]"] by simp
  moreover have "frac div 10 mod 10 ^ i * 10 + frac mod 10 = frac mod 10 ^ Suc i"
    by (simp add: mod_mult2_eq mult.commute)
  ultimately show ?case
    using Suc [of "frac div 10"] by (simp add: digit_string_def read_digits_append)
qed

lemma trim_len_props:
  assumes "n \<le> length buf" "digit_string buf"
  shows "trim_len buf n \<le> n
    \<and> read_digits 0 (take (trim_len buf n) buf) * 10 ^ (n - trim_len buf n)
        = read_digits 0 (take n buf)"
  using assms(1)
proof (induction n)
  case (Suc n)
  then have tk: "take (Suc n) buf = take n buf @ [buf ! n]" by (simp add: take_Suc_conv_app_nth)
  from Suc have le: "trim_len buf n \<le> n" by simp
  show ?case
  proof (cases "buf ! n = CHR ''0''")
    case True
    have "digit_val CHR ''0'' = 0" by (simp add: digit_val_def)
    with Suc True tk le show ?thesis
      by (simp add: read_digits_append Suc_diff_le mult.commute mult.left_commute)
  qed simp
qed simp

lemma frac_string_parts:
  assumes "0 < frac" "frac < 10 ^ 9"
  shows "\<exists>f. frac_string frac = CHR ''.'' # f \<and> digit_string f \<and> frac_nanos f = frac"
proof -
  let ?buf = "fill_buf 9 frac []" and ?len = "trim_len (fill_buf 9 frac []) 9"
  have buf: "length ?buf = 9" "digit_string ?buf" "read_digits 0 ?buf = frac"
    using fill_buf_props [of 9 frac] assms(2) by simp_all
  have len: "?len \<le> 9" "read_digits 0 (take ?len ?buf) * 10 ^ (9 - ?len) = frac"
    using trim_len_props [of 9 ?buf] buf by simp_all
  have "frac_nanos (take ?len ?buf) = frac"
    using len buf(1) by (simp add: frac_nanos_def min_def)
  moreover have "digit_string (take ?len ?buf)"
    using buf(2) by (auto simp: digit_string_def list_all_iff dest: in_set_takeD)
  moreover have "frac_string frac = CHR ''.'' # take ?len ?buf"
    using assms(1) by (simp add: frac_string_def Let_def)
  ultimately show ?thesis by blast
qed

lemma decimal_to_string_parts:
  assumes "dec_inv d"
  shows "decimal_to_string d = sign_string (units d < 0 \<or> nano d < 0)
    @ show_nat (nat \<bar>units d\<bar>) @ frac_string (nat \<bar>nano d\<bar>)"
  using assms
  by (simp add: decimal_to_string_def sign_string_def abs_units_eq dec_inv_def abs_if)

lemma signed_decimal_self:
  "dec_inv d \<Longrightarrow>
     signed_decimal (units d < 0 \<or> nano d < 0) (nat \<bar>units d\<bar>) (nat \<bar>nano d\<bar>) = d"
  by (cases d) (auto simp: signed_decimal_def dec_inv_def)

lemma show_nat_hd: "show_nat n @ r \<noteq> []" "is_digit (hd (show_nat n @ r))"
  using show_nat_ne [of n] show_nat_digits [of n] by (auto simp: list_all_iff hd_append)

lemma from_string_printed:
  assumes "u < 9223372036854775808" "r = [] \<or> \<not> is_digit (hd r)"
    and "parse_rest True r = Inr (Some (int n, True))" "n < 1000000000"
  shows "from_string (sign_string neg @ show_nat u @ r) = Inr (Some (signed_decimal neg u n))"
proof -
  have "is_digit (hd (show_nat u @ r))" by (rule show_nat_hd)
  then have "from_string (sign_string neg @ show_nat u @ r) = from_string_body neg (show_nat u @ r)"
    using show_nat_ne [of u] by (intro from_string_sign_string) auto
  also have "\<dots> = Inr (Some (signed_decimal neg (read_digits 0 (show_nat u)) n))"
    using assms show_nat_digits [of u] show_nat_ne [of u]
    by (intro from_string_body_value) (auto simp: digit_string_def)
  finally show ?thesis by simp
qed

text \<open>
  C5: parsing the printed form of a well-formed decimal gives the decimal back, unless its units
  are the smallest 64-bit integer, whose magnitude overflows the parser's accumulator.
\<close>

theorem string_round_trip:
  assumes "dec_inv d"
  shows "from_string (decimal_to_string d) =
    (if units d = - (2 ^ 63) then Inl SignedOverflow else Inr (Some d))"
proof (cases "units d = - (2 ^ 63)")
  case True
  let ?r = "frac_string (nat \<bar>nano d\<bar>)" and ?u = "9223372036854775808 :: nat"
  have r: "?r = [] \<or> \<not> is_digit (hd ?r)" by (simp add: frac_string_def Let_def)
  have "decimal_to_string d = CHR ''-'' # show_nat ?u @ ?r"
    using True decimal_to_string_parts [OF assms] by (simp add: sign_string_def)
  moreover have "parse_units 0 False (show_nat ?u @ ?r) = Inl SignedOverflow"
    using parse_units_digits [OF show_nat_digits r, of 0 False ?u] by simp
  ultimately show ?thesis
    using True by (simp add: from_string_signed from_string_body_def)
next
  case False
  let ?neg = "units d < 0 \<or> nano d < 0"
  let ?u = "nat \<bar>units d\<bar>" and ?n = "nat \<bar>nano d\<bar>" and ?r = "frac_string (nat \<bar>nano d\<bar>)"
  have bounds: "?u < 9223372036854775808" "?n < 1000000000"
    using assms False by (auto simp: dec_inv_def fits64_iff kNano_def)
  have rest: "(?r = [] \<or> \<not> is_digit (hd ?r)) \<and> parse_rest True ?r = Inr (Some (int ?n, True))"
  proof (cases "?n = 0")
    case True
    then show ?thesis by (simp add: frac_string_def parse_rest_def)
  next
    case False
    then obtain f where "?r = CHR ''.'' # f" "digit_string f" "frac_nanos f = ?n"
      using frac_string_parts [of ?n] bounds(2) by auto
    then show ?thesis using parse_rest_frac [of f "CHR ''.''" True] by simp
  qed
  have "from_string (decimal_to_string d) = Inr (Some (signed_decimal ?neg ?u ?n))"
    unfolding decimal_to_string_parts [OF assms]
    using from_string_printed [OF bounds(1) _ _ bounds(2)] rest by blast
  then show ?thesis using False signed_decimal_self [OF assms] by simp
qed

theorem string_round_trip_witness:
  "from_string (decimal_to_string \<lparr>units = - 7, nano = - 10000000\<rparr>)
     = Inr (Some \<lparr>units = - 7, nano = - 10000000\<rparr>)"
proof -
  have h: "dec_inv \<lparr>units = - 7, nano = - 10000000\<rparr>"
    by (simp add: dec_inv_def fits64_iff kNano_def)
  show ?thesis using string_round_trip [OF h] by simp
qed

end
