(* ===== verification/Account_Examples.thy ===== *)
theory Account_Examples
  imports Decimal_String Coroutines Unary
begin

text \<open>
  The example programs that work with accounts: \<^verbatim>\<open>examples/accounts.cpp\<close>,
  \<^verbatim>\<open>examples/sandbox_trade.cpp\<close> (blocking calls) and \<^verbatim>\<open>examples/coro_trade.cpp\<close> (the same
  kind of session as a coroutine).

  The API is a parameter: what a wrapper returns for a request, as a function of the server's
  state (\<open>Unary\<close> says how a wrapper obtains it). A program's effects are the trace of its
  requests and of the lines it prints, in order; a program is a function on the \<open>world\<close>, the
  server's state and the trace. A paragraph of the source is one definition. The coroutine is a
  body of \<open>Coroutines\<close> whose effects act on the same world.
\<close>

section \<open>Messages\<close>

datatype order_direction = ORDER_DIRECTION_UNSPECIFIED | ORDER_DIRECTION_BUY | ORDER_DIRECTION_SELL

datatype order_type = ORDER_TYPE_UNSPECIFIED | ORDER_TYPE_LIMIT | ORDER_TYPE_MARKET | ORDER_TYPE_BESTPRICE

text \<open>The fields of \<^verbatim>\<open>PostOrderRequest\<close> that the examples set, and the idempotency key.\<close>

record post_order_request =
  po_account_id :: string
  po_instrument_id :: string
  po_quantity :: int
  po_direction :: order_direction
  po_order_type :: order_type
  po_order_id :: string

definition empty_order :: post_order_request where
  "empty_order = \<lparr>po_account_id = [], po_instrument_id = [], po_quantity = 0,
     po_direction = ORDER_DIRECTION_UNSPECIFIED, po_order_type = ORDER_TYPE_UNSPECIFIED, po_order_id = []\<rparr>"

datatype api_request =
    OpenSandboxAccount
  | SandboxPayIn string money_value
  | PostSandboxOrder post_order_request
  | GetSandboxPortfolio string
  | CloseSandboxAccount string
  | GetInfo
  | GetAccounts
  | GetPortfolio string

record account =
  acc_id :: string
  acc_name :: string
  acc_type :: int
  acc_status :: int

datatype api_response =
    AccountOpened string
  | PaidIn money_value
  | OrderPosted string int money_value
  | SandboxPositions "(string \<times> quotation) list"
  | AccountClosed
  | Info string bool
  | Accounts "account list"
  | PortfolioTotal money_value int

text \<open>
  Reading a field. The signature of each wrapper fixes its response type, so the defaults, those
  of an empty message, are never read on an answer of the right type.
\<close>

primrec account_id_of :: "api_response \<Rightarrow> string" where
  "account_id_of (AccountOpened a) = a"
| "account_id_of (PaidIn m) = []"
| "account_id_of (OrderPosted i st m) = []"
| "account_id_of (SandboxPositions ps) = []"
| "account_id_of AccountClosed = []"
| "account_id_of (Info t q) = []"
| "account_id_of (Accounts as) = []"
| "account_id_of (PortfolioTotal m n) = []"

definition no_money :: money_value where
  "no_money = \<lparr>mv_currency = [], mv_units = 0, mv_nano = 0\<rparr>"

definition balance_of :: "api_response \<Rightarrow> money_value" where
  "balance_of r = (case r of PaidIn m \<Rightarrow> m | _ \<Rightarrow> no_money)"

definition posted_of :: "api_response \<Rightarrow> string \<times> int \<times> money_value" where
  "posted_of r = (case r of OrderPosted i st m \<Rightarrow> (i, st, m) | _ \<Rightarrow> ([], 0, no_money))"

definition positions_of :: "api_response \<Rightarrow> (string \<times> quotation) list" where
  "positions_of r = (case r of SandboxPositions ps \<Rightarrow> ps | _ \<Rightarrow> [])"

definition accounts_of :: "api_response \<Rightarrow> account list" where
  "accounts_of r = (case r of Accounts as \<Rightarrow> as | _ \<Rightarrow> [])"

definition info_of :: "api_response \<Rightarrow> string \<times> bool" where
  "info_of r = (case r of Info t q \<Rightarrow> (t, q) | _ \<Rightarrow> ([], False))"

definition total_of :: "api_response \<Rightarrow> money_value \<times> int" where
  "total_of r = (case r of PortfolioTotal m n \<Rightarrow> (m, n) | _ \<Rightarrow> (no_money, 0))"

section \<open>The world\<close>

datatype event = Request api_request | Out string | ErrOut string

record 's world =
  w_state :: 's
  w_trace :: "event list"

type_synonym 's api = "'s \<Rightarrow> api_request \<Rightarrow> api_response result \<times> 's"

definition note_event :: "event \<Rightarrow> 's world \<Rightarrow> 's world" where
  "note_event ev w = w\<lparr>w_trace := w_trace w @ [ev]\<rparr>"

definition call_api :: "'s api \<Rightarrow> api_request \<Rightarrow> 's world \<Rightarrow> api_response result \<times> 's world" where
  "call_api api q w = (case api (w_state w) q of (r, s1) \<Rightarrow> (r, note_event (Request q) (w\<lparr>w_state := s1\<rparr>)))"

definition nl :: string where
  "nl = [CHR 0x0A]"

text \<open>What \<^verbatim>\<open>printf\<close> prints of a string's \<^verbatim>\<open>c_str()\<close>: the characters before the first NUL.\<close>

definition c_str :: "string \<Rightarrow> string" where
  "c_str x = takeWhile (\<lambda>c. c \<noteq> CHR 0x00) x"

definition money_text :: "money_value \<Rightarrow> string cpp" where
  "money_text mv = cbind (money_of_pb mv) (\<lambda>m. Inr (c_str (money_to_string m)))"

definition quotation_text :: "quotation \<Rightarrow> string cpp" where
  "quotation_text q = cbind (decimal_of_quotation q) (\<lambda>d. Inr (c_str (decimal_to_string d)))"

text \<open>The first command line argument, and the token from the environment.\<close>

definition instrument_arg :: "string list \<Rightarrow> string" where
  "instrument_arg args = (case args of [] \<Rightarrow> ''BBG004730N88'' | a # _ \<Rightarrow> a)"

text \<open>The argument with an index, counted from the first after the program's name.\<close>

definition int_arg :: "string list \<Rightarrow> nat \<Rightarrow> int \<Rightarrow> int cpp" where
  "int_arg args i dflt = (if i < length args then atoi (args ! i) else Inr dflt)"

section \<open>sandbox\_trade\<close>

definition pay_request :: "int \<Rightarrow> string \<Rightarrow> api_request cpp" where
  "pay_request rub account_id =
     cbind (mk_decimal rub 0) (\<lambda>d. Inr (SandboxPayIn account_id (to_money d ''rub'')))"

definition market_buy :: "string \<Rightarrow> string \<Rightarrow> api_request" where
  "market_buy account_id instrument =
     PostSandboxOrder (empty_order\<lparr>po_account_id := account_id, po_instrument_id := instrument, po_quantity := 1,
       po_direction := ORDER_DIRECTION_BUY, po_order_type := ORDER_TYPE_MARKET\<rparr>)"

definition sandbox_pay_in :: "'s api \<Rightarrow> string \<Rightarrow> 's world \<Rightarrow> 's world cpp" where
  "sandbox_pay_in api account_id w =
     cbind (pay_request 100000 account_id) (\<lambda>q.
       case call_api api q w of
         (Value r, w1) \<Rightarrow> cbind (money_text (balance_of r)) (\<lambda>t. Inr (note_event (Out (''balance: '' @ t @ nl)) w1))
       | (Failure e, w1) \<Rightarrow> Inr (note_event (ErrOut (''SandboxPayIn failed: '' @ c_str (error_to_string e) @ nl)) w1))"

definition sandbox_order :: "'s api \<Rightarrow> string \<Rightarrow> string \<Rightarrow> 's world \<Rightarrow> 's world cpp" where
  "sandbox_order api account_id instrument w =
     (case call_api api (market_buy account_id instrument) w of
        (Value r, w1) \<Rightarrow>
          (case posted_of r of (i, st, m) \<Rightarrow> cbind (money_text m) (\<lambda>t.
             Inr (note_event (Out (''order '' @ c_str i @ '' status='' @ show_int st @ '' executed='' @ t @ nl)) w1)))
      | (Failure e, w1) \<Rightarrow> Inr (note_event (ErrOut (''PostSandboxOrder failed: '' @ c_str (error_to_string e) @ nl)) w1))"

fun print_positions :: "(string \<times> quotation) list \<Rightarrow> 's world \<Rightarrow> 's world cpp" where
  "print_positions [] w = Inr w"
| "print_positions ((figi, q) # ps) w =
     cbind (quotation_text q) (\<lambda>t. print_positions ps (note_event (Out (''position '' @ c_str figi @ '' x '' @ t @ nl)) w))"

definition sandbox_portfolio :: "'s api \<Rightarrow> string \<Rightarrow> 's world \<Rightarrow> 's world cpp" where
  "sandbox_portfolio api account_id w =
     (case call_api api (GetSandboxPortfolio account_id) w of
        (Value r, w1) \<Rightarrow> print_positions (positions_of r) w1
      | (Failure e, w1) \<Rightarrow> Inr w1)"

definition sandbox_close :: "'s api \<Rightarrow> string \<Rightarrow> 's world \<Rightarrow> 's world" where
  "sandbox_close api account_id w =
     (case call_api api (CloseSandboxAccount account_id) w of
        (Value r, w1) \<Rightarrow> note_event (Out (''closed sandbox account'' @ nl)) w1
      | (Failure e, w1) \<Rightarrow> w1)"

definition sandbox_session :: "'s api \<Rightarrow> string \<Rightarrow> 's world \<Rightarrow> (int \<times> 's world) cpp" where
  "sandbox_session api instrument w =
     (case call_api api OpenSandboxAccount w of
        (Failure e, w1) \<Rightarrow>
          Inr (1, note_event (ErrOut (''OpenSandboxAccount failed: '' @ c_str (error_to_string e) @ nl)) w1)
      | (Value r, w1) \<Rightarrow>
          let account_id = account_id_of r;
              w2 = note_event (Out (''opened sandbox account '' @ c_str account_id @ nl)) w1
          in cbind (sandbox_pay_in api account_id w2) (\<lambda>w3.
             cbind (sandbox_order api account_id instrument w3) (\<lambda>w4.
             cbind (sandbox_portfolio api account_id w4) (\<lambda>w5.
               Inr (0, sandbox_close api account_id w5)))))"

definition sandbox_main :: "'s api \<Rightarrow> string option \<Rightarrow> string list \<Rightarrow> 's world \<Rightarrow> (int \<times> 's world) cpp" where
  "sandbox_main api token args w =
     (case token of
        None \<Rightarrow> Inr (1, note_event (ErrOut (''Set TINVEST_TOKEN (sandbox token)'' @ nl)) w)
      | Some t \<Rightarrow> sandbox_session api (instrument_arg args) w)"

section \<open>coro\_trade\<close>

text \<open>
  The body of the coroutine. An effect that is not a call is performed in place; a balance that
  cannot be converted (undefined behaviour) ends the body as an exception of type \<^typ>\<open>ub\<close>.
\<close>

type_synonym session = "(int, ub, event, api_response result) co"

definition coro_close :: "string \<Rightarrow> session" where
  "coro_close account_id =
     AwaitCall (Request (CloseSandboxAccount account_id)) (\<lambda>_.
       Perform (Out (''closed sandbox account'' @ nl)) (CoReturn 0))"

definition coro_order :: "string \<Rightarrow> string \<Rightarrow> session" where
  "coro_order instrument account_id =
     AwaitCall (Request (market_buy account_id instrument)) (\<lambda>posted.
       case posted of
         Value r \<Rightarrow> (case posted_of r of (i, st, m) \<Rightarrow>
           (case money_text m of
              Inl u \<Rightarrow> CoThrow u
            | Inr t \<Rightarrow> Perform (Out (''order '' @ c_str i @ '' executed='' @ t @ nl)) (coro_close account_id)))
       | Failure e \<Rightarrow>
           Perform (ErrOut (''PostSandboxOrder failed: '' @ c_str (error_to_string e) @ nl)) (coro_close account_id))"

definition coro_pay_in :: "string \<Rightarrow> string \<Rightarrow> session" where
  "coro_pay_in instrument account_id =
     (case pay_request 50000 account_id of
        Inl u \<Rightarrow> CoThrow u
      | Inr q \<Rightarrow> AwaitCall (Request q) (\<lambda>paid.
          case paid of
            Value r \<Rightarrow>
              (case money_text (balance_of r) of
                 Inl u \<Rightarrow> CoThrow u
               | Inr t \<Rightarrow> Perform (Out (''balance: '' @ t @ nl)) (coro_order instrument account_id))
          | Failure e \<Rightarrow> coro_order instrument account_id))"

definition coro_run :: "string \<Rightarrow> session" where
  "coro_run instrument =
     AwaitCall (Request OpenSandboxAccount) (\<lambda>opened.
       case opened of
         Failure e \<Rightarrow> Perform (ErrOut (''OpenSandboxAccount failed: '' @ c_str (error_to_string e) @ nl)) (CoReturn 1)
       | Value r \<Rightarrow> Perform (Out (''opened sandbox account '' @ c_str (account_id_of r) @ nl))
           (coro_pay_in instrument (account_id_of r)))"

text \<open>The world as seen by a coroutine: calls are answered, other events are recorded.\<close>

definition coro_answer :: "'s api \<Rightarrow> 's world \<Rightarrow> event \<Rightarrow> api_response result \<times> 's world" where
  "coro_answer api w ev =
     (case ev of
        Request q \<Rightarrow> call_api api q w
      | Out x \<Rightarrow> (Failure default_error, note_event ev w)
      | ErrOut x \<Rightarrow> (Failure default_error, note_event ev w))"

section \<open>accounts\<close>

definition print_info :: "'s api \<Rightarrow> 's world \<Rightarrow> 's world" where
  "print_info api w =
     (case call_api api GetInfo w of
        (Value r, w1) \<Rightarrow> note_event (Out (''tariff='' @ c_str (fst (info_of r)) @ '' qualified=''
          @ show_int (if snd (info_of r) then 1 else 0) @ nl)) w1
      | (Failure e, w1) \<Rightarrow> note_event (ErrOut (''GetInfo failed: '' @ c_str (error_to_string e) @ nl)) w1)"

definition print_account :: "'s api \<Rightarrow> account \<Rightarrow> 's world \<Rightarrow> 's world cpp" where
  "print_account api acc w =
     (case call_api api (GetPortfolio (acc_id acc))
        (note_event (Out (''account '' @ c_str (acc_id acc) @ ''  name='' @ c_str (acc_name acc) @ ''  type='' @ show_int (acc_type acc)
           @ ''  status='' @ show_int (acc_status acc) @ nl)) w) of
        (Value r, w1) \<Rightarrow> cbind (money_text (fst (total_of r))) (\<lambda>t.
          Inr (note_event (Out (''  portfolio total: '' @ t @ '', positions: '' @ show_int (snd (total_of r)) @ nl)) w1))
      | (Failure e, w1) \<Rightarrow> Inr w1)"

fun print_accounts :: "'s api \<Rightarrow> account list \<Rightarrow> 's world \<Rightarrow> 's world cpp" where
  "print_accounts api [] w = Inr w"
| "print_accounts api (a # as) w = cbind (print_account api a w) (print_accounts api as)"

definition accounts_main :: "'s api \<Rightarrow> string option \<Rightarrow> 's world \<Rightarrow> (int \<times> 's world) cpp" where
  "accounts_main api token w =
     (case token of
        None \<Rightarrow> Inr (1, note_event (ErrOut (''Set TINVEST_TOKEN environment variable'' @ nl)) w)
      | Some t \<Rightarrow>
          (case call_api api GetAccounts (print_info api w) of
             (Failure e, w1) \<Rightarrow> Inr (1, note_event (ErrOut (''GetAccounts failed: '' @ c_str (error_to_string e) @ nl)) w1)
           | (Value r, w1) \<Rightarrow> cbind (print_accounts api (accounts_of r) w1) (\<lambda>w2. Inr (0, w2))))"

text \<open>The main functions of the coroutine example: \<^verbatim>\<open>sync_wait\<close> drives the task of \<open>coro_run\<close>.\<close>

datatype 's coro_program = Exits int "'s world" | Waits "(int, ub, event, api_response result, 's world) machine"

definition coro_main :: "string option \<Rightarrow> string list \<Rightarrow> 's world \<Rightarrow> 's coro_program" where
  "coro_main token args w =
     (case token of
        None \<Rightarrow> Exits 1 (note_event (ErrOut (''Set TINVEST_TOKEN (sandbox token)'' @ nl)) w)
      | Some t \<Rightarrow> Waits (sync_wait_start (coro_run (instrument_arg args)) w))"

section \<open>Requests\<close>

fun requests :: "event list \<Rightarrow> api_request list" where
  "requests [] = []"
| "requests (Request q # evs) = q # requests evs"
| "requests (Out x # evs) = requests evs"
| "requests (ErrOut x # evs) = requests evs"

abbreviation sent :: "'s world \<Rightarrow> api_request list" where
  "sent w \<equiv> requests (w_trace w)"

lemma requests_append [simp]: "requests (xs @ ys) = requests xs @ requests ys"
  by (induction xs rule: requests.induct) simp_all

lemma sent_note_event [simp]: "sent (note_event ev w) = sent w @ requests [ev]"
  by (simp add: note_event_def)

lemma call_api_eq:
  "call_api api q w = (fst (api (w_state w) q), note_event (Request q) (w\<lparr>w_state := snd (api (w_state w) q)\<rparr>))"
  by (simp add: call_api_def split: prod.splits)

text \<open>An answer whose amounts are values of their protobuf types that \<^verbatim>\<open>Decimal\<close> can normalise.\<close>

definition amount_ok :: "int \<Rightarrow> int \<Rightarrow> bool" where
  "amount_ok u n \<longleftrightarrow> fits 64 u \<and> fits 32 n \<and> fits 64 (u + n sdiv kNano)"

definition response_ok :: "api_response \<Rightarrow> bool" where
  "response_ok r = (case r of
     PaidIn m \<Rightarrow> amount_ok (mv_units m) (mv_nano m)
   | OrderPosted i st m \<Rightarrow> amount_ok (mv_units m) (mv_nano m)
   | SandboxPositions ps \<Rightarrow> list_all (\<lambda>(f, q). amount_ok (q_units q) (q_nano q)) ps
   | PortfolioTotal m n \<Rightarrow> amount_ok (mv_units m) (mv_nano m)
   | _ \<Rightarrow> True)"

definition answers_ok :: "'s api \<Rightarrow> bool" where
  "answers_ok api \<longleftrightarrow> (\<forall>s q r. fst (api s q) = Value r \<longrightarrow> response_ok r)"

lemma amount_ok_decimal: "amount_ok u n \<Longrightarrow> \<exists>d. mk_decimal u n = Inr d"
  using mk_decimal_defined_iff by (auto simp: amount_ok_def)

lemma amount_ok_zero [simp]: "amount_ok 0 0"
  by (simp add: amount_ok_def fits_def sdiv_nonneg)

lemma money_text_defined: "amount_ok (mv_units m) (mv_nano m) \<Longrightarrow> \<exists>t. money_text m = Inr t"
  using amount_ok_decimal by (fastforce simp: money_text_def money_of_pb_def)

lemma quotation_text_defined: "amount_ok (q_units q) (q_nano q) \<Longrightarrow> \<exists>t. quotation_text q = Inr t"
  using amount_ok_decimal by (fastforce simp: quotation_text_def decimal_of_quotation_def)

lemma response_amounts:
  assumes "response_ok r"
  shows "\<exists>t. money_text (balance_of r) = Inr t" "\<exists>t. money_text (snd (snd (posted_of r))) = Inr t"
    "\<exists>t. money_text (fst (total_of r)) = Inr t" "list_all (\<lambda>(f, q). amount_ok (q_units q) (q_nano q)) (positions_of r)"
  using assms
  by (cases r; auto simp: response_ok_def balance_of_def posted_of_def total_of_def positions_of_def no_money_def
      intro: money_text_defined)+

text \<open>The amount of a deposit is exact.\<close>

lemma pay_request_eq [simp]:
  "pay_request 100000 a = Inr (SandboxPayIn a \<lparr>mv_currency = ''rub'', mv_units = 100000, mv_nano = 0\<rparr>)"
  "pay_request 50000 a = Inr (SandboxPayIn a \<lparr>mv_currency = ''rub'', mv_units = 50000, mv_nano = 0\<rparr>)"
  using mk_decimal_id [of "\<lparr>units = 100000, nano = 0\<rparr>"] mk_decimal_id [of "\<lparr>units = 50000, nano = 0\<rparr>"]
  by (simp_all add: pay_request_def to_money_def dec_inv_def fits_def kNano_def)

section \<open>The blocking session\<close>

abbreviation rubles :: "int \<Rightarrow> money_value" where
  "rubles n \<equiv> \<lparr>mv_currency = ''rub'', mv_units = n, mv_nano = 0\<rparr>"

lemma answers_okD: "answers_ok api \<Longrightarrow> fst (api s q) = Value r \<Longrightarrow> response_ok r"
  by (simp add: answers_ok_def)

lemma sandbox_pay_in_sent:
  assumes "answers_ok api"
  shows "\<exists>w'. sandbox_pay_in api a w = Inr w' \<and> sent w' = sent w @ [SandboxPayIn a (rubles 100000)]"
proof (cases "fst (api (w_state w) (SandboxPayIn a (rubles 100000)))")
  case (Value r)
  then show ?thesis
    using response_amounts(1) [OF answers_okD [OF assms Value]] by (auto simp: sandbox_pay_in_def call_api_eq)
qed (simp add: sandbox_pay_in_def call_api_eq)

lemma sandbox_order_sent:
  assumes "answers_ok api"
  shows "\<exists>w'. sandbox_order api a i w = Inr w' \<and> sent w' = sent w @ [market_buy a i]"
proof (cases "fst (api (w_state w) (market_buy a i))")
  case (Value r)
  then show ?thesis
    using response_amounts(2) [OF answers_okD [OF assms Value]]
    by (auto simp: sandbox_order_def call_api_eq split: prod.splits)
qed (simp add: sandbox_order_def call_api_eq)

lemma print_positions_sent:
  "list_all (\<lambda>(f, q). amount_ok (q_units q) (q_nano q)) ps
   \<Longrightarrow> \<exists>w'. print_positions ps w = Inr w' \<and> sent w' = sent w"
proof (induction ps w rule: print_positions.induct)
  case (2 figi q ps w)
  then show ?case using quotation_text_defined [of q] by auto
qed simp

lemma sandbox_portfolio_sent:
  assumes "answers_ok api"
  shows "\<exists>w'. sandbox_portfolio api a w = Inr w' \<and> sent w' = sent w @ [GetSandboxPortfolio a]"
proof (cases "fst (api (w_state w) (GetSandboxPortfolio a))")
  case (Value r)
  then show ?thesis
    using print_positions_sent [OF response_amounts(4) [OF answers_okD [OF assms Value]]]
    by (fastforce simp: sandbox_portfolio_def call_api_eq)
qed (simp add: sandbox_portfolio_def call_api_eq)

lemma sandbox_close_sent: "sent (sandbox_close api a w) = sent w @ [CloseSandboxAccount a]"
  by (simp add: sandbox_close_def call_api_eq split: result.splits)

text \<open>
  The sandbox example performs exactly this session. Without a token it sends nothing and
  exits with 1; when no account can be opened it sends nothing more and exits with 1; otherwise it
  pays in 100000 rubles, buys one lot at the market, reads the portfolio and closes the account it
  opened, in this order and whichever of these calls fail, and exits with 0. So every account that
  it opens is asked to be closed, once and last.
\<close>

lemma sandbox_session_requests:
  assumes "answers_ok api"
  shows "(\<exists>w'. sandbox_main api None args w = Inr (1, w') \<and> sent w' = sent w)
    \<and> (\<exists>code w'. sandbox_main api (Some token) args w = Inr (code, w')
        \<and> (case fst (api (w_state w) OpenSandboxAccount) of
             Failure e \<Rightarrow> code = 1 \<and> sent w' = sent w @ [OpenSandboxAccount]
           | Value r \<Rightarrow> code = 0 \<and> sent w' = sent w @ [OpenSandboxAccount, SandboxPayIn (account_id_of r) (rubles 100000),
               market_buy (account_id_of r) (instrument_arg args), GetSandboxPortfolio (account_id_of r),
               CloseSandboxAccount (account_id_of r)]))"
proof (cases "fst (api (w_state w) OpenSandboxAccount)")
  case (Value r)
  let ?a = "account_id_of r"
  obtain w2 where open_: "call_api api OpenSandboxAccount w = (Value r, w2)" "sent w2 = sent w @ [OpenSandboxAccount]"
    using Value by (simp add: call_api_eq)
  let ?w2 = "note_event (Out (''opened sandbox account '' @ c_str ?a @ nl)) w2"
  obtain w3 where w3: "sandbox_pay_in api ?a ?w2 = Inr w3" "sent w3 = sent ?w2 @ [SandboxPayIn ?a (rubles 100000)]"
    using sandbox_pay_in_sent [OF assms] by blast
  obtain w4 where w4: "sandbox_order api ?a (instrument_arg args) w3 = Inr w4"
      "sent w4 = sent w3 @ [market_buy ?a (instrument_arg args)]"
    using sandbox_order_sent [OF assms] by blast
  obtain w5 where w5: "sandbox_portfolio api ?a w4 = Inr w5" "sent w5 = sent w4 @ [GetSandboxPortfolio ?a]"
    using sandbox_portfolio_sent [OF assms] by blast
  show ?thesis
    using Value open_ w3 w4 w5
    by (simp add: sandbox_main_def sandbox_session_def Let_def sandbox_close_sent)
qed (simp add: sandbox_main_def sandbox_session_def call_api_eq)

section \<open>The coroutine session\<close>

lemma coro_answer_simps [simp]:
  "coro_answer api w (Request q) = call_api api q w"
  "snd (coro_answer api w (Out x)) = note_event (Out x) w"
  "snd (coro_answer api w (ErrOut x)) = note_event (ErrOut x) w"
  by (simp_all add: coro_answer_def)

text \<open>The outcome of a body and the requests it has sent.\<close>

abbreviation outcome :: "'s api \<Rightarrow> session \<Rightarrow> 's world \<Rightarrow> (ub + int) \<times> api_request list" where
  "outcome api c w \<equiv> map_prod id sent (direct (coro_answer api) c w)"

lemma coro_close_sent: "outcome api (coro_close a) w = (Inr 0, sent w @ [CloseSandboxAccount a])"
  by (simp add: coro_close_def call_api_eq)

lemma coro_order_sent:
  assumes "answers_ok api"
  shows "outcome api (coro_order i a) w = (Inr 0, sent w @ [market_buy a i, CloseSandboxAccount a])"
proof (cases "fst (api (w_state w) (market_buy a i))")
  case (Value r)
  then show ?thesis
    using response_amounts(2) [OF answers_okD [OF assms Value]]
    by (auto simp: coro_order_def call_api_eq coro_close_sent split: prod.splits)
qed (simp add: coro_order_def call_api_eq coro_close_sent)

lemma coro_pay_in_sent:
  assumes "answers_ok api"
  shows "outcome api (coro_pay_in i a) w
    = (Inr 0, sent w @ [SandboxPayIn a (rubles 50000), market_buy a i, CloseSandboxAccount a])"
proof (cases "fst (api (w_state w) (SandboxPayIn a (rubles 50000)))")
  case (Value r)
  then show ?thesis
    using response_amounts(1) [OF answers_okD [OF assms Value]]
    by (auto simp: coro_pay_in_def call_api_eq coro_order_sent [OF assms])
qed (simp add: coro_pay_in_def call_api_eq coro_order_sent [OF assms])

lemma coro_run_sent:
  assumes "answers_ok api"
  shows "outcome api (coro_run i) w =
    (case fst (api (w_state w) OpenSandboxAccount) of
       Failure e \<Rightarrow> (Inr 1, sent w @ [OpenSandboxAccount])
     | Value r \<Rightarrow> (Inr 0, sent w @ [OpenSandboxAccount, SandboxPayIn (account_id_of r) (rubles 50000),
         market_buy (account_id_of r) i, CloseSandboxAccount (account_id_of r)]))"
  by (simp add: coro_run_def call_api_eq coro_pay_in_sent [OF assms] split: result.splits)

text \<open>
  C27: the coroutine example, driven by sync_wait, always reaches its end, and the process then
  exits with the code and has sent the requests of the same session written as blocking code: open,
  pay in 50000 rubles, buy one lot at the market, close the account it opened, in this order
  and whichever of the later calls fail; only the opening is sent when that fails.
\<close>

theorem coro_session_requests:
  assumes "answers_ok api" "coro_main (Some token) args w = Waits m0" "(co_step (coro_answer api))\<^sup>*\<^sup>* m0 m1"
  shows "\<exists>m code. (co_step (coro_answer api))\<^sup>*\<^sup>* m1 m \<and> sync_wait_result m = Some (Inr (Inr code))
    \<and> (case fst (api (w_state w) OpenSandboxAccount) of
         Failure e \<Rightarrow> code = 1 \<and> sent (mc_server m) = sent w @ [OpenSandboxAccount]
       | Value r \<Rightarrow> code = 0 \<and> sent (mc_server m) = sent w @ [OpenSandboxAccount,
           SandboxPayIn (account_id_of r) (rubles 50000), market_buy (account_id_of r) (instrument_arg args),
           CloseSandboxAccount (account_id_of r)])"
proof -
  let ?d = "direct (coro_answer api) (coro_run (instrument_arg args)) w"
  obtain m where m: "sync_wait_result m = Some (Inr (fst ?d))" "mc_server m = snd ?d"
      "(co_step (coro_answer api))\<^sup>*\<^sup>* m1 m"
    using sync_wait_runs [of "coro_answer api" "coro_run (instrument_arg args)" w] assms(2,3)
    by (auto simp: coro_main_def)
  have "(fst ?d, sent (snd ?d)) = outcome api (coro_run (instrument_arg args)) w" by (cases ?d) simp
  then show ?thesis
    using m coro_run_sent [OF assms(1), of "instrument_arg args" w] by (auto split: result.splits)
qed

section \<open>The account listing\<close>

lemma print_account_sent:
  assumes "answers_ok api"
  shows "\<exists>w'. print_account api acc w = Inr w' \<and> sent w' = sent w @ [GetPortfolio (acc_id acc)]"
proof (cases "api (w_state w) (GetPortfolio (acc_id acc))")
  case (Pair res s1)
  show ?thesis
  proof (cases res)
    case (Value r)
    then have "fst (api (w_state w) (GetPortfolio (acc_id acc))) = Value r" using Pair by simp
    from response_amounts(3) [OF answers_okD [OF assms this]] show ?thesis
      using Pair Value by (auto simp: print_account_def call_api_eq note_event_def)
  qed (use Pair in \<open>simp add: print_account_def call_api_eq note_event_def\<close>)
qed

lemma print_accounts_sent:
  assumes "answers_ok api"
  shows "\<exists>w'. print_accounts api as w = Inr w' \<and> sent w' = sent w @ map (GetPortfolio \<circ> acc_id) as"
proof (induction as arbitrary: w)
  case (Cons a as)
  obtain w1 where w1: "print_account api a w = Inr w1" "sent w1 = sent w @ [GetPortfolio (acc_id a)]"
    using print_account_sent [OF assms] by blast
  then show ?case using Cons.IH [of w1] by auto
qed simp

text \<open>
  The account listing asks for the tariff, goes on whether or not that succeeds, asks for the
  accounts and then for one portfolio per account, in the order of the answer; a portfolio that
  cannot be read does not end the listing. It exits with 1 exactly when the accounts cannot be read.
\<close>

lemma accounts_listing:
  assumes "answers_ok api"
  shows "\<exists>code w'. accounts_main api (Some token) w = Inr (code, w')
    \<and> (case fst (api (snd (api (w_state w) GetInfo)) GetAccounts) of
         Failure e \<Rightarrow> code = 1 \<and> sent w' = sent w @ [GetInfo, GetAccounts]
       | Value r \<Rightarrow> code = 0
           \<and> sent w' = sent w @ [GetInfo, GetAccounts] @ map (GetPortfolio \<circ> acc_id) (accounts_of r))"
proof -
  have info: "w_state (print_info api w) = snd (api (w_state w) GetInfo)" "sent (print_info api w) = sent w @ [GetInfo]"
    by (simp_all add: print_info_def call_api_eq note_event_def split: result.splits)
  show ?thesis
  proof (cases "fst (api (snd (api (w_state w) GetInfo)) GetAccounts)")
    case (Value r)
    obtain w1 where w1: "call_api api GetAccounts (print_info api w) = (Value r, w1)"
        "sent w1 = sent w @ [GetInfo, GetAccounts]"
      using Value info by (simp add: call_api_eq)
    then show ?thesis
      using Value print_accounts_sent [OF assms, of "accounts_of r" w1] by (auto simp: accounts_main_def)
  qed (use info in \<open>simp add: accounts_main_def call_api_eq\<close>)
qed

section \<open>A server for the examples\<close>

text \<open>It opens accounts, accepts deposits and fills orders; reading the tariff and closing an account fail.\<close>

definition example_server :: "nat api" where
  "example_server s q =
     ((case q of
         OpenSandboxAccount \<Rightarrow> Value (AccountOpened ''A1'')
       | SandboxPayIn a m \<Rightarrow> Value (PaidIn (rubles 100000))
       | PostSandboxOrder po \<Rightarrow> Value (OrderPosted ''O1'' 1 (rubles 270))
       | GetSandboxPortfolio a \<Rightarrow> Value (SandboxPositions [(''SBER'', \<lparr>q_units = 1, q_nano = 0\<rparr>)])
       | CloseSandboxAccount a \<Rightarrow> Failure default_error
       | GetInfo \<Rightarrow> Failure default_error
       | GetAccounts \<Rightarrow> Value (Accounts [\<lparr>acc_id = ''A'', acc_name = [], acc_type = 1, acc_status = 2\<rparr>,
           \<lparr>acc_id = ''B'', acc_name = [], acc_type = 1, acc_status = 2\<rparr>])
       | GetPortfolio a \<Rightarrow> Value (PortfolioTotal (rubles 5) 1)), Suc s)"

lemma example_server_ok: "answers_ok example_server"
  by (auto simp: answers_ok_def example_server_def response_ok_def amount_ok_def fits_def sdiv_nonneg split: api_request.splits)

abbreviation example_world :: "nat world" where
  "example_world \<equiv> \<lparr>w_state = 0, w_trace = []\<rparr>"

theorem coro_session_requests_witness:
  "\<exists>m. (co_step (coro_answer example_server))\<^sup>*\<^sup>* (sync_wait_start (coro_run ''SBER'') example_world) m
    \<and> sync_wait_result m = Some (Inr (Inr 0))
    \<and> sent (mc_server m) = [OpenSandboxAccount, SandboxPayIn ''A1'' (rubles 50000), market_buy ''A1'' ''SBER'',
        CloseSandboxAccount ''A1'']"
  using coro_session_requests [OF example_server_ok _ rtranclp.rtrancl_refl,
      of "''t''" "[''SBER'']" example_world "sync_wait_start (coro_run ''SBER'') example_world"]
  by (auto simp: example_server_def instrument_arg_def coro_main_def)

end
