(* ===== verification/Subscriptions.thy ===== *)
theory Subscriptions
  imports Prelude "HOL-Library.List_Lexorder" "HOL-Library.Char_ord"
begin

text \<open>
  The subscription registry of \<^verbatim>\<open>src/market_data_stream.cpp\<close>: the request messages, the keys
  under which single-instrument requests are stored, the splitting of a request, and the
  registry updates of \<^verbatim>\<open>remember_locked\<close> and \<^verbatim>\<open>forget_locked\<close>; also the requests that the
  convenience functions build.

  \<^verbatim>\<open>std::map<std::string, ...>\<close> is an association list sorted by key. The locale
  \<open>dictionary\<close> states what the registry needs of a map and derives the effect of storing and
  erasing many keys; the interpretation \<open>smap\<close> discharges it for the sorted lists.
\<close>

section \<open>Requests\<close>

datatype subscription_action = ActionUnspecified | Subscribe | Unsubscribe

record candle_instrument =
  ci_figi :: string
  ci_interval :: int
  ci_instrument_id :: string

record order_book_instrument =
  obi_figi :: string
  obi_depth :: int
  obi_instrument_id :: string
  obi_type :: int

text \<open>\<^verbatim>\<open>TradeInstrument\<close>, \<^verbatim>\<open>InfoInstrument\<close> and \<^verbatim>\<open>LastPriceInstrument\<close> have the same fields.\<close>

record plain_instrument =
  pi_figi :: string
  pi_instrument_id :: string

record candles_request =
  cr_action :: subscription_action
  cr_instruments :: "candle_instrument list"
  cr_waiting_close :: bool
  cr_candle_source :: "int option"

record order_book_request =
  or_action :: subscription_action
  or_instruments :: "order_book_instrument list"

record trades_request =
  tr_action :: subscription_action
  tr_instruments :: "plain_instrument list"
  tr_trade_source :: int
  tr_with_open_interest :: bool

record plain_request =
  pr_action :: subscription_action
  pr_instruments :: "plain_instrument list"

text \<open>The payload of a \<^verbatim>\<open>MarketDataRequest\<close>; a request may have none.\<close>

datatype md_request =
    NoPayload
  | SubscribeCandles candles_request
  | SubscribeOrderBook order_book_request
  | SubscribeTrades trades_request
  | SubscribeInfo plain_request
  | SubscribeLastPrice plain_request
  | GetMySubscriptions
  | PingRequest
  | PingSettings int

section \<open>Keys and splitting\<close>

text \<open>\<^verbatim>\<open>instruments(i)\<close> is only called with an index in range.\<close>

fun single :: "md_request \<Rightarrow> nat \<Rightarrow> md_request" where
  "single (SubscribeCandles p) i = SubscribeCandles (p\<lparr>cr_instruments := [cr_instruments p ! i]\<rparr>)"
| "single (SubscribeOrderBook p) i = SubscribeOrderBook (p\<lparr>or_instruments := [or_instruments p ! i]\<rparr>)"
| "single (SubscribeTrades p) i = SubscribeTrades (p\<lparr>tr_instruments := [tr_instruments p ! i]\<rparr>)"
| "single (SubscribeInfo p) i = SubscribeInfo (p\<lparr>pr_instruments := [pr_instruments p ! i]\<rparr>)"
| "single (SubscribeLastPrice p) i = SubscribeLastPrice (p\<lparr>pr_instruments := [pr_instruments p ! i]\<rparr>)"
| "single _ i = NoPayload"

definition id_of :: "string \<Rightarrow> string \<Rightarrow> string" where
  "id_of instrument_id figi = (if instrument_id = [] then figi else instrument_id)"

definition candle_key :: "candle_instrument \<Rightarrow> string" where
  "candle_key i = ''candles|'' @ id_of (ci_instrument_id i) (ci_figi i) @ ''|'' @ show_int (ci_interval i)"

definition order_book_key :: "order_book_instrument \<Rightarrow> string" where
  "order_book_key i = ''orderbook|'' @ id_of (obi_instrument_id i) (obi_figi i) @ ''|''
     @ show_int (obi_depth i) @ ''|'' @ show_int (obi_type i)"

definition plain_key :: "string \<Rightarrow> plain_instrument \<Rightarrow> string" where
  "plain_key prefix i = prefix @ id_of (pi_instrument_id i) (pi_figi i)"

fun keys_of :: "md_request \<Rightarrow> string list" where
  "keys_of (SubscribeCandles p) = map candle_key (cr_instruments p)"
| "keys_of (SubscribeOrderBook p) = map order_book_key (or_instruments p)"
| "keys_of (SubscribeTrades p) = map (plain_key ''trades|'') (tr_instruments p)"
| "keys_of (SubscribeInfo p) = map (plain_key ''info|'') (pr_instruments p)"
| "keys_of (SubscribeLastPrice p) = map (plain_key ''last_price|'') (pr_instruments p)"
| "keys_of _ = []"

fun action_of :: "md_request \<Rightarrow> subscription_action" where
  "action_of (SubscribeCandles p) = cr_action p"
| "action_of (SubscribeOrderBook p) = or_action p"
| "action_of (SubscribeTrades p) = tr_action p"
| "action_of (SubscribeInfo p) = pr_action p"
| "action_of (SubscribeLastPrice p) = pr_action p"
| "action_of _ = ActionUnspecified"

section \<open>Maps sorted by key\<close>

fun map_put :: "'k :: linorder \<Rightarrow> 'v \<Rightarrow> ('k \<times> 'v) list \<Rightarrow> ('k \<times> 'v) list" where
  "map_put k v [] = [(k, v)]"
| "map_put k v ((k', v') # al) =
     (if k < k' then (k, v) # (k', v') # al
      else if k = k' then (k, v) # al
      else (k', v') # map_put k v al)"

definition map_del :: "'k \<Rightarrow> ('k \<times> 'v) list \<Rightarrow> ('k \<times> 'v) list" where
  "map_del k al = filter (\<lambda>p. fst p \<noteq> k) al"

definition map_sorted :: "('k :: linorder \<times> 'v) list \<Rightarrow> bool" where
  "map_sorted al \<longleftrightarrow> sorted_wrt (<) (map fst al)"

section \<open>The registry\<close>

type_synonym registry = "(string \<times> md_request) list"

definition remember_locked :: "md_request \<Rightarrow> registry \<Rightarrow> registry" where
  "remember_locked r subs =
     fold (\<lambda>i. map_put (keys_of r ! i) (single r i)) [0..<length (keys_of r)] subs"

definition forget_locked :: "md_request \<Rightarrow> registry \<Rightarrow> registry" where
  "forget_locked r subs = fold map_del (keys_of r) subs"

section \<open>Requests of the convenience functions\<close>

definition candle_instruments :: "string list \<Rightarrow> int \<Rightarrow> candle_instrument list" where
  "candle_instruments ids interval =
     map (\<lambda>id. \<lparr>ci_figi = [], ci_interval = interval, ci_instrument_id = id\<rparr>) ids"

definition order_book_instruments :: "string list \<Rightarrow> int \<Rightarrow> int \<Rightarrow> order_book_instrument list" where
  "order_book_instruments ids depth type =
     map (\<lambda>id. \<lparr>obi_figi = [], obi_depth = depth, obi_instrument_id = id, obi_type = type\<rparr>) ids"

definition plain_instruments :: "string list \<Rightarrow> plain_instrument list" where
  "plain_instruments ids = map (\<lambda>id. \<lparr>pi_figi = [], pi_instrument_id = id\<rparr>) ids"

text \<open>The interval that the candle subscriptions have by default.\<close>

definition SUBSCRIPTION_INTERVAL_ONE_MINUTE :: int where
  "SUBSCRIPTION_INTERVAL_ONE_MINUTE = 1"

definition subscribe_candles :: "string list \<Rightarrow> int \<Rightarrow> bool \<Rightarrow> md_request" where
  "subscribe_candles ids interval waiting_close =
     SubscribeCandles \<lparr>cr_action = Subscribe, cr_instruments = candle_instruments ids interval,
       cr_waiting_close = waiting_close, cr_candle_source = None\<rparr>"

definition unsubscribe_candles :: "string list \<Rightarrow> int \<Rightarrow> md_request" where
  "unsubscribe_candles ids interval =
     SubscribeCandles \<lparr>cr_action = Unsubscribe, cr_instruments = candle_instruments ids interval,
       cr_waiting_close = False, cr_candle_source = None\<rparr>"

definition subscribe_order_book :: "string list \<Rightarrow> int \<Rightarrow> int \<Rightarrow> md_request" where
  "subscribe_order_book ids depth type =
     SubscribeOrderBook \<lparr>or_action = Subscribe, or_instruments = order_book_instruments ids depth type\<rparr>"

definition unsubscribe_order_book :: "string list \<Rightarrow> int \<Rightarrow> int \<Rightarrow> md_request" where
  "unsubscribe_order_book ids depth type =
     SubscribeOrderBook \<lparr>or_action = Unsubscribe, or_instruments = order_book_instruments ids depth type\<rparr>"

definition subscribe_trades :: "string list \<Rightarrow> bool \<Rightarrow> md_request" where
  "subscribe_trades ids with_open_interest =
     SubscribeTrades \<lparr>tr_action = Subscribe, tr_instruments = plain_instruments ids,
       tr_trade_source = 0, tr_with_open_interest = with_open_interest\<rparr>"

definition unsubscribe_trades :: "string list \<Rightarrow> md_request" where
  "unsubscribe_trades ids =
     SubscribeTrades \<lparr>tr_action = Unsubscribe, tr_instruments = plain_instruments ids,
       tr_trade_source = 0, tr_with_open_interest = False\<rparr>"

definition subscribe_last_prices :: "string list \<Rightarrow> md_request" where
  "subscribe_last_prices ids =
     SubscribeLastPrice \<lparr>pr_action = Subscribe, pr_instruments = plain_instruments ids\<rparr>"

definition unsubscribe_last_prices :: "string list \<Rightarrow> md_request" where
  "unsubscribe_last_prices ids =
     SubscribeLastPrice \<lparr>pr_action = Unsubscribe, pr_instruments = plain_instruments ids\<rparr>"

definition subscribe_info :: "string list \<Rightarrow> md_request" where
  "subscribe_info ids = SubscribeInfo \<lparr>pr_action = Subscribe, pr_instruments = plain_instruments ids\<rparr>"

definition unsubscribe_info :: "string list \<Rightarrow> md_request" where
  "unsubscribe_info ids = SubscribeInfo \<lparr>pr_action = Unsubscribe, pr_instruments = plain_instruments ids\<rparr>"

text \<open>The calls that leave the further arguments to their defaults.\<close>

definition subscribe_candles_default :: "string list \<Rightarrow> md_request" where
  "subscribe_candles_default ids = subscribe_candles ids SUBSCRIPTION_INTERVAL_ONE_MINUTE True"

definition unsubscribe_candles_default :: "string list \<Rightarrow> md_request" where
  "unsubscribe_candles_default ids = unsubscribe_candles ids SUBSCRIPTION_INTERVAL_ONE_MINUTE"

definition ORDERBOOK_TYPE_UNSPECIFIED :: int where
  "ORDERBOOK_TYPE_UNSPECIFIED = 0"

definition subscribe_order_book_default :: "string list \<Rightarrow> md_request" where
  "subscribe_order_book_default ids = subscribe_order_book ids 10 ORDERBOOK_TYPE_UNSPECIFIED"

definition unsubscribe_order_book_default :: "string list \<Rightarrow> md_request" where
  "unsubscribe_order_book_default ids = unsubscribe_order_book ids 10 ORDERBOOK_TYPE_UNSPECIFIED"

definition subscribe_trades_default :: "string list \<Rightarrow> md_request" where
  "subscribe_trades_default ids = subscribe_trades ids False"

section \<open>Dictionaries\<close>

locale dictionary =
  fixes ok :: "'m \<Rightarrow> bool"
    and look :: "'m \<Rightarrow> 'k \<Rightarrow> 'v option"
    and put :: "'k \<Rightarrow> 'v \<Rightarrow> 'm \<Rightarrow> 'm"
    and del :: "'k \<Rightarrow> 'm \<Rightarrow> 'm"
  assumes ok_put: "ok m \<Longrightarrow> ok (put k v m)"
    and ok_del: "ok m \<Longrightarrow> ok (del k m)"
    and look_put: "ok m \<Longrightarrow> look (put k v m) k' = (if k' = k then Some v else look m k')"
    and look_del: "ok m \<Longrightarrow> look (del k m) k' = (if k' = k then None else look m k')"
begin

definition put_all :: "('k \<times> 'v) list \<Rightarrow> 'm \<Rightarrow> 'm" where
  "put_all kvs m = fold (\<lambda>kv. put (fst kv) (snd kv)) kvs m"

lemma ok_put_all: "ok m \<Longrightarrow> ok (put_all kvs m)"
  unfolding put_all_def by (induction kvs arbitrary: m) (simp_all add: ok_put)

lemma ok_del_all: "ok m \<Longrightarrow> ok (fold del ks m)"
  by (induction ks arbitrary: m) (simp_all add: ok_del)

text \<open>The last of several values stored under one key wins.\<close>

lemma look_put_all:
  "ok m \<Longrightarrow> look (put_all kvs m) k =
     (case map_of (rev kvs) k of Some v \<Rightarrow> Some v | None \<Rightarrow> look m k)"
  unfolding put_all_def
  by (induction kvs arbitrary: m) (auto simp: ok_put look_put map_add_def split: option.splits)

lemma look_del_all: "ok m \<Longrightarrow> look (fold del ks m) k = (if k \<in> set ks then None else look m k)"
  by (induction ks arbitrary: m) (auto simp: ok_del look_del)

end

lemma map_put_keys: "set (map fst (map_put k v al)) = insert k (set (map fst al))"
  by (induction k v al rule: map_put.induct) (auto split: if_splits)

lemma map_put_sorted: "map_sorted al \<Longrightarrow> map_sorted (map_put k v al)"
proof (induction al)
  case (Cons p al)
  obtain k' v' where p: "p = (k', v')" by (cases p)
  have rest: "map_sorted al" "\<forall>q\<in>set (map fst al). k' < q"
    using Cons.prems p by (auto simp: map_sorted_def)
  from Cons.IH [OF rest(1)] rest Cons.prems p map_put_keys [of k v al] show ?case
    by (auto simp: map_sorted_def)
qed (simp add: map_sorted_def)

lemma map_put_look: "map_of (map_put k v al) k' = (if k' = k then Some v else map_of al k')"
  if "map_sorted al" for al :: "('k :: linorder \<times> 'v) list"
  using that by (induction al) (auto simp: map_sorted_def)

lemma map_del_sorted: "map_sorted al \<Longrightarrow> map_sorted (map_del k al)"
  by (induction al) (auto simp: map_sorted_def map_del_def)

lemma map_del_look: "map_of (map_del k al) k' = (if k' = k then None else map_of al k')"
  by (induction al) (auto simp: map_del_def)

interpretation smap: dictionary map_sorted map_of map_put map_del
  by unfold_locales (simp_all add: map_put_sorted map_del_sorted map_put_look map_del_look)

section \<open>Facts on requests and keys\<close>

lemma keys_of_single: "i < length (keys_of r) \<Longrightarrow> keys_of (single r i) = [keys_of r ! i]"
  by (cases r) simp_all

lemma action_of_single: "i < length (keys_of r) \<Longrightarrow> action_of (single r i) = action_of r"
  by (cases r) simp_all

lemma single_single: "keys_of q = [k] \<Longrightarrow> single q 0 = q"
  by (cases q) (auto simp: map_eq_Cons_conv)

lemma last_sep_unique:
  assumes "a @ c # x = b @ c # y" "c \<notin> set x" "c \<notin> set y"
  shows "a = b \<and> x = y"
proof -
  have "takeWhile (\<lambda>d. d \<noteq> c) (rev z @ c # w) = rev z" if "c \<notin> set z" for z w
    using that by (subst takeWhile_append2) auto
  note this [OF assms(2), of "rev a"] this [OF assms(3), of "rev b"]
  moreover have "rev x @ c # rev a = rev y @ c # rev b"
    using arg_cong [OF assms(1), of rev] by simp
  ultimately have "x = y" by simp
  with assms(1) show ?thesis by simp
qed

lemma show_int_no_bar: "CHR ''|'' \<notin> set (show_int n)"
  using show_nat_no_char [of "CHR ''|''"] by (simp add: show_int_def)

lemma bar_number_unique:
  "a @ CHR ''|'' # show_int m = b @ CHR ''|'' # show_int n \<Longrightarrow> a = b \<and> m = n"
  using last_sep_unique [OF _ show_int_no_bar show_int_no_bar] show_int_inj by blast

text \<open>
  Two subscriptions have the same key only if they have the same target: the keys of candles
  tell identifier and interval apart, those of order books identifier, depth and type, whatever
  characters the identifiers contain, and different kinds of subscription never share a key.
\<close>

lemma keys_identify_targets:
  "(candle_key i = candle_key j \<longleftrightarrow>
      id_of (ci_instrument_id i) (ci_figi i) = id_of (ci_instrument_id j) (ci_figi j)
      \<and> ci_interval i = ci_interval j)
   \<and> (order_book_key a = order_book_key b \<longleftrightarrow>
      id_of (obi_instrument_id a) (obi_figi a) = id_of (obi_instrument_id b) (obi_figi b)
      \<and> obi_depth a = obi_depth b \<and> obi_type a = obi_type b)
   \<and> candle_key i \<noteq> order_book_key a
   \<and> (\<forall>p\<in>{''trades|'', ''info|'', ''last_price|''}. candle_key i \<noteq> plain_key p x \<and> order_book_key a \<noteq> plain_key p x
       \<and> (\<forall>q\<in>{''trades|'', ''info|'', ''last_price|''}. plain_key p x = plain_key q y \<longleftrightarrow>
            p = q \<and> id_of (pi_instrument_id x) (pi_figi x) = id_of (pi_instrument_id y) (pi_figi y)))"
proof -
  have c: "candle_key i = candle_key j \<longleftrightarrow>
      id_of (ci_instrument_id i) (ci_figi i) = id_of (ci_instrument_id j) (ci_figi j)
      \<and> ci_interval i = ci_interval j"
    by (auto simp: candle_key_def dest: bar_number_unique)
  have o: "order_book_key a = order_book_key b \<longleftrightarrow>
      id_of (obi_instrument_id a) (obi_figi a) = id_of (obi_instrument_id b) (obi_figi b)
      \<and> obi_depth a = obi_depth b \<and> obi_type a = obi_type b"
  proof
    assume "order_book_key a = order_book_key b"
    then have "(id_of (obi_instrument_id a) (obi_figi a) @ CHR ''|'' # show_int (obi_depth a))
        @ CHR ''|'' # show_int (obi_type a)
      = (id_of (obi_instrument_id b) (obi_figi b) @ CHR ''|'' # show_int (obi_depth b))
        @ CHR ''|'' # show_int (obi_type b)"
      by (simp add: order_book_key_def)
    from bar_number_unique [OF this] show "id_of (obi_instrument_id a) (obi_figi a)
        = id_of (obi_instrument_id b) (obi_figi b) \<and> obi_depth a = obi_depth b \<and> obi_type a = obi_type b"
      by (auto dest: bar_number_unique)
  qed (simp add: order_book_key_def)
  have "candle_key i \<noteq> order_book_key a" by (simp add: candle_key_def order_book_key_def)
  with c o show ?thesis by (auto simp: candle_key_def order_book_key_def plain_key_def)
qed

section \<open>Facts on the registry\<close>

definition registry_ok :: "registry \<Rightarrow> bool" where
  "registry_ok subs \<longleftrightarrow> map_sorted subs
     \<and> (\<forall>(k, q)\<in>set subs. keys_of q = [k] \<and> action_of q = Subscribe)"

text \<open>The entries that a request contributes, in the order in which they are stored.\<close>

definition entries_of :: "md_request \<Rightarrow> registry" where
  "entries_of r = map (\<lambda>i. (keys_of r ! i, single r i)) [0..<length (keys_of r)]"

lemma remember_put_all: "remember_locked r subs = smap.put_all (entries_of r) subs"
  unfolding remember_locked_def smap.put_all_def entries_of_def fold_map by (simp add: o_def)

lemma entries_of_keys: "map fst (entries_of r) = keys_of r"
  by (simp add: entries_of_def o_def map_nth)

lemma map_put_set: "set (map_put k v al) \<subseteq> insert (k, v) (set al)"
  by (induction k v al rule: map_put.induct) (auto split: if_splits)

lemma registry_ok_put:
  "registry_ok subs \<Longrightarrow> keys_of q = [k] \<Longrightarrow> action_of q = Subscribe \<Longrightarrow> registry_ok (map_put k q subs)"
  using map_put_set [of k q subs] map_put_sorted [of subs k q] by (auto simp: registry_ok_def)

lemma registry_ok_remember:
  assumes "registry_ok subs" "action_of r = Subscribe"
  shows "registry_ok (remember_locked r subs)"
proof -
  have "registry_ok (fold (\<lambda>i. map_put (keys_of r ! i) (single r i)) is subs)"
    if "registry_ok subs" "\<forall>i\<in>set is. i < length (keys_of r)" for "is" subs
    using that
    by (induction "is" arbitrary: subs)
      (simp_all add: registry_ok_put keys_of_single action_of_single assms(2))
  with assms(1) show ?thesis by (simp add: remember_locked_def)
qed

lemma registry_ok_forget: "registry_ok subs \<Longrightarrow> registry_ok (forget_locked r subs)"
proof -
  have "registry_ok subs \<Longrightarrow> registry_ok (map_del k subs)" for k subs
    using map_del_sorted [of subs k] by (auto simp: registry_ok_def map_del_def)
  then have "registry_ok subs \<Longrightarrow> registry_ok (fold map_del ks subs)" for ks
    by (induction ks arbitrary: subs) simp_all
  then show "registry_ok subs \<Longrightarrow> ?thesis" by (simp add: forget_locked_def)
qed

lemma remember_look:
  assumes "registry_ok subs"
  shows "map_of (remember_locked r subs) k =
    (if k \<in> set (keys_of r) then map_of (rev (entries_of r)) k else map_of subs k)"
proof -
  have "map_of (rev (entries_of r)) k = None \<longleftrightarrow> k \<notin> set (keys_of r)"
    by (simp add: map_of_eq_None_iff entries_of_keys [symmetric])
  then show ?thesis
    using assms smap.look_put_all [of subs "entries_of r" k]
    by (auto simp: remember_put_all registry_ok_def split: option.splits)
qed

lemma forget_look:
  "registry_ok subs \<Longrightarrow> map_of (forget_locked r subs) k = (if k \<in> set (keys_of r) then None else map_of subs k)"
  using smap.look_del_all [of subs "keys_of r" k] by (simp add: forget_locked_def registry_ok_def)

lemma remembered_entry:
  assumes "registry_ok subs" "action_of r = Subscribe" "k \<in> set (keys_of r)"
  shows "\<exists>i<length (keys_of r). keys_of r ! i = k \<and> map_of (remember_locked r subs) k = Some (single r i)"
proof -
  obtain q where q: "map_of (rev (entries_of r)) k = Some q"
    using assms(3) by (cases "map_of (rev (entries_of r)) k")
      (auto simp: map_of_eq_None_iff entries_of_keys [symmetric])
  then have "(k, q) \<in> set (entries_of r)" by (metis map_of_SomeD set_rev)
  then obtain i where "i < length (keys_of r)" "keys_of r ! i = k" "q = single r i"
    by (auto simp: entries_of_def)
  with q remember_look [OF assms(1)] assms(3) show ?thesis by auto
qed

text \<open>
  C8: subscribing stores, under the key of every instrument of the request, the request cut down
  to an instrument with that key, and leaves the other entries alone; unsubscribing removes
  exactly the keys of its request; both keep the registry sorted and its entries re-sendable
  (each is a subscribe request for the one target its key names).
\<close>

theorem registry_updates:
  assumes "registry_ok subs"
  shows "(action_of r = Subscribe \<longrightarrow>
      registry_ok (remember_locked r subs)
      \<and> (\<forall>k\<in>set (keys_of r). \<exists>i<length (keys_of r). keys_of r ! i = k
           \<and> map_of (remember_locked r subs) k = Some (single r i))
      \<and> (\<forall>k. k \<notin> set (keys_of r) \<longrightarrow> map_of (remember_locked r subs) k = map_of subs k))
    \<and> registry_ok (forget_locked r subs)
    \<and> (\<forall>k. map_of (forget_locked r subs) k = (if k \<in> set (keys_of r) then None else map_of subs k))"
  using registry_ok_remember [OF assms] remembered_entry [OF assms] remember_look [OF assms]
    registry_ok_forget [OF assms] forget_look [OF assms] by simp

theorem registry_updates_witness:
  "map_of (remember_locked (subscribe_trades [''A'', ''B''] False) []) ''trades|B''
     = Some (subscribe_trades [''B''] False)"
proof -
  let ?r = "subscribe_trades [''A'', ''B''] False"
  have keys: "keys_of ?r = [''trades|A'', ''trades|B'']"
    by (simp add: subscribe_trades_def plain_instruments_def plain_key_def id_of_def)
  have ok: "registry_ok []" by (simp add: registry_ok_def map_sorted_def)
  have act: "action_of ?r = Subscribe" by (simp add: subscribe_trades_def)
  have "''trades|B'' \<in> set (keys_of ?r)" by (simp add: keys)
  with registry_updates [OF ok, of ?r] act obtain i
    where i: "i < length (keys_of ?r)" "keys_of ?r ! i = ''trades|B''"
      "map_of (remember_locked ?r []) ''trades|B'' = Some (single ?r i)"
    by blast
  from i(1,2) have "i = 1" by (auto simp: keys less_Suc_eq nth_Cons')
  with i(3) show ?thesis by (simp add: subscribe_trades_def plain_instruments_def)
qed

lemma convenience_requests:
  "action_of (subscribe_candles ids n wc) = Subscribe" "action_of (unsubscribe_candles ids n) = Unsubscribe"
  "keys_of (unsubscribe_candles ids n) = keys_of (subscribe_candles ids n wc)"
  "keys_of (unsubscribe_order_book ids n t) = keys_of (subscribe_order_book ids n t)"
  "keys_of (unsubscribe_trades ids) = keys_of (subscribe_trades ids wc)"
  "keys_of (unsubscribe_last_prices ids) = keys_of (subscribe_last_prices ids)"
  "keys_of (unsubscribe_info ids) = keys_of (subscribe_info ids)"
  "action_of (subscribe_order_book ids n t) = Subscribe" "action_of (unsubscribe_order_book ids n t) = Unsubscribe"
  "action_of (subscribe_trades ids wc) = Subscribe" "action_of (unsubscribe_trades ids) = Unsubscribe"
  "action_of (subscribe_last_prices ids) = Subscribe" "action_of (unsubscribe_last_prices ids) = Unsubscribe"
  "action_of (subscribe_info ids) = Subscribe" "action_of (unsubscribe_info ids) = Unsubscribe"
  "length (keys_of (subscribe_candles ids n wc)) = length ids"
  "length (keys_of (subscribe_order_book ids n t)) = length ids"
  "length (keys_of (subscribe_trades ids wc)) = length ids"
  "length (keys_of (subscribe_last_prices ids)) = length ids"
  "length (keys_of (subscribe_info ids)) = length ids"
  by (simp_all add: subscribe_candles_def unsubscribe_candles_def subscribe_order_book_def
      unsubscribe_order_book_def subscribe_trades_def unsubscribe_trades_def
      subscribe_last_prices_def unsubscribe_last_prices_def subscribe_info_def unsubscribe_info_def
      candle_instruments_def order_book_instruments_def plain_instruments_def)

text \<open>
  The matching unsubscribe call of a convenience subscription undoes it: it has the same keys,
  so no entry of the subscription is left and every other entry is what it was.
\<close>

lemma convenience_unsubscribe:
  assumes "registry_ok subs"
    and "(r, u) \<in> {(subscribe_candles ids interval wc, unsubscribe_candles ids interval),
      (subscribe_order_book ids depth type, unsubscribe_order_book ids depth type),
      (subscribe_trades ids oi, unsubscribe_trades ids),
      (subscribe_last_prices ids, unsubscribe_last_prices ids),
      (subscribe_info ids, unsubscribe_info ids)}"
  shows "action_of r = Subscribe \<and> action_of u = Unsubscribe \<and> length (keys_of r) = length ids
    \<and> (\<forall>k. map_of (forget_locked u (remember_locked r subs)) k
         = (if k \<in> set (keys_of r) then None else map_of subs k))"
proof -
  have r: "action_of r = Subscribe" "action_of u = Unsubscribe" "keys_of u = keys_of r"
    "length (keys_of r) = length ids"
    using assms(2) convenience_requests(3-7) by (auto simp: convenience_requests)
  then show ?thesis
    using forget_look [OF registry_ok_remember [OF assms(1) r(1)]] remember_look [OF assms(1)] by simp
qed

text \<open>So do the calls with the default arguments, which agree on interval, depth and type.\<close>

lemma default_unsubscribe:
  assumes "registry_ok subs"
    and "(r, u) \<in> {(subscribe_candles_default ids, unsubscribe_candles_default ids),
      (subscribe_order_book_default ids, unsubscribe_order_book_default ids),
      (subscribe_trades_default ids, unsubscribe_trades ids)}"
  shows "map_of (forget_locked u (remember_locked r subs)) k = (if k \<in> set (keys_of r) then None else map_of subs k)"
proof -
  note defs = subscribe_candles_default_def unsubscribe_candles_default_def subscribe_order_book_default_def
    unsubscribe_order_book_default_def subscribe_trades_default_def
  have "(r, u) \<in> {(subscribe_candles ids SUBSCRIPTION_INTERVAL_ONE_MINUTE True, unsubscribe_candles ids SUBSCRIPTION_INTERVAL_ONE_MINUTE),
      (subscribe_order_book ids 10 ORDERBOOK_TYPE_UNSPECIFIED, unsubscribe_order_book ids 10 ORDERBOOK_TYPE_UNSPECIFIED),
      (subscribe_trades ids False, unsubscribe_trades ids),
      (subscribe_last_prices ids, unsubscribe_last_prices ids), (subscribe_info ids, unsubscribe_info ids)}"
    using assms(2) unfolding defs by blast
  from convenience_unsubscribe [OF assms(1) this] show ?thesis by blast
qed

end
