(* ===== verification/Market_Data_Stream.thy ===== *)
theory Market_Data_Stream
  imports Subscriptions Stream_Loop
begin

text \<open>
  \<^verbatim>\<open>MarketDataStream\<close> (\<^verbatim>\<open>include/tinvest/streams/market_data_stream.hpp\<close>,
  \<^verbatim>\<open>src/market_data_stream.cpp\<close>): dispatch of responses, and the bidirectional stream with
  its write queue, subscription registry and reconnection. As in the model of the server streams,
  every stretch of code under one lock is a definition on the record of the object's fields, and
  the machine \<open>md_step\<close> interleaves the worker (\<^verbatim>\<open>run\<close>), user threads (\<^verbatim>\<open>start\<close>,
  \<^verbatim>\<open>stop\<close>, \<^verbatim>\<open>send\<close>) and the reactions of gRPC.

  The machine keeps gRPC's side of the current call: outstanding read and write, the number of
  holds, and a flag that is raised by a misuse of the reactor: a write while another one is
  outstanding, a write or a release of a hold on a call that is not bound or no longer held.
  gRPC's reactions are limited to what it documents: completions only of outstanding operations,
  \<^verbatim>\<open>OnDone\<close> once, when nothing is outstanding and no hold is left. They can come at any time, but while
  the server keeps the stream open nothing forces them: gRPC owes them once the call is cancelled,
  so the machine records \<^verbatim>\<open>TryCancel\<close> on the context of the current call. A thread that has to release
  the hold does so after it has given up the lock; that is a step of its own.

  The machine has one worker at a time: its rule for \<^verbatim>\<open>start\<close> adds to the test of
  \<^verbatim>\<open>worker_.joinable()\<close> that the previous worker has finished, which the code does not check. It is
  the machine of an object whose \<^verbatim>\<open>start\<close> is only called when a \<^verbatim>\<open>stop\<close> that was begun has
  returned. \<open>Stream_Restart\<close> has the machine without that guard, with any number of workers, and shows
  what survives there.
\<close>

section \<open>Dispatch\<close>

datatype payload_case =
    kCandle | kTrade | kOrderbook | kLastPrice | kTradingStatus | kOpenInterest
  | kSubscribeCandlesResponse | kSubscribeOrderBookResponse | kSubscribeTradesResponse
  | kSubscribeInfoResponse | kSubscribeLastPriceResponse | kPing | kNotSet

datatype handler =
    on_candle | on_trade | on_order_book | on_last_price | on_trading_status | on_open_interest
  | on_subscription_result | on_raw

text \<open>The handlers that are set.\<close>

type_synonym handlers = "handler \<Rightarrow> bool"

definition call_handler :: "handlers \<Rightarrow> handler \<Rightarrow> handler list" where
  "call_handler h x = (if h x then [x] else [])"

definition dispatch :: "handlers \<Rightarrow> payload_case \<Rightarrow> handler list" where
  "dispatch h pc =
     call_handler h on_raw @
     (case pc of
        kCandle \<Rightarrow> call_handler h on_candle
      | kTrade \<Rightarrow> call_handler h on_trade
      | kOrderbook \<Rightarrow> call_handler h on_order_book
      | kLastPrice \<Rightarrow> call_handler h on_last_price
      | kTradingStatus \<Rightarrow> call_handler h on_trading_status
      | kOpenInterest \<Rightarrow> call_handler h on_open_interest
      | kSubscribeCandlesResponse \<Rightarrow> call_handler h on_subscription_result
      | kSubscribeOrderBookResponse \<Rightarrow> call_handler h on_subscription_result
      | kSubscribeTradesResponse \<Rightarrow> call_handler h on_subscription_result
      | kSubscribeInfoResponse \<Rightarrow> call_handler h on_subscription_result
      | kSubscribeLastPriceResponse \<Rightarrow> call_handler h on_subscription_result
      | kPing \<Rightarrow> []
      | kNotSet \<Rightarrow> [])"

section \<open>The object\<close>

record md_stream =
  md_opts :: stream_options
  md_on_state :: bool
  md_handlers :: handlers
  md_joinable :: bool
  md_stopping :: bool
  md_done :: bool
  md_got_data :: bool
  md_broken :: bool
  md_hold_released :: bool
  md_status :: "status_code \<times> string"
  md_ctx :: bool
  md_reactor :: bool
  md_queue :: "md_request list"
  md_in_flight :: bool
  md_subs :: registry

definition new_md_stream :: "handlers \<Rightarrow> bool \<Rightarrow> stream_options \<Rightarrow> md_stream" where
  "new_md_stream h on_state opts =
     \<lparr>md_opts = opts, md_on_state = on_state, md_handlers = h, md_joinable = False,
      md_stopping = False, md_done = False, md_got_data = False, md_broken = False,
      md_hold_released = False, md_status = (OK, []), md_ctx = False, md_reactor = False,
      md_queue = [], md_in_flight = False, md_subs = []\<rparr>"

definition md_notify :: "stream_state \<Rightarrow> error option \<Rightarrow> md_stream \<Rightarrow> (stream_state \<times> error option) list" where
  "md_notify st e m = (if md_on_state m then [(st, e)] else [])"

section \<open>Writing\<close>

text \<open>The request handed to \<^verbatim>\<open>StartWrite\<close>, if any.\<close>

definition maybe_write_locked :: "md_stream \<Rightarrow> md_request option \<times> md_stream" where
  "maybe_write_locked m =
     (if \<not> md_reactor m \<or> md_broken m \<or> md_hold_released m \<or> md_in_flight m \<or> md_queue m = []
      then (None, m)
      else (Some (hd (md_queue m)), m\<lparr>md_in_flight := True, md_queue := tl (md_queue m)\<rparr>))"

definition md_send :: "md_request \<Rightarrow> bool \<Rightarrow> md_stream \<Rightarrow> md_request option \<times> md_stream" where
  "md_send r remember m =
     (if md_stopping m then (None, m)
      else
        let m1 = (if remember
                  then (if action_of r = Subscribe then m\<lparr>md_subs := remember_locked r (md_subs m)\<rparr>
                        else if action_of r = Unsubscribe then m\<lparr>md_subs := forget_locked r (md_subs m)\<rparr>
                        else m)
                  else m)
        in if md_reactor m1 \<and> \<not> md_broken m1 \<and> \<not> md_hold_released m1
           then maybe_write_locked (m1\<lparr>md_queue := md_queue m1 @ [r]\<rparr>)
           else (None, m1))"

definition get_my_subscriptions :: "md_stream \<Rightarrow> md_request option \<times> md_stream" where
  "get_my_subscriptions m = md_send GetMySubscriptions False m"

section \<open>User operations\<close>

definition md_start :: "md_stream \<Rightarrow> bool \<times> md_stream" where
  "md_start m =
     (if md_joinable m then (False, m) else (True, m\<lparr>md_stopping := False, md_joinable := True\<rparr>))"

text \<open>Whether the caller has to release the hold, whether the call is cancelled, the object.\<close>

definition md_stop :: "md_stream \<Rightarrow> bool \<times> bool \<times> md_stream" where
  "md_stop m =
     (let m1 = m\<lparr>md_stopping := True, md_broken := True\<rparr>;
          release = (md_reactor m1 \<and> \<not> md_hold_released m1);
          m2 = (if release then m1\<lparr>md_hold_released := True\<rparr> else m1)
      in (release, md_ctx m2, m2\<lparr>md_joinable := False\<rparr>))"

section \<open>The worker\<close>

datatype md_pc =
    MDetached
  | MLoopTop
  | MConnecting
  | MSnapshot
  | MBegun
  | MStreaming
  | MReturned "status_code \<times> string"
  | MBackoff int
  | MLeaving
  | MFinished

definition md_run_top :: "md_stream \<Rightarrow> (stream_state \<times> error option) list \<times> md_pc" where
  "md_run_top m = (if md_stopping m then ([], MLeaving) else (md_notify connecting None m, MConnecting))"

text \<open>The first locked region of \<^verbatim>\<open>run_once\<close>: reset the flags, queue the whole registry.\<close>

definition md_snapshot :: "md_stream \<Rightarrow> md_stream \<times> md_pc" where
  "md_snapshot m =
     (if md_stopping m then (m, MReturned (CANCELLED, []))
      else (m\<lparr>md_ctx := True, md_done := False, md_broken := False, md_hold_released := False,
              md_got_data := False, md_in_flight := False, md_queue := map snd (md_subs m)\<rparr>, MSnapshot))"

text \<open>The second locked region: publish the reactor, unless the call is already over.\<close>

definition md_publish :: "md_stream \<Rightarrow> bool \<times> md_request option \<times> md_stream" where
  "md_publish m =
     (if md_done m then (False, None, m)
      else
        let m1 = m\<lparr>md_reactor := True\<rparr>
        in if (md_stopping m1 \<or> md_broken m1) \<and> \<not> md_hold_released m1
           then (True, None, m1\<lparr>md_hold_released := True\<rparr>)
           else let (w, m2) = maybe_write_locked m1 in (False, w, m2))"

definition md_run_once_end :: "md_stream \<Rightarrow> md_stream \<times> md_pc" where
  "md_run_once_end m = (m\<lparr>md_ctx := False\<rparr>, MReturned (md_status m))"

definition md_run_after :: "nat \<Rightarrow> status_code \<times> string \<Rightarrow> md_stream \<Rightarrow>
    (stream_state \<times> error option) list \<times> nat \<times> md_pc" where
  "md_run_after attempt st m =
     (if md_stopping m then ([], attempt, MLeaving)
      else
        let attempt1 = (if md_got_data m then 0 else attempt);
            ev = md_notify disconnected (Some (disconnect_error (fst st) (snd st))) m
        in if \<not> so_reconnect (md_opts m) then (ev, attempt1, MLeaving)
           else (ev, Suc attempt1, MBackoff (backoff_delay (md_opts m) attempt1)))"

definition md_run_wake :: "md_stream \<Rightarrow> md_pc" where
  "md_run_wake m = (if md_stopping m then MLeaving else MLoopTop)"

section \<open>Reactions\<close>

definition md_handle_read_closed :: "md_stream \<Rightarrow> bool \<times> md_stream" where
  "md_handle_read_closed m =
     (let m1 = m\<lparr>md_broken := True\<rparr>
      in if md_reactor m1 \<and> \<not> md_hold_released m1 then (True, m1\<lparr>md_hold_released := True\<rparr>)
         else (False, m1))"

text \<open>Whether the hold has to be released, the next write, the object.\<close>

definition md_handle_write_done :: "bool \<Rightarrow> md_stream \<Rightarrow> bool \<times> md_request option \<times> md_stream" where
  "md_handle_write_done ok m =
     (if \<not> ok then (let (release, m1) = md_handle_read_closed m in (release, None, m1))
      else (let (w, m1) = maybe_write_locked (m\<lparr>md_in_flight := False\<rparr>) in (False, w, m1)))"

definition md_handle_response :: "payload_case \<Rightarrow> md_stream \<Rightarrow>
    (stream_state \<times> error option) list \<times> handler list \<times> md_stream" where
  "md_handle_response pc m =
     ((if md_got_data m then [] else md_notify connected None m),
      dispatch (md_handlers m) pc,
      m\<lparr>md_got_data := True\<rparr>)"

definition md_handle_done :: "status_code \<times> string \<Rightarrow> md_stream \<Rightarrow> md_stream" where
  "md_handle_done st m = m\<lparr>md_reactor := False, md_status := st, md_done := True\<rparr>"

section \<open>The machine\<close>

record md_sys =
  my_obj :: md_stream
  my_pc :: md_pc
  my_attempt :: nat
  my_log :: "(stream_state \<times> error option) list"
  my_calls :: "handler list"
  my_bound :: bool
  my_holds :: int
  my_reading :: bool
  my_writing :: bool
  my_written :: "md_request list"
  my_pending :: nat
  my_misuse :: bool
  my_snapshot :: "md_request list"
  my_queued :: "md_request list"
  my_cancelled :: bool

text \<open>\<^verbatim>\<open>Reactor::Begin\<close> on a new reactor: hold, read, call.\<close>

definition reactor_begin :: "md_sys \<Rightarrow> md_sys" where
  "reactor_begin s = s\<lparr>my_bound := True, my_holds := 1, my_reading := True, my_writing := False, my_written := []\<rparr>"

text \<open>\<^verbatim>\<open>Reactor::WriteNext\<close>.\<close>

definition reactor_write :: "md_request option \<Rightarrow> md_sys \<Rightarrow> md_sys" where
  "reactor_write w s = (case w of
     None \<Rightarrow> s
   | Some r \<Rightarrow> s\<lparr>my_misuse := my_misuse s \<or> \<not> my_bound s \<or> my_writing s \<or> my_holds s \<le> 0,
                 my_writing := True, my_written := my_written s @ [r]\<rparr>)"

definition reactor_remove_hold :: "md_sys \<Rightarrow> md_sys" where
  "reactor_remove_hold s =
     s\<lparr>my_misuse := my_misuse s \<or> \<not> my_bound s \<or> my_holds s \<le> 0, my_holds := my_holds s - 1\<rparr>"

definition add_release :: "bool \<Rightarrow> md_sys \<Rightarrow> md_sys" where
  "add_release release s = (if release then s\<lparr>my_pending := Suc (my_pending s)\<rparr> else s)"

datatype md_actor = MUser | MWorker | MRelease | MDelivery | MCompletion

inductive md_step :: "md_actor \<Rightarrow> md_sys \<Rightarrow> md_sys \<Rightarrow> bool" where
  m_start_noop: "md_start (my_obj s) = (False, m) \<Longrightarrow> md_step MUser s s"
| m_start: "md_start (my_obj s) = (True, m) \<Longrightarrow> my_pc s = MDetached \<or> my_pc s = MFinished \<Longrightarrow>
    md_step MUser s (s\<lparr>my_obj := m, my_pc := MLoopTop, my_attempt := 0\<rparr>)"
| m_stop: "md_stop (my_obj s) = (release, cancel, m) \<Longrightarrow>
    md_step MUser s (add_release release (s\<lparr>my_obj := m, my_cancelled := my_cancelled s \<or> cancel\<rparr>))"
| m_send: "md_send r remember (my_obj s) = (w, m) \<Longrightarrow>
    queued = (\<not> md_stopping (my_obj s) \<and> md_reactor (my_obj s) \<and> \<not> md_broken (my_obj s)
      \<and> \<not> md_hold_released (my_obj s)) \<Longrightarrow>
    md_step MUser s (reactor_write w
      (s\<lparr>my_queued := (if queued then my_queued s @ [r] else my_queued s), my_obj := m\<rparr>))"
| m_top: "my_pc s = MLoopTop \<Longrightarrow> md_run_top (my_obj s) = (ev, pc) \<Longrightarrow>
    md_step MWorker s (s\<lparr>my_pc := pc, my_log := ev @ my_log s\<rparr>)"
| m_snapshot: "my_pc s = MConnecting \<Longrightarrow> md_snapshot (my_obj s) = (m, pc) \<Longrightarrow>
    md_step MWorker s (s\<lparr>my_obj := m, my_pc := pc,
      my_snapshot := (if pc = MSnapshot then map snd (md_subs m) else my_snapshot s),
      my_queued := (if pc = MSnapshot then [] else my_queued s),
      my_cancelled := (pc \<noteq> MSnapshot \<and> my_cancelled s)\<rparr>)"
| m_begin: "my_pc s = MSnapshot \<Longrightarrow> md_step MWorker s (reactor_begin (s\<lparr>my_pc := MBegun\<rparr>))"
| m_publish: "my_pc s = MBegun \<Longrightarrow> md_publish (my_obj s) = (release, w, m) \<Longrightarrow>
    md_step MWorker s (add_release release (reactor_write w (s\<lparr>my_pc := MStreaming, my_obj := m\<rparr>)))"
| m_once_end: "my_pc s = MStreaming \<Longrightarrow> md_done (my_obj s) \<Longrightarrow> md_run_once_end (my_obj s) = (m, pc) \<Longrightarrow>
    md_step MWorker s (s\<lparr>my_obj := m, my_pc := pc\<rparr>)"
| m_after: "my_pc s = MReturned st \<Longrightarrow> md_run_after (my_attempt s) st (my_obj s) = (ev, att, pc) \<Longrightarrow>
    md_step MWorker s (s\<lparr>my_pc := pc, my_attempt := att, my_log := ev @ my_log s\<rparr>)"
| m_wake: "my_pc s = MBackoff d \<Longrightarrow> md_step MWorker s (s\<lparr>my_pc := md_run_wake (my_obj s)\<rparr>)"
| m_leave: "my_pc s = MLeaving \<Longrightarrow>
    md_step MWorker s (s\<lparr>my_pc := MFinished, my_log := md_notify stopped None (my_obj s) @ my_log s\<rparr>)"
| m_read_ok: "my_reading s \<Longrightarrow> md_handle_response c (my_obj s) = (ev, hs, m) \<Longrightarrow>
    md_step MDelivery s (s\<lparr>my_obj := m, my_log := ev @ my_log s, my_calls := rev hs @ my_calls s\<rparr>)"
| m_read_closed: "my_reading s \<Longrightarrow> md_handle_read_closed (my_obj s) = (release, m) \<Longrightarrow>
    md_step MCompletion s (add_release release (s\<lparr>my_reading := False, my_obj := m\<rparr>))"
| m_write_done: "my_writing s \<Longrightarrow> md_handle_write_done ok (my_obj s) = (release, w, m) \<Longrightarrow>
    md_step MCompletion s (add_release release (reactor_write w (s\<lparr>my_writing := False, my_obj := m\<rparr>)))"
| m_release: "0 < my_pending s \<Longrightarrow>
    md_step MRelease s (reactor_remove_hold (s\<lparr>my_pending := my_pending s - 1\<rparr>))"
| m_done: "my_bound s \<Longrightarrow> my_holds s = 0 \<Longrightarrow> \<not> my_reading s \<Longrightarrow> \<not> my_writing s \<Longrightarrow>
    md_step MCompletion s (s\<lparr>my_bound := False, my_obj := md_handle_done st (my_obj s)\<rparr>)"

inductive_cases md_stepE: "md_step a s s'"

definition md_initial :: "md_sys \<Rightarrow> bool" where
  "md_initial s \<longleftrightarrow> (\<exists>h n opts. my_obj s = new_md_stream h n opts)
     \<and> my_pc s = MDetached \<and> my_log s = [] \<and> \<not> my_bound s \<and> my_holds s = 0 \<and> \<not> my_reading s
     \<and> \<not> my_writing s \<and> my_written s = [] \<and> my_pending s = 0 \<and> \<not> my_misuse s
     \<and> my_snapshot s = [] \<and> my_queued s = [] \<and> \<not> my_cancelled s"


section \<open>The invariant\<close>

text \<open>No call is bound and nothing is outstanding.\<close>

definition call_idle :: "md_sys \<Rightarrow> bool" where
  "call_idle s \<longleftrightarrow> \<not> my_bound s \<and> \<not> my_reading s \<and> \<not> my_writing s \<and> my_pending s = 0
     \<and> \<not> md_reactor (my_obj s)"

text \<open>The flags right after the first locked region of \<^verbatim>\<open>run_once\<close>.\<close>

definition flags_fresh :: "md_sys \<Rightarrow> bool" where
  "flags_fresh s \<longleftrightarrow> \<not> md_hold_released (my_obj s) \<and> \<not> md_done (my_obj s) \<and> \<not> md_in_flight (my_obj s)
     \<and> \<not> md_reactor (my_obj s)"

text \<open>
  A published reactor: one hold, until exactly one thread has taken over its release; always
  released when the stream is broken or stopping.
\<close>

definition call_live :: "md_sys \<Rightarrow> bool" where
  "call_live s \<longleftrightarrow> my_bound s \<and> md_reactor (my_obj s) \<and> \<not> md_done (my_obj s)
     \<and> (my_writing s \<longrightarrow> md_in_flight (my_obj s))
     \<and> (md_broken (my_obj s) \<or> md_stopping (my_obj s) \<longrightarrow> md_hold_released (my_obj s))
     \<and> (md_hold_released (my_obj s) \<longrightarrow> my_holds s = int (my_pending s) \<and> my_pending s < 2)
     \<and> (\<not> md_hold_released (my_obj s) \<longrightarrow> my_holds s = 1 \<and> my_pending s = 0)"

definition call_ok :: "md_sys \<Rightarrow> bool" where
  "call_ok s \<longleftrightarrow> (case my_pc s of
     MSnapshot \<Rightarrow> call_idle s \<and> flags_fresh s
   | MBegun \<Rightarrow> flags_fresh s \<and> my_bound s \<and> my_holds s = 1 \<and> my_pending s = 0 \<and> \<not> my_writing s
   | MStreaming \<Rightarrow> call_live s \<or> (call_idle s \<and> md_done (my_obj s))
   | _ \<Rightarrow> call_idle s)"

definition md_control :: "md_sys \<Rightarrow> bool" where
  "md_control s \<longleftrightarrow> call_ok s \<and> \<not> my_misuse s
     \<and> (\<not> md_joinable (my_obj s) \<longrightarrow> md_stopping (my_obj s) \<or> my_pc s = MDetached)"

lemmas call_defs = call_ok_def call_idle_def flags_fresh_def call_live_def

lemma maybe_write_cases:
  assumes "maybe_write_locked m = (w, m')"
  obtains "w = None" "m' = m"
  | r q where "w = Some r" "md_queue m = r # q" "m' = m\<lparr>md_in_flight := True, md_queue := q\<rparr>"
      "md_reactor m" "\<not> md_broken m" "\<not> md_hold_released m" "\<not> md_in_flight m"
  using assms by (cases "md_queue m") (auto simp: maybe_write_locked_def split: if_splits)

lemma call_ok_published:
  "call_ok s \<Longrightarrow> md_reactor (my_obj s) \<Longrightarrow> my_pc s = MStreaming \<and> call_live s"
  by (cases "my_pc s") (simp_all add: call_ok_def call_idle_def flags_fresh_def)

text \<open>The write that a locked region starts is always permitted.\<close>

lemma write_control:
  assumes c: "md_control s" and w: "maybe_write_locked (my_obj s) = (w, m')"
  shows "md_control (reactor_write w (s\<lparr>my_obj := m'\<rparr>))"
  using w
proof (cases rule: maybe_write_cases)
  case 1
  then show ?thesis using c by (simp add: reactor_write_def)
next
  case (2 r q)
  then have "my_pc s = MStreaming" "call_live s"
    using c call_ok_published by (simp_all add: md_control_def)
  moreover from this 2 have "\<not> my_writing s" "my_holds s = 1" by (auto simp: call_live_def)
  ultimately show ?thesis
    using c 2 by (simp add: md_control_def call_ok_def call_live_def reactor_write_def)
qed

text \<open>The registry update of \<^verbatim>\<open>send\<close>, and the outcomes of \<^verbatim>\<open>send\<close>.\<close>

definition update_registry :: "md_request \<Rightarrow> bool \<Rightarrow> registry \<Rightarrow> registry" where
  "update_registry r remember subs =
     (if remember \<and> action_of r = Subscribe then remember_locked r subs
      else if remember \<and> action_of r = Unsubscribe then forget_locked r subs
      else subs)"

definition can_queue :: "md_stream \<Rightarrow> bool" where
  "can_queue m \<longleftrightarrow> \<not> md_stopping m \<and> md_reactor m \<and> \<not> md_broken m \<and> \<not> md_hold_released m"

lemma md_send_cases:
  assumes "md_send r remember m = (w, m')"
  obtains "md_stopping m" "w = None" "m' = m"
  | "\<not> md_stopping m" "\<not> can_queue m" "w = None" "m' = m\<lparr>md_subs := update_registry r remember (md_subs m)\<rparr>"
  | "can_queue m" "maybe_write_locked (m\<lparr>md_subs := update_registry r remember (md_subs m),
        md_queue := md_queue m @ [r]\<rparr>) = (w, m')"
proof -
  let ?m = "m\<lparr>md_subs := update_registry r remember (md_subs m)\<rparr>"
  have eq: "md_send r remember m = (if md_stopping m then (None, m)
      else if can_queue m then maybe_write_locked (?m\<lparr>md_queue := md_queue m @ [r]\<rparr>) else (None, ?m))"
    by (auto simp: md_send_def can_queue_def update_registry_def Let_def)
  consider "md_stopping m" | "\<not> md_stopping m" "\<not> can_queue m" | "\<not> md_stopping m" "can_queue m" by blast
  then show thesis
  proof cases
    case 1
    with assms eq show thesis by (intro that(1)) simp_all
  next
    case 2
    with assms eq show thesis by (intro that(2)) simp_all
  next
    case 3
    with assms eq show thesis by (intro that(3)) simp_all
  qed
qed

lemma control_registry:
  "md_control s \<Longrightarrow> md_control (s\<lparr>my_queued := z, my_obj := (my_obj s)\<lparr>md_subs := x\<rparr>\<rparr>)"
  "md_control s \<Longrightarrow> md_control (s\<lparr>my_queued := z, my_obj := (my_obj s)\<lparr>md_subs := x, md_queue := q\<rparr>\<rparr>)"
  by (cases "my_pc s"; simp add: md_control_def call_defs)+

lemma send_control:
  assumes c: "md_control s" and send: "md_send r remember (my_obj s) = (w, m')"
  shows "md_control (reactor_write w (s\<lparr>my_queued := z, my_obj := m'\<rparr>))"
  using send
proof (cases rule: md_send_cases)
  case 1
  then show ?thesis
    using control_registry(1) [OF c, where z = z and x = "md_subs (my_obj s)"] by (simp add: reactor_write_def)
next
  case 2
  then show ?thesis using control_registry(1) [OF c] by (simp add: reactor_write_def)
next
  case 3
  let ?s = "s\<lparr>my_queued := z, my_obj := (my_obj s)\<lparr>md_subs := update_registry r remember (md_subs (my_obj s)),
      md_queue := md_queue (my_obj s) @ [r]\<rparr>\<rparr>"
  have "md_control ?s" by (rule control_registry(2) [OF c])
  from write_control [OF this, of w m'] 3(2) show ?thesis by simp
qed

lemma publish_control:
  assumes c: "md_control s" and pc: "my_pc s = MBegun" and pub: "md_publish (my_obj s) = (release, w, m')"
  shows "md_control (add_release release (reactor_write w (s\<lparr>my_pc := MStreaming, my_obj := m'\<rparr>)))"
proof -
  have fresh: "flags_fresh s" "my_bound s" "my_holds s = 1" "my_pending s = 0" "\<not> my_writing s"
    using c pc by (simp_all add: md_control_def call_ok_def)
  show ?thesis
  proof (cases "md_stopping (my_obj s) \<or> md_broken (my_obj s)")
    case True
    with pub fresh have "release" "w = None" "m' = (my_obj s)\<lparr>md_reactor := True, md_hold_released := True\<rparr>"
      by (auto simp: md_publish_def flags_fresh_def)
    with c pc fresh show ?thesis
      by (simp add: md_control_def call_ok_def call_live_def flags_fresh_def add_release_def reactor_write_def)
  next
    case False
    let ?s = "s\<lparr>my_pc := MStreaming, my_obj := (my_obj s)\<lparr>md_reactor := True\<rparr>\<rparr>"
    from False pub fresh have w: "\<not> release" "maybe_write_locked (my_obj ?s) = (w, m')"
      by (auto simp: md_publish_def flags_fresh_def Let_def split: prod.splits)
    have "md_control ?s"
      using c pc False fresh by (simp add: md_control_def call_ok_def call_live_def flags_fresh_def)
    from write_control [OF this w(2)] w(1) show ?thesis by (simp add: add_release_def)
  qed
qed


text \<open>A thread that finds the stream broken takes over the release of the hold at most once.\<close>

lemma read_closed_control:
  assumes c: "md_control s" and b: "my_bound s"
    and run: "md_handle_read_closed (my_obj s) = (release, m')"
    and wr: "wr \<longrightarrow> my_writing s"
  shows "md_control (add_release release (s\<lparr>my_reading := rd, my_writing := wr, my_obj := m'\<rparr>))"
proof (cases "md_reactor (my_obj s) \<and> \<not> md_hold_released (my_obj s)")
  case True
  then have live: "my_pc s = MStreaming" "call_live s"
    using c call_ok_published by (simp_all add: md_control_def)
  from True run have "release" "m' = (my_obj s)\<lparr>md_broken := True, md_hold_released := True\<rparr>"
    by (auto simp: md_handle_read_closed_def)
  with True live c wr show ?thesis
    by (simp add: md_control_def call_ok_def call_live_def add_release_def)
next
  case False
  with run have "\<not> release" "m' = (my_obj s)\<lparr>md_broken := True\<rparr>"
    by (auto simp: md_handle_read_closed_def Let_def split: if_splits)
  with False c b wr show ?thesis
    by (cases "my_pc s") (auto simp: md_control_def call_defs add_release_def)
qed

lemma write_done_control:
  assumes c: "md_control s" and b: "my_writing s"
    and run: "md_handle_write_done ok (my_obj s) = (release, w, m')"
  shows "md_control (add_release release (reactor_write w (s\<lparr>my_writing := False, my_obj := m'\<rparr>)))"
proof -
  have live: "my_pc s = MStreaming" "call_live s"
    using c b by (cases "my_pc s"; simp add: md_control_def call_ok_def call_idle_def)+
  show ?thesis
  proof (cases ok)
    case True
    let ?s = "s\<lparr>my_writing := False, my_obj := (my_obj s)\<lparr>md_in_flight := False\<rparr>\<rparr>"
    have "md_control ?s" using c live by (simp add: md_control_def call_ok_def call_live_def)
    moreover from run True have "\<not> release" "maybe_write_locked (my_obj ?s) = (w, m')"
      by (auto simp: md_handle_write_done_def split: prod.splits)
    ultimately show ?thesis using write_control [of ?s w m'] by (simp add: add_release_def)
  next
    case False
    then have "w = None" "md_handle_read_closed (my_obj s) = (release, m')"
      using run by (auto simp: md_handle_write_done_def split: prod.splits)
    moreover have "my_bound s" using live by (simp add: call_live_def)
    ultimately show ?thesis
      using read_closed_control [OF c, of release m' False "my_reading s"] by (simp add: reactor_write_def)
  qed
qed

lemma stop_control:
  assumes c: "md_control s" and run: "md_stop (my_obj s) = (release, cancel, m')"
  shows "md_control (add_release release (s\<lparr>my_obj := m', my_cancelled := c1\<rparr>))"
proof (cases "md_reactor (my_obj s) \<and> \<not> md_hold_released (my_obj s)")
  case True
  then have live: "my_pc s = MStreaming" "call_live s"
    using c call_ok_published by (simp_all add: md_control_def)
  from True run have "release"
    "m' = (my_obj s)\<lparr>md_stopping := True, md_broken := True, md_hold_released := True, md_joinable := False\<rparr>"
    by (auto simp: md_stop_def Let_def)
  with True live c show ?thesis
    by (simp add: md_control_def call_ok_def call_live_def add_release_def)
next
  case False
  with run have "\<not> release"
    "m' = (my_obj s)\<lparr>md_stopping := True, md_broken := True, md_joinable := False\<rparr>"
    by (auto simp: md_stop_def Let_def)
  with False c show ?thesis
    by (cases "my_pc s") (auto simp: md_control_def call_defs add_release_def)
qed

lemma release_control:
  assumes c: "md_control s" and p: "0 < my_pending s"
  shows "md_control (reactor_remove_hold (s\<lparr>my_pending := my_pending s - 1\<rparr>))"
proof -
  have live: "my_pc s = MStreaming" "call_live s"
    using c p by (cases "my_pc s"; simp add: md_control_def call_ok_def call_idle_def)+
  then have "md_hold_released (my_obj s)" "my_pending s = 1" "my_holds s = 1"
    using p by (auto simp: call_live_def)
  with live c show ?thesis
    by (simp add: md_control_def call_ok_def call_live_def reactor_remove_hold_def)
qed

lemma done_control:
  assumes c: "md_control s" and d: "my_bound s" "my_holds s = 0" "\<not> my_reading s" "\<not> my_writing s"
  shows "md_control (s\<lparr>my_bound := False, my_obj := md_handle_done st (my_obj s)\<rparr>)"
proof -
  have live: "my_pc s = MStreaming" "call_live s"
    using c d by (cases "my_pc s"; simp add: md_control_def call_ok_def call_idle_def)+
  with d have "my_pending s = 0" by (auto simp: call_live_def)
  with live c d show ?thesis
    by (simp add: md_control_def call_ok_def call_idle_def md_handle_done_def)
qed

lemma response_control:
  assumes c: "md_control s" and run: "md_handle_response p (my_obj s) = (ev, hs, m')"
  shows "md_control (s\<lparr>my_obj := m', my_log := lg, my_calls := cs\<rparr>)"
proof -
  have "m' = (my_obj s)\<lparr>md_got_data := True\<rparr>" using run by (simp add: md_handle_response_def)
  then show ?thesis using c by (cases "my_pc s"; simp add: md_control_def call_defs)
qed

lemma md_step_control:
  assumes c: "md_control s" and step: "md_step a s s'"
  shows "md_control s'"
  using step
proof cases
  case (m_read_closed release m)
  moreover have "my_bound s" if "my_reading s"
    using c that by (cases "my_pc s") (auto simp: md_control_def call_defs)
  ultimately show ?thesis
    using read_closed_control [OF c, of release m "my_writing s" False] by simp
next
  case (m_start m)
  then show ?thesis
    using c by (auto simp: md_control_def call_ok_def call_idle_def md_start_def split: if_splits)
next
  case (m_top ev pc)
  then show ?thesis
    using c by (auto simp: md_control_def call_ok_def call_idle_def md_run_top_def split: if_splits)
next
  case (m_snapshot m pc)
  then show ?thesis
    using c by (auto simp: md_control_def call_ok_def call_idle_def flags_fresh_def md_snapshot_def split: if_splits)
next
  case m_begin
  then show ?thesis
    using c by (simp add: md_control_def call_ok_def call_idle_def flags_fresh_def reactor_begin_def)
next
  case (m_once_end m pc)
  then show ?thesis
    using c by (auto simp: md_control_def call_ok_def call_idle_def call_live_def md_run_once_end_def)
next
  case (m_after st ev att pc)
  then show ?thesis
    using c by (auto simp: md_control_def call_ok_def call_idle_def md_run_after_def Let_def split: if_splits)
next
  case (m_wake d)
  then show ?thesis using c by (simp add: md_control_def call_ok_def call_idle_def md_run_wake_def)
next
  case m_leave
  then show ?thesis using c by (simp add: md_control_def call_ok_def call_idle_def)
qed (use c send_control [OF c] publish_control [OF c] write_done_control [OF c] stop_control [OF c]
      release_control [OF c] done_control [OF c] response_control [OF c] in simp_all)


text \<open>What the last report was, by the position of the worker.\<close>

definition last_md_report_ok :: "md_pc \<Rightarrow> bool \<Rightarrow> stream_state list \<Rightarrow> bool" where
  "last_md_report_ok pc got ns \<longleftrightarrow> (case pc of
     MDetached \<Rightarrow> ns = []
   | MLoopTop \<Rightarrow> ns = [] \<or> hd ns = disconnected \<or> hd ns = stopped
   | MConnecting \<Rightarrow> (\<exists>r. ns = connecting # r)
   | MSnapshot \<Rightarrow> (\<exists>r. ns = connecting # r) \<and> \<not> got
   | MBegun \<Rightarrow> (\<exists>r. ns = (if got then connected else connecting) # r)
   | MStreaming \<Rightarrow> (\<exists>r. ns = (if got then connected else connecting) # r)
   | MReturned st \<Rightarrow> ns \<noteq> [] \<and> (hd ns = connecting \<or> hd ns = connected)
   | MBackoff d \<Rightarrow> ns \<noteq> [] \<and> hd ns = disconnected
   | MLeaving \<Rightarrow> True
   | MFinished \<Rightarrow> ns \<noteq> [] \<and> hd ns = stopped)"

definition md_reports :: "md_sys \<Rightarrow> bool" where
  "md_reports s \<longleftrightarrow>
     (if md_on_state (my_obj s)
      then last_md_report_ok (my_pc s) (md_got_data (my_obj s)) (map fst (my_log s))
      else my_log s = [])"

lemma report_view [simp]:
  "md_on_state (snd (maybe_write_locked m)) = md_on_state m"
  "md_got_data (snd (maybe_write_locked m)) = md_got_data m"
  by (simp_all add: maybe_write_locked_def)

lemma maybe_write_view:
  "maybe_write_locked m = (w, m') \<Longrightarrow>
     md_on_state m' = md_on_state m \<and> md_got_data m' = md_got_data m \<and> md_subs m' = md_subs m"
  by (auto simp: maybe_write_locked_def split: if_splits)

lemma send_view:
  "md_send r b m = (w, m') \<Longrightarrow> md_on_state m' = md_on_state m \<and> md_got_data m' = md_got_data m
     \<and> md_subs m' = (if md_stopping m then md_subs m else update_registry r b (md_subs m))"
  by (erule md_send_cases) (auto simp: can_queue_def dest!: maybe_write_view)

lemma publish_view:
  "md_publish m = (release, w, m') \<Longrightarrow>
     md_on_state m' = md_on_state m \<and> md_got_data m' = md_got_data m \<and> md_subs m' = md_subs m"
  by (auto simp: md_publish_def Let_def split: if_splits prod.splits dest!: maybe_write_view)

lemma read_closed_view:
  "md_handle_read_closed m = (release, m') \<Longrightarrow> md_on_state m' = md_on_state m
     \<and> md_got_data m' = md_got_data m \<and> md_subs m' = md_subs m \<and> md_queue m' = md_queue m"
  by (auto simp: md_handle_read_closed_def Let_def split: if_splits)

lemma write_done_view:
  "md_handle_write_done ok m = (release, w, m') \<Longrightarrow>
     md_on_state m' = md_on_state m \<and> md_got_data m' = md_got_data m \<and> md_subs m' = md_subs m"
  by (auto simp: md_handle_write_done_def split: if_splits prod.splits
      dest!: maybe_write_view read_closed_view)

lemma stop_view:
  "md_stop m = (release, cancel, m') \<Longrightarrow> md_on_state m' = md_on_state m
     \<and> md_got_data m' = md_got_data m \<and> md_subs m' = md_subs m \<and> md_queue m' = md_queue m"
  by (auto simp: md_stop_def Let_def)

lemma reactor_view [simp]:
  "my_obj (reactor_write w s) = my_obj s" "my_pc (reactor_write w s) = my_pc s"
  "my_log (reactor_write w s) = my_log s" "my_obj (add_release b s) = my_obj s"
  "my_pc (add_release b s) = my_pc s" "my_log (add_release b s) = my_log s"
  "my_obj (reactor_begin s) = my_obj s" "my_pc (reactor_begin s) = my_pc s"
  "my_log (reactor_begin s) = my_log s" "my_obj (reactor_remove_hold s) = my_obj s"
  "my_pc (reactor_remove_hold s) = my_pc s" "my_log (reactor_remove_hold s) = my_log s"
  by (auto simp: reactor_write_def add_release_def reactor_begin_def reactor_remove_hold_def split: option.split)

lemma md_response_reports:
  assumes c: "md_control s" and n: "md_reports s" and rd: "my_reading s"
    and run: "md_handle_response p (my_obj s) = (ev, hs, m')"
  shows "let ns = map fst (my_log s); ns' = map fst (ev @ my_log s) in
    (ns' = ns \<or> (legal_next ns connected \<and> ns' = connected # ns))
    \<and> (if md_on_state m' then last_md_report_ok (my_pc s) (md_got_data m') ns' else ev @ my_log s = [])"
proof -
  have "my_pc s = MBegun \<or> my_pc s = MStreaming"
    using c rd by (cases "my_pc s") (auto simp: md_control_def call_defs)
  with n run show ?thesis
    by (auto simp: md_reports_def last_md_report_ok_def legal_connected md_handle_response_def
        md_notify_def Let_def split: if_splits)
qed

text \<open>Steps that report nothing and leave the worker where it is.\<close>

lemma silent_reports:
  assumes "md_reports s" "my_pc s' = my_pc s" "my_log s' = my_log s"
    and "md_on_state (my_obj s') = md_on_state (my_obj s)" "md_got_data (my_obj s') = md_got_data (my_obj s)"
  shows "md_reports s' \<and> (map fst (my_log s') = map fst (my_log s)
    \<or> (\<exists>n. legal_next (map fst (my_log s)) n \<and> map fst (my_log s') = n # map fst (my_log s)))"
  using assms by (simp add: md_reports_def)

lemma md_step_reports:
  assumes c: "md_control s" and n: "md_reports s" and step: "md_step a s s'"
  shows "md_reports s' \<and> (map fst (my_log s') = map fst (my_log s)
    \<or> (\<exists>n. legal_next (map fst (my_log s)) n \<and> map fst (my_log s') = n # map fst (my_log s)))"
  using step
proof cases
  case (m_read_ok p ev hs m)
  then show ?thesis
    using md_response_reports [OF c n, of p ev hs m] by (auto simp: md_reports_def Let_def)
next
  case (m_send r remember w m queued)
  then show ?thesis using send_view [OF m_send(3)] by (intro silent_reports [OF n]) simp_all
next
  case (m_write_done ok release w m)
  then show ?thesis using write_done_view [OF m_write_done(4)] by (intro silent_reports [OF n]) simp_all
next
  case (m_read_closed release m)
  then show ?thesis using read_closed_view [OF m_read_closed(4)] by (intro silent_reports [OF n]) simp_all
next
  case (m_stop release cancel m)
  then show ?thesis using stop_view [OF m_stop(3)] by (intro silent_reports [OF n]) simp_all
next
  case (m_done st)
  then show ?thesis by (intro silent_reports [OF n]) (simp_all add: md_handle_done_def)
next
  case m_release
  then show ?thesis by (intro silent_reports [OF n]) simp_all
next
  case (m_publish release w m)
  then show ?thesis
    using n publish_view [OF m_publish(4)]
    by (auto simp: md_reports_def last_md_report_ok_def split: if_splits)
next
  case (m_after st ev att pc)
  then show ?thesis
    using n by (auto simp: md_reports_def md_run_after_def Let_def last_md_report_ok_def legal_simps
        md_notify_def split: if_splits)
qed (use n in \<open>auto simp: md_reports_def md_start_def md_run_top_def md_snapshot_def md_run_once_end_def
      md_run_wake_def md_notify_def last_md_report_ok_def legal_simps split: if_splits\<close>)

section \<open>The order of the writes, and the registry\<close>

definition md_fifo :: "md_sys \<Rightarrow> bool" where
  "md_fifo s \<longleftrightarrow>
     (my_pc s = MSnapshot \<longrightarrow> md_queue (my_obj s) = my_snapshot s \<and> my_queued s = [])
     \<and> (my_pc s = MBegun \<or> my_pc s = MStreaming \<longrightarrow>
          my_written s @ md_queue (my_obj s) = my_snapshot s @ my_queued s)
     \<and> registry_ok (md_subs (my_obj s))"

lemma write_fifo:
  assumes "md_fifo s" "maybe_write_locked (my_obj s) = (w, m')"
    "my_pc s = MBegun \<or> my_pc s = MStreaming"
  shows "md_fifo (reactor_write w (s\<lparr>my_obj := m'\<rparr>))"
  using assms(2)
proof (cases rule: maybe_write_cases)
  case 1
  then show ?thesis using assms(1) by (simp add: reactor_write_def)
next
  case (2 r q)
  then show ?thesis using assms(1,3) by (auto simp: md_fifo_def reactor_write_def)
qed

lemma registry_ok_update: "registry_ok subs \<Longrightarrow> registry_ok (update_registry r b subs)"
  by (simp add: update_registry_def registry_ok_remember registry_ok_forget)

lemma send_fifo:
  assumes f: "md_fifo s" and c: "md_control s" and run: "md_send r b (my_obj s) = (w, m')"
  shows "md_fifo (reactor_write w (s\<lparr>my_queued := (if can_queue (my_obj s) then my_queued s @ [r] else my_queued s),
    my_obj := m'\<rparr>))"
  using run
proof (cases rule: md_send_cases)
  case 1
  then show ?thesis using f by (simp add: md_fifo_def reactor_write_def can_queue_def)
next
  case 2
  then show ?thesis using f by (simp add: md_fifo_def reactor_write_def registry_ok_update)
next
  case 3
  let ?s = "s\<lparr>my_queued := my_queued s @ [r], my_obj := (my_obj s)\<lparr>md_subs := update_registry r b (md_subs (my_obj s)),
      md_queue := md_queue (my_obj s) @ [r]\<rparr>\<rparr>"
  have pc: "my_pc s = MStreaming"
    using 3(1) c call_ok_published by (simp add: can_queue_def md_control_def)
  have "md_fifo ?s"
    using f pc by (auto simp: md_fifo_def registry_ok_update simp flip: append_assoc)
  from write_fifo [OF this, of w m'] 3 pc show ?thesis by simp
qed

lemma md_step_fifo:
  assumes c: "md_control s" and f: "md_fifo s" and step: "md_step a s s'"
  shows "md_fifo s'"
  using step
proof cases
  case (m_send r remember w m queued)
  then show ?thesis using send_fifo [OF f c m_send(3)] by (simp add: can_queue_def)
next
  case (m_publish release w m)
  let ?s = "\<lambda>m. s\<lparr>my_pc := MStreaming, my_obj := m\<rparr>"
  have fs: "md_fifo (?s ((my_obj s)\<lparr>md_reactor := True\<rparr>))"
    "md_fifo (?s ((my_obj s)\<lparr>md_reactor := True, md_hold_released := True\<rparr>))" "md_fifo (?s (my_obj s))"
    using f m_publish(3) by (simp_all add: md_fifo_def)
  have rel: "md_fifo (add_release b t) = md_fifo t" for b t by (simp add: md_fifo_def add_release_def)
  have "md_fifo (reactor_write w (?s m))"
    using m_publish(4) fs write_fifo [OF fs(1), of w m]
    by (auto simp: md_publish_def Let_def reactor_write_def [of None] split: if_splits prod.splits)
  then show ?thesis using m_publish(2) rel by simp
next
  case (m_write_done ok release w m)
  let ?s = "s\<lparr>my_writing := False, my_obj := (my_obj s)\<lparr>md_in_flight := False\<rparr>\<rparr>"
  have pc: "my_pc s = MStreaming"
    using c m_write_done(3) by (cases "my_pc s"; simp add: md_control_def call_ok_def call_idle_def)
  have rel: "md_fifo (add_release b t) = md_fifo t" for b t by (simp add: md_fifo_def add_release_def)
  have "md_fifo ?s" using f by (simp add: md_fifo_def)
  then have "md_fifo (reactor_write w (s\<lparr>my_writing := False, my_obj := m\<rparr>))"
    using m_write_done(4) write_fifo [of ?s w m] pc f
    by (auto simp: md_handle_write_done_def md_fifo_def reactor_write_def [of None]
        split: if_splits prod.splits dest!: read_closed_view)
  then show ?thesis using m_write_done(2) rel by simp
next
  case (m_read_closed release m)
  then show ?thesis using f read_closed_view [OF m_read_closed(4)] by (simp add: md_fifo_def add_release_def)
next
  case (m_stop release cancel m)
  then show ?thesis using f stop_view [OF m_stop(3)] by (simp add: md_fifo_def add_release_def)
next
  case (m_snapshot m pc)
  then show ?thesis using f by (auto simp: md_fifo_def md_snapshot_def split: if_splits)
next
  case m_begin
  then show ?thesis using f by (simp add: md_fifo_def reactor_begin_def)
qed (use f in \<open>auto simp: md_fifo_def md_start_def md_run_top_def md_run_once_end_def md_run_after_def Let_def
      md_run_wake_def md_handle_response_def md_handle_done_def reactor_remove_hold_def split: if_splits\<close>)


section \<open>Progress of the queue\<close>

text \<open>While a connection is healthy, requests wait in the queue only behind an outstanding write.\<close>

definition md_flowing :: "md_sys \<Rightarrow> bool" where
  "md_flowing s \<longleftrightarrow> (md_reactor (my_obj s) \<and> \<not> md_hold_released (my_obj s) \<longrightarrow>
     md_in_flight (my_obj s) = my_writing s \<and> (md_queue (my_obj s) \<noteq> [] \<longrightarrow> my_writing s))"

lemma write_flowing:
  assumes c: "md_control s" and w: "maybe_write_locked (my_obj s) = (w, m')"
    and fl: "md_in_flight (my_obj s) = my_writing s \<or> md_hold_released (my_obj s)"
  shows "md_flowing (reactor_write w (s\<lparr>my_obj := m'\<rparr>))"
  using w
proof (cases rule: maybe_write_cases)
  case 1
  have "md_reactor (my_obj s) \<and> \<not> md_hold_released (my_obj s) \<longrightarrow> \<not> md_broken (my_obj s)"
    using c call_ok_published by (auto simp: md_control_def call_live_def)
  with 1 w fl show ?thesis
    by (auto simp: md_flowing_def reactor_write_def maybe_write_locked_def split: if_splits)
next
  case (2 r q)
  then show ?thesis by (simp add: md_flowing_def reactor_write_def)
qed

lemma send_flowing:
  assumes fl: "md_flowing s" and c: "md_control s" and run: "md_send r b (my_obj s) = (w, m')"
  shows "md_flowing (reactor_write w (s\<lparr>my_queued := z, my_obj := m'\<rparr>))"
  using run
proof (cases rule: md_send_cases)
  case 3
  let ?s = "s\<lparr>my_queued := z, my_obj := (my_obj s)\<lparr>md_subs := update_registry r b (md_subs (my_obj s)),
      md_queue := md_queue (my_obj s) @ [r]\<rparr>\<rparr>"
  have "md_control ?s" by (rule control_registry(2) [OF c])
  moreover have "md_in_flight (my_obj ?s) = my_writing ?s \<or> md_hold_released (my_obj ?s)"
    using fl 3(1) by (auto simp: md_flowing_def can_queue_def)
  ultimately show ?thesis using write_flowing [of ?s w m'] 3(2) by simp
qed (use fl in \<open>simp_all add: md_flowing_def reactor_write_def\<close>)

lemma md_step_flowing:
  assumes c: "md_control s" and fl: "md_flowing s" and step: "md_step a s s'"
  shows "md_flowing s'"
  using step
proof cases
  case (m_send r remember w m queued)
  then show ?thesis using send_flowing [OF fl c m_send(3)] by simp
next
  case (m_publish release w m)
  let ?s = "s\<lparr>my_pc := MStreaming, my_obj := (my_obj s)\<lparr>md_reactor := True\<rparr>\<rparr>"
  have fresh: "flags_fresh s" "my_bound s" "my_holds s = 1" "my_pending s = 0" "\<not> my_writing s"
    using c m_publish(3) by (simp_all add: md_control_def call_ok_def)
  show ?thesis
  proof (cases "md_stopping (my_obj s) \<or> md_broken (my_obj s)")
    case True
    with m_publish(4) fresh have "md_hold_released m" by (auto simp: md_publish_def flags_fresh_def)
    with m_publish(2) show ?thesis by (simp add: md_flowing_def)
  next
    case False
    with m_publish(4) fresh have w: "\<not> release" "maybe_write_locked (my_obj ?s) = (w, m)"
      by (auto simp: md_publish_def flags_fresh_def Let_def split: prod.splits)
    have "md_control ?s"
      using c m_publish(3) False fresh by (simp add: md_control_def call_ok_def call_live_def flags_fresh_def)
    from write_flowing [OF this w(2)] fresh w(1) m_publish(2) show ?thesis
      by (simp add: flags_fresh_def add_release_def)
  qed
next
  case (m_write_done ok release w m)
  have live: "my_pc s = MStreaming" "call_live s"
    using c m_write_done(3) by (cases "my_pc s"; simp add: md_control_def call_ok_def call_idle_def)+
  show ?thesis
  proof (cases ok)
    case True
    let ?s = "s\<lparr>my_writing := False, my_obj := (my_obj s)\<lparr>md_in_flight := False\<rparr>\<rparr>"
    have "md_control ?s" using c live by (simp add: md_control_def call_ok_def call_live_def)
    with True m_write_done write_flowing [of ?s w m] show ?thesis
      by (auto simp: md_handle_write_done_def add_release_def split: prod.splits)
  next
    case False
    with m_write_done(4) live have "md_hold_released m"
      by (auto simp: md_handle_write_done_def md_handle_read_closed_def Let_def call_live_def split: if_splits)
    with m_write_done(2) show ?thesis by (simp add: md_flowing_def)
  qed
next
  case (m_snapshot m pc)
  then have "\<not> md_reactor (my_obj s)" using c by (simp add: md_control_def call_ok_def call_idle_def)
  with m_snapshot show ?thesis by (auto simp: md_flowing_def md_snapshot_def split: if_splits)
next
  case m_begin
  then have "\<not> md_reactor (my_obj s)" using c by (simp add: md_control_def call_ok_def call_idle_def)
  with m_begin show ?thesis by (simp add: md_flowing_def)
qed (use fl in \<open>auto simp: md_flowing_def md_start_def md_stop_def md_run_once_end_def md_handle_response_def
      md_handle_read_closed_def md_handle_done_def reactor_remove_hold_def add_release_def Let_def split: if_splits\<close>)

text \<open>An error goes with \<^verbatim>\<open>disconnected\<close> and with nothing else.\<close>

lemma md_step_errors:
  assumes "md_step a s s'" "\<forall>(st, e)\<in>set (my_log s). e \<noteq> None \<longleftrightarrow> st = disconnected"
  shows "\<forall>(st, e)\<in>set (my_log s'). e \<noteq> None \<longleftrightarrow> st = disconnected"
  using assms
  by cases (auto simp: md_run_top_def md_run_after_def md_handle_response_def md_notify_def Let_def split: if_splits)

section \<open>Cancellation\<close>

text \<open>
  The context is published from the copy of the registry to the end of the call, so a stop that
  comes in between cancels it, also when the call is not started yet.
\<close>

definition in_run_once :: "md_pc \<Rightarrow> bool" where
  "in_run_once pc \<longleftrightarrow> pc = MSnapshot \<or> pc = MBegun \<or> pc = MStreaming"

definition md_cancels :: "md_sys \<Rightarrow> bool" where
  "md_cancels s \<longleftrightarrow> (md_ctx (my_obj s) \<longleftrightarrow> in_run_once (my_pc s))
     \<and> (in_run_once (my_pc s) \<and> md_stopping (my_obj s) \<longrightarrow> my_cancelled s)"

lemma cancel_view [simp]:
  "my_cancelled (reactor_write w s) = my_cancelled s" "my_cancelled (add_release b s) = my_cancelled s"
  "my_cancelled (reactor_begin s) = my_cancelled s" "my_cancelled (reactor_remove_hold s) = my_cancelled s"
  by (auto simp: reactor_write_def add_release_def reactor_begin_def reactor_remove_hold_def split: option.split)

lemma ctx_view:
  "maybe_write_locked m = (w, m') \<Longrightarrow> md_ctx m' = md_ctx m \<and> md_stopping m' = md_stopping m"
  "md_send r b m = (w, m') \<Longrightarrow> md_ctx m' = md_ctx m \<and> md_stopping m' = md_stopping m"
  "md_handle_read_closed m = (release, m') \<Longrightarrow> md_ctx m' = md_ctx m \<and> md_stopping m' = md_stopping m"
  "md_handle_write_done ok m = (release, w, m') \<Longrightarrow> md_ctx m' = md_ctx m \<and> md_stopping m' = md_stopping m"
  "md_publish m = (release, w, m') \<Longrightarrow> md_ctx m' = md_ctx m \<and> md_stopping m' = md_stopping m"
  by (auto simp: maybe_write_locked_def md_send_def md_handle_read_closed_def md_handle_write_done_def md_publish_def
      Let_def split: if_splits)

lemma md_step_cancels:
  assumes "md_cancels s" "md_step a s s'"
  shows "md_cancels s'"
  using assms(2)
proof cases
  case (m_send r remember w m queued)
  then show ?thesis using assms(1) ctx_view(2) [OF m_send(3)] by (simp add: md_cancels_def)
next
  case (m_publish release w m)
  then show ?thesis using assms(1) ctx_view(5) [OF m_publish(4)] by (simp add: md_cancels_def in_run_once_def)
next
  case (m_read_closed release m)
  then show ?thesis using assms(1) ctx_view(3) [OF m_read_closed(4)] by (simp add: md_cancels_def)
next
  case (m_write_done ok release w m)
  then show ?thesis using assms(1) ctx_view(4) [OF m_write_done(4)] by (simp add: md_cancels_def)
qed (use assms(1) in \<open>auto simp: md_cancels_def in_run_once_def md_start_def md_stop_def md_run_top_def md_snapshot_def
      md_run_once_end_def md_run_after_def md_run_wake_def md_handle_response_def md_handle_done_def Let_def split: if_splits\<close>)

section \<open>The machine as a stream machine\<close>

definition md_inv :: "md_sys \<Rightarrow> bool" where
  "md_inv s \<longleftrightarrow> md_control s \<and> md_reports s \<and> md_fifo s \<and> md_flowing s \<and> md_cancels s"

interpretation md: stream_machine md_initial "\<lambda>s s'. \<exists>a. md_step a s s'" md_inv "\<lambda>s. map fst (my_log s)"
proof unfold_locales
  fix s assume "md_initial s"
  then show "md_inv s \<and> map fst (my_log s) = []"
    by (auto simp: md_initial_def md_inv_def md_control_def call_ok_def call_idle_def md_reports_def
        last_md_report_ok_def md_fifo_def md_flowing_def md_cancels_def in_run_once_def new_md_stream_def
        registry_ok_def map_sorted_def)
next
  fix s s' assume s: "md_inv s" "\<exists>a. md_step a s s'"
  then obtain a where a: "md_step a s s'" by blast
  have parts: "md_control s" "md_reports s" "md_fifo s" "md_flowing s" "md_cancels s"
    using s(1) by (simp_all add: md_inv_def)
  note reports = md_step_reports [OF parts(1,2) a]
  show "md_inv s'"
    using reports md_step_control [OF parts(1) a] md_step_fifo [OF parts(1,3) a]
      md_step_flowing [OF parts(1,4) a] md_step_cancels [OF parts(5) a] by (simp add: md_inv_def)
  show "map fst (my_log s') = map fst (my_log s)
    \<or> (\<exists>n. legal_next (map fst (my_log s)) n \<and> map fst (my_log s') = n # map fst (my_log s))"
    using reports by simp
qed


section \<open>A sample run\<close>

text \<open>
  Start, connect with an empty registry, subscribe to trades of A before the reactor is published,
  publish it, then subscribe to the status of B.
\<close>

definition demo_obj :: md_stream where
  "demo_obj = (new_md_stream (\<lambda>_. True) True default_stream_options)\<lparr>md_joinable := True, md_ctx := True\<rparr>"

definition demo_early :: md_request where
  "demo_early = subscribe_trades [''A''] False"

definition demo_late :: md_request where
  "demo_late = subscribe_info [''B'']"

text \<open>After the publication of the reactor.\<close>

definition demo_published :: md_sys where
  "demo_published =
     \<lparr>my_obj = demo_obj\<lparr>md_reactor := True, md_subs := [(''trades|A'', demo_early)]\<rparr>, my_pc = MStreaming,
      my_attempt = 0, my_log = [(connecting, None)], my_calls = [], my_bound = True, my_holds = 1,
      my_reading = True, my_writing = False, my_written = [], my_pending = 0, my_misuse = False,
      my_snapshot = [], my_queued = [], my_cancelled = False\<rparr>"

definition demo_sent :: md_sys where
  "demo_sent = demo_published\<lparr>
     my_obj := (my_obj demo_published)\<lparr>md_in_flight := True,
       md_subs := [(''info|B'', demo_late), (''trades|A'', demo_early)]\<rparr>,
     my_writing := True, my_written := [demo_late], my_queued := [demo_late]\<rparr>"

lemma demo_early_remembered: "remember_locked demo_early [] = [(''trades|A'', demo_early)]"
  by (simp add: remember_locked_def demo_early_def subscribe_trades_def plain_instruments_def
      plain_key_def id_of_def)

lemma demo_late_remembered:
  "remember_locked demo_late [(''trades|A'', demo_early)] = [(''info|B'', demo_late), (''trades|A'', demo_early)]"
  by (simp add: remember_locked_def demo_late_def subscribe_info_def plain_instruments_def
      plain_key_def id_of_def)

lemma demo_actions: "action_of demo_early = Subscribe" "action_of demo_late = Subscribe"
  by (simp_all add: demo_early_def demo_late_def convenience_requests)

lemmas demo_obj_simps = demo_obj_def new_md_stream_def default_stream_options_def

lemma demo_published_reach: "md.reach demo_published"
proof -
  let ?o0 = "new_md_stream (\<lambda>_. True) True default_stream_options"
  let ?s0 = "\<lparr>my_obj = ?o0, my_pc = MDetached, my_attempt = 0, my_log = [], my_calls = [], my_bound = False,
      my_holds = 0, my_reading = False, my_writing = False, my_written = [], my_pending = 0,
      my_misuse = False, my_snapshot = [], my_queued = [], my_cancelled = False\<rparr>"
  let ?s1 = "?s0\<lparr>my_obj := ?o0\<lparr>md_joinable := True\<rparr>, my_pc := MLoopTop\<rparr>"
  let ?s2 = "?s1\<lparr>my_pc := MConnecting, my_log := [(connecting, None)]\<rparr>"
  let ?s3 = "?s2\<lparr>my_obj := demo_obj, my_pc := MSnapshot\<rparr>"
  let ?s4 = "?s3\<lparr>my_pc := MBegun, my_bound := True, my_holds := 1, my_reading := True\<rparr>"
  let ?s5 = "?s4\<lparr>my_obj := demo_obj\<lparr>md_subs := [(''trades|A'', demo_early)]\<rparr>\<rparr>"
  have "md_initial ?s0" unfolding md_initial_def md_sys.simps by (intro conjI exI, rule refl) simp_all
  then have 0: "md.reach ?s0" by (rule md.reach_init)
  have "md_step MUser ?s0 ?s1"
    using m_start [of ?s0 "?o0\<lparr>md_joinable := True\<rparr>"] by (simp add: md_start_def new_md_stream_def)
  with 0 have 1: "md.reach ?s1" by (blast intro: md.reach_step)
  have "md_step MWorker ?s1 ?s2"
    using m_top [of ?s1 "[(connecting, None)]" MConnecting]
    by (simp add: md_run_top_def md_notify_def new_md_stream_def)
  with 1 have 2: "md.reach ?s2" by (blast intro: md.reach_step)
  have "md_step MWorker ?s2 ?s3"
    using m_snapshot [of ?s2 demo_obj MSnapshot] by (simp add: md_snapshot_def demo_obj_simps)
  with 2 have 3: "md.reach ?s3" by (blast intro: md.reach_step)
  have "md_step MWorker ?s3 ?s4" using m_begin [of ?s3] by (simp add: reactor_begin_def)
  with 3 have 4: "md.reach ?s4" by (blast intro: md.reach_step)
  have "md_step MUser ?s4 ?s5"
    using m_send [of demo_early True ?s4 None "demo_obj\<lparr>md_subs := [(''trades|A'', demo_early)]\<rparr>" False]
    by (simp add: md_send_def demo_actions demo_early_remembered demo_obj_simps reactor_write_def)
  with 4 have 5: "md.reach ?s5" by (blast intro: md.reach_step)
  have "md_step MWorker ?s5 demo_published"
    using m_publish [of ?s5 False None "demo_obj\<lparr>md_reactor := True, md_subs := [(''trades|A'', demo_early)]\<rparr>"]
    by (simp add: md_publish_def maybe_write_locked_def demo_obj_simps reactor_write_def add_release_def
        demo_published_def)
  with 5 show ?thesis by (blast intro: md.reach_step)
qed

lemma demo_sent_reach: "md.reach demo_sent"
proof -
  have "md_step MUser demo_published demo_sent"
    using m_send [of demo_late True demo_published "Some demo_late" "my_obj demo_sent" True]
    by (simp add: md_send_def maybe_write_locked_def demo_actions demo_late_remembered demo_obj_simps
        reactor_write_def demo_sent_def demo_published_def)
  then show ?thesis using demo_published_reach by (blast intro: md.reach_step)
qed

section \<open>Properties\<close>

text \<open>
  With one worker at a time the reactor is used as gRPC demands: no write is started while another
  one is outstanding or on a call that is not bound and held, and the hold taken when the call
  begins is released at most once, by exactly one thread.
\<close>

lemma reactor_never_misused:
  assumes "md.reach s"
  shows "\<not> my_misuse s \<and> (my_bound s \<longrightarrow> my_holds s \<in> {0, 1}) \<and> my_pending s \<le> 1
    \<and> (my_writing s \<longrightarrow> my_bound s \<and> md_in_flight (my_obj s))"
proof -
  have c: "md_control s" using md.reach_inv [OF assms] by (simp add: md_inv_def)
  then show ?thesis
    by (cases "my_pc s") (auto simp: md_control_def call_ok_def call_idle_def call_live_def)
qed

text \<open>
  With one worker at a time the state callback sees a conforming sequence of states.
\<close>

lemma market_data_protocol:
  assumes "md.reach s"
  shows "protocol (map fst (my_log s))"
  using md.reach_protocol [OF assms] .

text \<open>
  C2: on each connection the requests are written in order and none twice: what has been written,
  followed by the queue, is the registry as it was when the connection was set up, followed by the
  requests queued since; and while the connection is healthy, a queue that is not empty always has
  a write outstanding, so a quiet connection has written everything.
\<close>

theorem writes_in_order:
  assumes "md.reach s" "my_pc s = MStreaming"
  shows "my_written s @ md_queue (my_obj s) = my_snapshot s @ my_queued s
    \<and> (md_reactor (my_obj s) \<and> \<not> md_hold_released (my_obj s) \<and> \<not> my_writing s \<longrightarrow>
         my_written s = my_snapshot s @ my_queued s)"
proof -
  have "md_fifo s" "md_flowing s" using md.reach_inv [OF assms(1)] by (simp_all add: md_inv_def)
  then show ?thesis using assms(2) by (auto simp: md_fifo_def md_flowing_def)
qed

theorem writes_in_order_witness:
  "my_written demo_sent @ md_queue (my_obj demo_sent) = [demo_late]"
proof -
  have "my_pc demo_sent = MStreaming" "my_snapshot demo_sent @ my_queued demo_sent = [demo_late]"
    by (simp_all add: demo_sent_def demo_published_def)
  then show ?thesis using writes_in_order [OF demo_sent_reach] by simp
qed

section \<open>Stopping\<close>

fun md_pc_rank :: "md_pc \<Rightarrow> nat" where
  "md_pc_rank MDetached = 0"
| "md_pc_rank MFinished = 0"
| "md_pc_rank MLeaving = 1"
| "md_pc_rank (MReturned st) = 2"
| "md_pc_rank MLoopTop = 2"
| "md_pc_rank (MBackoff d) = 2"
| "md_pc_rank MConnecting = 3"
| "md_pc_rank MStreaming = 4"
| "md_pc_rank MBegun = 8"
| "md_pc_rank MSnapshot = 12"

definition md_rank :: "md_sys \<Rightarrow> nat" where
  "md_rank s = md_pc_rank (my_pc s) + (if my_bound s then 1 else 0) + (if my_reading s then 1 else 0)
     + (if my_writing s then 1 else 0) + my_pending s"


text \<open>While the stream is stopping, no region starts a write or takes over a second release.\<close>

lemma stopping_write_done:
  assumes "call_live s" "md_stopping (my_obj s)" "md_handle_write_done ok (my_obj s) = (release, w, m)"
  shows "\<not> release \<and> w = None \<and> md_stopping m"
  using assms
  by (auto simp: call_live_def md_handle_write_done_def md_handle_read_closed_def maybe_write_locked_def
      Let_def split: if_splits)

lemma stopping_read_closed:
  assumes "md_control s" "my_reading s" "md_stopping (my_obj s)" "md_handle_read_closed (my_obj s) = (release, m)"
  shows "\<not> release \<and> md_stopping m"
proof -
  have "md_reactor (my_obj s) \<longrightarrow> md_hold_released (my_obj s)"
    using assms(1,3) call_ok_published by (auto simp: md_control_def call_live_def)
  with assms(3,4) show ?thesis by (auto simp: md_handle_read_closed_def Let_def split: if_splits)
qed

lemma writing_live: "md_control s \<Longrightarrow> my_writing s \<Longrightarrow> my_pc s = MStreaming \<and> call_live s"
  by (cases "my_pc s"; simp add: md_control_def call_ok_def call_idle_def)

lemma stopping_md_step:
  assumes c: "md_control s" and st: "md_stopping (my_obj s)" and step: "md_step a s s'"
    and a: "a = MWorker \<or> a = MRelease \<or> a = MCompletion"
  shows "md_rank s' < md_rank s \<and> md_stopping (my_obj s')"
  using step
proof cases
  case (m_write_done ok release w m)
  then show ?thesis
    using stopping_write_done [OF _ st m_write_done(4)] writing_live [OF c m_write_done(3)]
    by (simp add: md_rank_def add_release_def reactor_write_def)
next
  case (m_read_closed release m)
  then show ?thesis
    using stopping_read_closed [OF c m_read_closed(3) st m_read_closed(4)] by (simp add: md_rank_def add_release_def)
next
  case (m_publish release w m)
  have fresh: "flags_fresh s" "my_bound s" "my_pending s = 0" "\<not> my_writing s"
    using c m_publish(3) by (simp_all add: md_control_def call_ok_def)
  with m_publish(4) st have "release" "w = None" "md_stopping m"
    by (auto simp: md_publish_def flags_fresh_def)
  with m_publish fresh show ?thesis by (simp add: md_rank_def add_release_def reactor_write_def)
next
  case (m_snapshot m pc)
  then show ?thesis using st by (auto simp: md_snapshot_def md_rank_def)
next
  case m_begin
  then show ?thesis
    using c st by (simp add: md_control_def call_ok_def call_idle_def md_rank_def reactor_begin_def)
next
  case m_release
  then show ?thesis using st by (simp add: md_rank_def reactor_remove_hold_def)
qed (use a st in \<open>auto simp: md_rank_def md_run_top_def md_run_once_end_def md_run_after_def md_run_wake_def
      md_handle_done_def\<close>)

text \<open>
  The steps that are bound to come: those of the worker and of the thread that owes the release of
  the hold, and the completions by gRPC of a call that has been cancelled.
\<close>

definition md_winding :: "md_sys \<Rightarrow> md_sys \<Rightarrow> bool" where
  "md_winding s s' \<longleftrightarrow> md_step MWorker s s' \<or> md_step MRelease s s' \<or> my_cancelled s \<and> md_step MCompletion s s'"

lemma streaming_can_wind:
  assumes c: "md_control s" and st: "md_stopping (my_obj s)" and pc: "my_pc s = MStreaming" and cn: "my_cancelled s"
  shows "\<exists>s'. md_winding s s'"
proof -
  consider "my_reading s" | "my_writing s" | "0 < my_pending s"
    | "\<not> my_reading s" "\<not> my_writing s" "my_pending s = 0" "my_bound s" | "\<not> my_bound s" by blast
  then show ?thesis
  proof cases
    case 1
    then show ?thesis using m_read_closed cn unfolding md_winding_def by (metis surj_pair)
  next
    case 2
    then show ?thesis using m_write_done cn unfolding md_winding_def by (metis prod_cases3)
  next
    case 3
    then show ?thesis using m_release unfolding md_winding_def by blast
  next
    case 4
    then have "my_holds s = 0" using c pc st by (auto simp: md_control_def call_ok_def call_live_def call_idle_def)
    then show ?thesis using m_done [OF 4(4) _ 4(1,2)] cn unfolding md_winding_def by blast
  next
    case 5
    then have "md_done (my_obj s)" using c pc by (auto simp: md_control_def call_ok_def call_live_def)
    then show ?thesis using m_once_end [OF pc] unfolding md_winding_def by (metis surj_pair)
  qed
qed

lemma unfinished_md_can_wind:
  assumes inv: "md_control s" "md_cancels s" and st: "md_stopping (my_obj s)"
    and pc: "my_pc s \<noteq> MDetached" "my_pc s \<noteq> MFinished"
  shows "\<exists>s'. md_winding s s'"
proof (cases "my_pc s = MStreaming")
  case True
  then have "my_cancelled s" using inv(2) st by (simp add: md_cancels_def in_run_once_def)
  then show ?thesis by (rule streaming_can_wind [OF inv(1) st True])
next
  case False
  have "\<exists>s'. md_step MWorker s s'"
  proof (cases "my_pc s")
    case MLoopTop
    then show ?thesis using m_top by (metis surj_pair)
  next
    case MConnecting
    then show ?thesis using m_snapshot by (metis surj_pair)
  next
    case MSnapshot
    then show ?thesis using m_begin by blast
  next
    case MBegun
    then show ?thesis using m_publish by (metis prod_cases3)
  next
    case (MReturned st)
    then show ?thesis using m_after by (metis prod_cases3)
  next
    case (MBackoff d)
    then show ?thesis using m_wake by blast
  next
    case MLeaving
    then show ?thesis using m_leave by blast
  qed (use pc False in simp_all)
  then show ?thesis by (auto simp: md_winding_def)
qed

text \<open>No step at all of a stopping stream that has not finished leads away from the end.\<close>

lemma md_user_keeps_rank:
  assumes c: "md_control s" and st: "md_stopping (my_obj s)" and pc: "my_pc s \<noteq> MDetached" "my_pc s \<noteq> MFinished"
    and step: "md_step a s s'" and a: "a = MUser \<or> a = MDelivery"
  shows "md_stopping (my_obj s') \<and> md_rank s' = md_rank s"
  using step
proof cases
  case (m_stop release cancel m)
  have "md_reactor (my_obj s) \<longrightarrow> md_hold_released (my_obj s)"
    using c st call_ok_published by (auto simp: md_control_def call_live_def)
  with m_stop have "\<not> release" "md_stopping m" by (auto simp: md_stop_def Let_def)
  with m_stop show ?thesis by (simp add: md_rank_def add_release_def)
next
  case (m_send r remember w m queued)
  then have "w = None" "m = my_obj s" using st by (simp_all add: md_send_def)
  with m_send st show ?thesis by (simp add: md_rank_def reactor_write_def)
qed (use st pc a in \<open>auto simp: md_rank_def md_handle_response_def\<close>)

lemma md_delivery_rank: "md_step MDelivery s s' \<Longrightarrow> md_rank s' = md_rank s"
  by (erule md_stepE) (auto simp: md_rank_def)

lemma stopping_md_any_step:
  assumes "md_control s" "md_stopping (my_obj s)" "my_pc s \<noteq> MDetached" "my_pc s \<noteq> MFinished" "md_step a s s'"
  shows "md_stopping (my_obj s') \<and> md_rank s' \<le> md_rank s"
  using stopping_md_step [OF assms(1,2,5)] md_user_keeps_rank [OF assms] by (cases a) auto

interpretation md_stop: stoppable_among md.reach md_winding "\<lambda>s. md_stopping (my_obj s)"
  "\<lambda>s. my_pc s \<in> {MDetached, MFinished}" "measure md_rank" "\<lambda>s s'. \<exists>a. md_step a s s'"
proof
  show "md.reach s'" if "md.reach s" "md_winding s s'" for s s'
    using that md.reach_step by (auto simp: md_winding_def)
  show "md.reach s'" if "md.reach s" "\<exists>a. md_step a s s'" for s s'
    using md.reach_step that .
  fix s assume r: "md.reach s" and st: "md_stopping (my_obj s)"
  have c: "md_control s" "md_cancels s" using md.reach_inv [OF r] by (simp_all add: md_inv_def)
  show "md_stopping (my_obj s') \<and> (s', s) \<in> measure md_rank" if "md_winding s s'" for s'
    using that stopping_md_step [OF c(1) st] by (auto simp: md_winding_def)
  show "\<exists>s'. md_winding s s'" if "my_pc s \<notin> {MDetached, MFinished}"
    using that unfinished_md_can_wind [OF c st] by auto
  show "md_stopping (my_obj s') \<and> (\<forall>t. (t, s') \<in> measure md_rank \<longrightarrow> (t, s) \<in> measure md_rank)"
    if "my_pc s \<notin> {MDetached, MFinished}" "\<exists>a. md_step a s s'" for s'
    using that stopping_md_any_step [OF c(1) st] by fastforce
qed simp

text \<open>
  C18: a stopped market data stream winds down because \<^verbatim>\<open>stop\<close> cancels the call and sees to it that the
  hold is released. Count on the steps of the worker and of the threads that owe a release, and on
  gRPC's completions only once \<^verbatim>\<open>TryCancel\<close> was called, as the server may keep an idle stream open for
  ever: these steps alone, in whatever order, cannot go on for ever, they do not cease before the worker
  has finished, and they lead there, so that the join of \<^verbatim>\<open>stop\<close> returns. Messages that still arrive
  and other users' calls do not keep it away either: an endless run of steps of all kinds passes through
  the end of the worker unless, from some point on, such a step is owed and never comes. (One
  worker: a \<^verbatim>\<open>start\<close> that overtakes the join is another matter.)
\<close>

theorem market_data_stop_winds_down:
  assumes "md.reach s" "md_stopping (my_obj s)"
  shows "(\<nexists>f. f 0 = s \<and> (\<forall>i. md_winding (f i) (f (Suc i))))
    \<and> (\<forall>s'. md_winding\<^sup>*\<^sup>* s s' \<longrightarrow> (\<nexists>t. md_winding s' t) \<longrightarrow> my_pc s' \<in> {MDetached, MFinished})
    \<and> (\<exists>s'. md_winding\<^sup>*\<^sup>* s s' \<and> my_pc s' \<in> {MDetached, MFinished})
    \<and> (\<forall>f. f 0 = s \<longrightarrow> (\<forall>i. \<exists>a. md_step a (f i) (f (Suc i))) \<longrightarrow>
         (\<exists>i. my_pc (f i) \<in> {MDetached, MFinished})
         \<or> (\<exists>n. \<forall>i\<ge>n. (\<exists>t. md_winding (f i) t) \<and> \<not> md_winding (f i) (f (Suc i))))"
  using md_stop.winds_down md_stop.finished_or_starved assms by blast

definition demo_halted :: md_sys where
  "demo_halted = demo_sent\<lparr>my_obj := (my_obj demo_sent)\<lparr>md_stopping := True, md_broken := True,
     md_hold_released := True, md_joinable := False\<rparr>, my_pending := 1, my_cancelled := True\<rparr>"

theorem market_data_stop_winds_down_witness:
  "\<exists>s'. md_winding\<^sup>*\<^sup>* demo_halted s' \<and> my_pc s' \<in> {MDetached, MFinished}"
proof -
  have "md_step MUser demo_sent demo_halted"
    using m_stop [of demo_sent True True]
    by (simp add: md_stop_def demo_halted_def demo_sent_def demo_published_def demo_obj_simps add_release_def)
  then have r: "md.reach demo_halted" using demo_sent_reach by (blast intro: md.reach_step)
  have "md_stopping (my_obj demo_halted)"
    by (simp add: demo_halted_def demo_sent_def demo_published_def)
  then show ?thesis using market_data_stop_winds_down [OF r] by blast
qed

text \<open>Requests made after \<^verbatim>\<open>stop\<close> leave no trace, not even in the registry.\<close>

lemma send_after_stop: "md_send r b (snd (snd (md_stop m))) = (None, snd (snd (md_stop m)))"
  by (simp add: md_stop_def md_send_def Let_def)

section \<open>Dispatch\<close>

lemma dispatch_handlers:
  "set (dispatch h p) \<subseteq> {x. h x} \<and> length (dispatch h p) \<le> 2
   \<and> (h on_raw \<longrightarrow> hd (dispatch h p) = on_raw)
   \<and> (p = kPing \<longrightarrow> set (dispatch h p) \<subseteq> {on_raw})"
  by (cases p) (auto simp: dispatch_def call_handler_def)

end
