(* ===== verification/Float64.thy ===== *)
theory Float64
  imports Complex_Main Prelude
begin

text \<open>
  C++ \<^verbatim>\<open>double\<close> arithmetic (IEEE 754 binary64, round to nearest, ties to even) as the
  indicator, strategy and backtest code uses it. A finite double is its real value; every
  arithmetic operation is the exact real operation followed by \<open>rnd64\<close>, the rounding to 53
  significant bits with gradual underflow; a rounded result of magnitude \<open>2^1024\<close> or more is an
  infinity; the invalid operations give \<open>NaN\<close>, on which every comparison is false. The two
  zeros are identified: the only effect of a zero's sign in this code would be the sign of an
  infinity obtained by dividing by it.

  The locale \<open>fp_rounding\<close> is the contract of a rounding function the proofs rely on
  (monotone, odd, exact on the integers of 53 bits); the interpretation \<open>ieee\<close> discharges it
  for \<open>rnd64\<close>.
\<close>

section \<open>Rounding to binary64\<close>

definition round_even :: "real \<Rightarrow> int" where
  "round_even x =
     (let n = \<lfloor>x\<rfloor>; f = x - of_int n in
      if f < 1 / 2 then n else if f > 1 / 2 then n + 1 else if even n then n else n + 1)"

definition ulp_exp :: "real \<Rightarrow> int" where
  "ulp_exp x = max (\<lfloor>log 2 \<bar>x\<bar>\<rfloor> - 52) (- 1074)"

definition rnd64 :: "real \<Rightarrow> real" where
  "rnd64 x = (if x = 0 then 0
     else of_int (round_even (x / 2 powr of_int (ulp_exp x))) * 2 powr of_int (ulp_exp x))"

section \<open>The rounding contract\<close>

locale fp_rounding =
  fixes rnd :: "real \<Rightarrow> real"
  assumes rnd_mono: "x \<le> y \<Longrightarrow> rnd x \<le> rnd y"
    and rnd_odd: "rnd (- x) = - rnd x"
    and rnd_int: "\<bar>n\<bar> \<le> 2 ^ 53 \<Longrightarrow> rnd (of_int n) = of_int n"
begin

lemma rnd_zero: "rnd 0 = 0"
  using rnd_int [of 0] by simp

lemma rnd_nonneg: "0 \<le> x \<Longrightarrow> 0 \<le> rnd x"
  using rnd_mono [of 0 x] by (simp add: rnd_zero)

lemma rnd_nonpos: "x \<le> 0 \<Longrightarrow> rnd x \<le> 0"
  using rnd_mono [of x 0] by (simp add: rnd_zero)

lemma rnd_le_exact: "x \<le> c \<Longrightarrow> rnd c = c \<Longrightarrow> rnd x \<le> c"
  using rnd_mono [of x c] by simp

lemma rnd_ge_exact: "c \<le> x \<Longrightarrow> rnd c = c \<Longrightarrow> c \<le> rnd x"
  using rnd_mono [of c x] by simp

lemma rnd_numeral: "numeral k \<le> (2 ^ 53 :: int) \<Longrightarrow> rnd (numeral k) = numeral k"
  using rnd_int [of "numeral k"] by simp

lemma rnd_neg_numeral: "numeral k \<le> (2 ^ 53 :: int) \<Longrightarrow> rnd (- numeral k) = - numeral k"
  by (simp add: rnd_odd rnd_numeral)

lemma rnd_one: "rnd 1 = 1"
  using rnd_int [of 1] by simp

lemma rnd_nat: "n \<le> 2 ^ 53 \<Longrightarrow> rnd (real n) = real n"
proof -
  assume "n \<le> 2 ^ 53"
  then have "\<bar>int n\<bar> \<le> 2 ^ 53" by (metis abs_of_nat of_nat_le_iff of_nat_numeral of_nat_power)
  from rnd_int [OF this] show ?thesis by simp
qed

end

section \<open>Round half to even\<close>

lemma round_even_int [simp]: "round_even (of_int n) = n"
  by (simp add: round_even_def)

lemma round_even_cases:
  "(round_even x = \<lfloor>x\<rfloor> \<and> x - of_int \<lfloor>x\<rfloor> \<le> 1 / 2) \<or> (round_even x = \<lfloor>x\<rfloor> + 1 \<and> 1 / 2 \<le> x - of_int \<lfloor>x\<rfloor>)"
  by (auto simp: round_even_def Let_def)

lemma round_even_mono:
  assumes "x \<le> y"
  shows "round_even x \<le> round_even y"
proof (cases "\<lfloor>x\<rfloor> = \<lfloor>y\<rfloor>")
  case True
  with assms show ?thesis by (auto simp: round_even_def Let_def)
next
  case False
  have "\<lfloor>x\<rfloor> \<le> \<lfloor>y\<rfloor>" by (rule floor_mono) fact
  with False have "\<lfloor>x\<rfloor> + 1 \<le> \<lfloor>y\<rfloor>" by simp
  then show ?thesis using round_even_cases [of x] round_even_cases [of y] by linarith
qed

lemma round_even_minus: "round_even (- x) = - round_even x"
proof (cases "x = of_int \<lfloor>x\<rfloor>")
  case True
  then obtain n where "x = of_int n" by blast
  then show ?thesis using round_even_int [of "- n"] by simp
next
  case False
  have fl: "\<lfloor>- x\<rfloor> = - \<lfloor>x\<rfloor> - 1"
  proof -
    have "of_int \<lfloor>x\<rfloor> < x" using False of_int_floor_le [of x] by linarith
    moreover have "x < of_int \<lfloor>x\<rfloor> + 1" by linarith
    ultimately show ?thesis by (intro floor_unique) (auto simp: algebra_simps)
  qed
  show ?thesis unfolding round_even_def Let_def fl by auto
qed

section \<open>Binary exponents\<close>

lemma powr_int_pos [simp]: "0 < (2 :: real) powr of_int e"
  by simp

lemma log_floor_bounds:
  assumes "0 < x"
  shows "2 powr of_int \<lfloor>log 2 x\<rfloor> \<le> x" "x < 2 powr (of_int \<lfloor>log 2 x\<rfloor> + 1)"
proof -
  have "of_int \<lfloor>log 2 x\<rfloor> \<le> log 2 x" by simp
  then show "2 powr of_int \<lfloor>log 2 x\<rfloor> \<le> x" using assms by (subst (asm) le_log_iff) auto
  have "log 2 x < of_int \<lfloor>log 2 x\<rfloor> + 1" by linarith
  then show "x < 2 powr (of_int \<lfloor>log 2 x\<rfloor> + 1)" using assms by (subst (asm) log_less_iff) auto
qed

lemma ulp_exp_ge: "- 1074 \<le> ulp_exp x"
  by (simp add: ulp_exp_def)

lemma ulp_exp_minus [simp]: "ulp_exp (- x) = ulp_exp x"
  by (simp add: ulp_exp_def)

lemma ulp_exp_mono: "0 < x \<Longrightarrow> x \<le> y \<Longrightarrow> ulp_exp x \<le> ulp_exp y"
  unfolding ulp_exp_def by (intro max.mono diff_right_mono floor_mono) auto

lemma powr_int_ratio: "b \<le> a \<Longrightarrow> (2 :: real) powr of_int a / 2 powr of_int b = of_int (2 ^ nat (a - b))"
proof -
  assume "b \<le> a"
  have "(2 :: real) powr of_int a / 2 powr of_int b = 2 powr (of_int a - of_int b)"
    by (simp add: powr_diff)
  also have "\<dots> = 2 powr (real (nat (a - b)))" using \<open>b \<le> a\<close> by (simp add: of_nat_nat)
  also have "\<dots> = of_int (2 ^ nat (a - b))" by (simp only: powr_realpow) simp
  finally show ?thesis .
qed

section \<open>rnd64 meets the contract\<close>

lemma rnd64_zero [simp]: "rnd64 0 = 0"
  by (simp add: rnd64_def)

lemma rnd64_minus: "rnd64 (- x) = - rnd64 x"
  by (simp add: rnd64_def round_even_minus)

lemma rnd64_scaled:
  "x \<noteq> 0 \<Longrightarrow> rnd64 x = of_int (round_even (x / 2 powr of_int (ulp_exp x))) * 2 powr of_int (ulp_exp x)"
  by (simp add: rnd64_def)

lemma rnd64_nonneg: "0 \<le> x \<Longrightarrow> 0 \<le> rnd64 x"
proof (cases "x = 0")
  case False
  assume "0 \<le> x"
  then have "0 \<le> round_even (x / 2 powr of_int (ulp_exp x))"
    using round_even_mono [of 0 "x / 2 powr of_int (ulp_exp x)"] round_even_int [of 0] by simp
  with False show ?thesis by (simp add: rnd64_scaled)
qed simp

text \<open>A result that is an integer number of the smallest unit needed is returned unchanged.\<close>

lemma rnd64_multiple:
  assumes "x = of_int m * 2 powr of_int (ulp_exp x)"
  shows "rnd64 x = x"
proof (cases "x = 0")
  case False
  have "x / 2 powr of_int (ulp_exp x) = of_int m"
    by (subst assms) simp
  with False show ?thesis by (simp add: rnd64_scaled assms [symmetric])
qed simp

lemma rnd64_pow2_upper:
  assumes "0 < x" "x \<le> 2 powr of_int k" "ulp_exp x \<le> k"
  shows "rnd64 x \<le> 2 powr of_int k"
proof -
  let ?u = "(2 :: real) powr of_int (ulp_exp x)"
  have "x / ?u \<le> 2 powr of_int k / ?u" using assms(2) by (simp add: divide_right_mono)
  also have "\<dots> = of_int (2 ^ nat (k - ulp_exp x))" using assms(3) by (rule powr_int_ratio)
  finally have "round_even (x / ?u) \<le> 2 ^ nat (k - ulp_exp x)"
    using round_even_mono round_even_int by metis
  then have "of_int (round_even (x / ?u)) * ?u \<le> of_int (2 ^ nat (k - ulp_exp x)) * ?u"
    by (simp only: of_int_le_iff powr_int_pos mult_le_cancel_right_pos)
  also have "\<dots> = 2 powr of_int k"
    by (subst powr_int_ratio [OF assms(3), symmetric]) simp
  finally show ?thesis using assms(1) by (simp add: rnd64_scaled)
qed

lemma rnd64_pow2_lower:
  assumes "2 powr of_int k \<le> x" "ulp_exp x \<le> k"
  shows "2 powr of_int k \<le> rnd64 x"
proof -
  let ?u = "(2 :: real) powr of_int (ulp_exp x)"
  have x: "0 < x" using assms(1) powr_int_pos [of k] by linarith
  have "of_int (2 ^ nat (k - ulp_exp x)) = 2 powr of_int k / ?u"
    using powr_int_ratio [OF assms(2)] by simp
  also have "\<dots> \<le> x / ?u" using assms(1) by (simp add: divide_right_mono)
  finally have "2 ^ nat (k - ulp_exp x) \<le> round_even (x / ?u)"
    using round_even_mono round_even_int by metis
  then have "of_int (2 ^ nat (k - ulp_exp x)) * ?u \<le> of_int (round_even (x / ?u)) * ?u"
    by (simp only: of_int_le_iff powr_int_pos mult_le_cancel_right_pos)
  moreover have "of_int (2 ^ nat (k - ulp_exp x)) * ?u = 2 powr of_int k"
    by (subst powr_int_ratio [OF assms(2), symmetric]) simp
  moreover have "rnd64 x = of_int (round_even (x / ?u)) * ?u" using x by (simp add: rnd64_scaled)
  ultimately show ?thesis by argo
qed

lemma rnd64_mono_pos:
  assumes "0 < x" "x \<le> y"
  shows "rnd64 x \<le> rnd64 y"
proof (cases "ulp_exp x = ulp_exp y")
  case True
  have "x / 2 powr of_int (ulp_exp y) \<le> y / 2 powr of_int (ulp_exp y)"
    using assms(2) by (simp add: divide_right_mono)
  then have "round_even (x / 2 powr of_int (ulp_exp y)) \<le> round_even (y / 2 powr of_int (ulp_exp y))"
    by (rule round_even_mono)
  with assms show ?thesis by (simp add: rnd64_scaled True)
next
  case False
  let ?k = "\<lfloor>log 2 y\<rfloor>"
  have lt: "ulp_exp x < ulp_exp y" using False ulp_exp_mono [OF assms] by simp
  then have k: "ulp_exp y = ?k - 52" "\<lfloor>log 2 x\<rfloor> < ?k"
    using assms by (auto simp: ulp_exp_def max_def split: if_splits)
  have y: "2 powr of_int ?k \<le> y" using assms by (intro log_floor_bounds) simp
  have "x < 2 powr (of_int \<lfloor>log 2 x\<rfloor> + 1)" by (rule log_floor_bounds) fact
  also have "\<dots> \<le> 2 powr of_int ?k" using k(2) by (intro powr_mono) auto
  finally have "rnd64 x \<le> 2 powr of_int ?k"
    using assms(1) lt k(1) by (intro rnd64_pow2_upper) auto
  also have "\<dots> \<le> rnd64 y" using y k(1) by (intro rnd64_pow2_lower) auto
  finally show ?thesis .
qed

lemma rnd64_mono:
  assumes "x \<le> y"
  shows "rnd64 x \<le> rnd64 y"
proof (cases "0 < x")
  case True
  then show ?thesis using assms by (rule rnd64_mono_pos)
next
  case False
  show ?thesis
  proof (cases "y < 0")
    case True
    then have "rnd64 (- y) \<le> rnd64 (- x)" using assms by (intro rnd64_mono_pos) auto
    then show ?thesis by (simp add: rnd64_minus)
  next
    case nonneg: False
    have "0 \<le> rnd64 (- x)" using False by (intro rnd64_nonneg) simp
    then have "rnd64 x \<le> 0" by (simp add: rnd64_minus)
    also have "0 \<le> rnd64 y" using nonneg by (intro rnd64_nonneg) simp
    finally show ?thesis .
  qed
qed

text \<open>
  Exactness: \<open>m * 2^e\<close> with a 53-bit significand \<open>m\<close> is a double.
\<close>

lemma rnd64_dyadic_pos:
  assumes "0 < m" "m \<le> 2 ^ 53" "- 1074 \<le> e"
  shows "rnd64 (of_int m * 2 powr of_int e) = of_int m * 2 powr of_int e"
proof -
  let ?x = "of_int m * 2 powr of_int e :: real"
  have x: "0 < ?x" using assms(1) by simp
  have log: "log 2 ?x = log 2 (of_int m) + of_int e" using assms(1) by (simp add: log_mult)
  show ?thesis
  proof (cases "m = 2 ^ 53")
    case True
    then have "log 2 (of_int m :: real) = log 2 (2 powr 53)" by (simp add: powr_numeral)
    then have "log 2 (of_int m :: real) = 53" by (simp only: log_powr_cancel)
    then have "ulp_exp ?x = max (e + 1) (- 1074)"
      using x by (simp add: ulp_exp_def log)
    then have u: "ulp_exp ?x = e + 1" using assms(3) by simp
    have "?x = of_int (2 ^ 52) * 2 powr of_int (e + 1)"
      by (simp add: True powr_add)
    then show ?thesis using rnd64_multiple [of ?x "2 ^ 52"] u by simp
  next
    case False
    then have "(of_int m :: real) < of_int (2 ^ 53)" using assms(2) by (simp only: of_int_less_iff)
    then have "log 2 (of_int m :: real) < log 2 (2 powr 53)"
      using assms(1) by (intro log_less) (auto simp: powr_numeral)
    then have lt: "log 2 (of_int m :: real) < 53" by (simp only: log_powr_cancel)
    have "\<lfloor>log 2 (of_int m :: real)\<rfloor> < 53"
      using lt by (simp add: floor_less_iff)
    then have "ulp_exp ?x \<le> e" using x assms(3) by (simp add: ulp_exp_def log)
    then have "(2 :: real) powr of_int e = of_int (2 ^ nat (e - ulp_exp ?x)) * 2 powr of_int (ulp_exp ?x)"
      by (subst powr_int_ratio [symmetric]) simp_all
    then have "?x = of_int (m * 2 ^ nat (e - ulp_exp ?x)) * 2 powr of_int (ulp_exp ?x)" by simp
    then show ?thesis by (rule rnd64_multiple)
  qed
qed

lemma rnd64_dyadic:
  assumes "\<bar>m\<bar> \<le> 2 ^ 53" "- 1074 \<le> e"
  shows "rnd64 (of_int m * 2 powr of_int e) = of_int m * 2 powr of_int e"
proof -
  consider "m = 0" | "0 < m" | "0 < - m" by linarith
  then show ?thesis
  proof cases
    case 3
    have "rnd64 (of_int (- m) * 2 powr of_int e) = of_int (- m) * 2 powr of_int e"
      by (rule rnd64_dyadic_pos) (use 3 assms in auto)
    then show ?thesis using rnd64_minus [of "of_int m * 2 powr of_int e"] by simp
  qed (use assms rnd64_dyadic_pos in auto)
qed

interpretation ieee: fp_rounding rnd64
proof unfold_locales
  fix n :: int
  assume "\<bar>n\<bar> \<le> 2 ^ 53"
  from rnd64_dyadic [OF this, of 0] show "rnd64 (of_int n) = of_int n" by simp
qed (simp_all add: rnd64_mono rnd64_minus)

section \<open>Doubles\<close>

datatype f64 = Fin real | PInf | MInf | NaN

definition fl :: "real \<Rightarrow> f64" where
  "fl x = (let r = rnd64 x in
     if r \<ge> 2 ^ 1024 then PInf else if r \<le> - (2 ^ 1024) then MInf else Fin r)"

text \<open>The conversion of an integer to \<^verbatim>\<open>double\<close>.\<close>

definition f64_of_int :: "int \<Rightarrow> f64" where
  "f64_of_int n = fl (of_int n)"

definition signed_inf :: "real \<Rightarrow> f64" where
  "signed_inf s = (if 0 < s then PInf else if s < 0 then MInf else NaN)"

primrec fsgn :: "f64 \<Rightarrow> real" where
  "fsgn (Fin x) = sgn x"
| "fsgn PInf = 1"
| "fsgn MInf = - 1"
| "fsgn NaN = 0"

fun fadd :: "f64 \<Rightarrow> f64 \<Rightarrow> f64" where
  "fadd (Fin x) (Fin y) = fl (x + y)"
| "fadd NaN b = NaN"
| "fadd a NaN = NaN"
| "fadd PInf MInf = NaN"
| "fadd MInf PInf = NaN"
| "fadd PInf b = PInf"
| "fadd MInf b = MInf"
| "fadd a PInf = PInf"
| "fadd a MInf = MInf"

primrec fneg :: "f64 \<Rightarrow> f64" where
  "fneg (Fin x) = Fin (- x)"
| "fneg PInf = MInf"
| "fneg MInf = PInf"
| "fneg NaN = NaN"

fun fmul :: "f64 \<Rightarrow> f64 \<Rightarrow> f64" where
  "fmul (Fin x) (Fin y) = fl (x * y)"
| "fmul NaN b = NaN"
| "fmul a NaN = NaN"
| "fmul a b = signed_inf (fsgn a * fsgn b)"

fun fdiv :: "f64 \<Rightarrow> f64 \<Rightarrow> f64" where
  "fdiv (Fin x) (Fin y) = (if y = 0 then signed_inf (sgn x) else fl (x / y))"
| "fdiv NaN b = NaN"
| "fdiv a NaN = NaN"
| "fdiv (Fin x) b = Fin 0"
| "fdiv a (Fin y) = signed_inf (fsgn a * (if y < 0 then - 1 else 1))"
| "fdiv a b = NaN"

fun flt :: "f64 \<Rightarrow> f64 \<Rightarrow> bool" where
  "flt (Fin x) (Fin y) = (x < y)"
| "flt NaN b = False"
| "flt a NaN = False"
| "flt a MInf = False"
| "flt MInf b = True"
| "flt PInf b = False"
| "flt a PInf = True"

definition feq :: "f64 \<Rightarrow> f64 \<Rightarrow> bool" where
  "feq a b \<longleftrightarrow> a \<noteq> NaN \<and> a = b"

fun fsqrt :: "f64 \<Rightarrow> f64" where
  "fsqrt (Fin x) = (if x < 0 then NaN else fl (sqrt x))"
| "fsqrt PInf = PInf"
| "fsqrt a = NaN"

text \<open>The operators, so that the models read like the code. \<open>\<le>\<close> is the IEEE comparison too.\<close>

instantiation f64 :: "{zero, one, plus, minus, uminus, times, inverse, ord}"
begin

definition zero_f64 :: f64 where "0 = Fin 0"
definition one_f64 :: f64 where "1 = Fin 1"
definition plus_f64 :: "f64 \<Rightarrow> f64 \<Rightarrow> f64" where "a + b = fadd a b"
definition uminus_f64 :: "f64 \<Rightarrow> f64" where "- a = fneg a"
definition minus_f64 :: "f64 \<Rightarrow> f64 \<Rightarrow> f64" where "a - b = fadd a (fneg b)"
definition times_f64 :: "f64 \<Rightarrow> f64 \<Rightarrow> f64" where "a * b = fmul a b"
definition divide_f64 :: "f64 \<Rightarrow> f64 \<Rightarrow> f64" where "a div b = fdiv a b"
definition inverse_f64 :: "f64 \<Rightarrow> f64" where "inverse a = fdiv (Fin 1) a"
definition less_f64 :: "f64 \<Rightarrow> f64 \<Rightarrow> bool" where "a < b \<longleftrightarrow> flt a b"
definition less_eq_f64 :: "f64 \<Rightarrow> f64 \<Rightarrow> bool" where "a \<le> b \<longleftrightarrow> flt a b \<or> feq a b"

instance ..

end

text \<open>\<^verbatim>\<open>std::max\<close>: the first argument unless it is less than the second.\<close>

definition fmax :: "f64 \<Rightarrow> f64 \<Rightarrow> f64" where
  "fmax a b = (if a < b then b else a)"

lemmas f64_ops = zero_f64_def one_f64_def plus_f64_def uminus_f64_def minus_f64_def
  times_f64_def divide_f64_def less_f64_def less_eq_f64_def

section \<open>Facts on doubles\<close>

lemma rnd64_small: "\<bar>x\<bar> \<le> 2 ^ 53 \<Longrightarrow> \<bar>rnd64 x\<bar> \<le> 2 ^ 53"
  using ieee.rnd_le_exact [of x "2 ^ 53"] ieee.rnd_ge_exact [of "- (2 ^ 53)" x]
    ieee.rnd_int [of "2 ^ 53"] ieee.rnd_int [of "- (2 ^ 53)"]
  by (simp add: abs_le_iff)

lemma fl_small: "\<bar>x\<bar> \<le> 2 ^ 53 \<Longrightarrow> fl x = Fin (rnd64 x)"
proof -
  assume "\<bar>x\<bar> \<le> 2 ^ 53"
  then have "\<bar>rnd64 x\<bar> \<le> 2 ^ 53" by (rule rnd64_small)
  moreover have "(2 :: real) ^ 53 < 2 ^ 1024" by (rule power_strict_increasing) auto
  ultimately have "\<not> rnd64 x \<ge> 2 ^ 1024" "\<not> rnd64 x \<le> - (2 ^ 1024)" by linarith+
  then show ?thesis by (simp only: fl_def Let_def if_False)
qed

lemma fl_int: "\<bar>n\<bar> \<le> 2 ^ 53 \<Longrightarrow> fl (of_int n) = Fin (of_int n)"
proof -
  assume n: "\<bar>n\<bar> \<le> 2 ^ 53"
  then have "\<bar>of_int n :: real\<bar> \<le> 2 ^ 53"
    by (metis of_int_abs of_int_le_iff of_int_numeral of_int_power)
  with ieee.rnd_int [OF n] show ?thesis by (simp add: fl_small)
qed

lemma fl_consts [simp]: "fl 0 = Fin 0" "fl 1 = Fin 1" "fl (- 1) = Fin (- 1)"
  using fl_int [of 0] fl_int [of 1] fl_int [of "- 1"] by simp_all

lemma fl_numeral [simp]:
  "numeral k \<le> (2 ^ 53 :: int) \<Longrightarrow> fl (numeral k) = Fin (numeral k)"
  "numeral k \<le> (2 ^ 53 :: int) \<Longrightarrow> fl (- numeral k) = Fin (- numeral k)"
  using fl_int [of "numeral k"] fl_int [of "- numeral k"] by simp_all

lemma fl_dyadic:
  assumes "\<bar>m\<bar> \<le> 2 ^ 53" "k \<le> 1074"
  shows "fl (of_int m / 2 ^ k) = Fin (of_int m / 2 ^ k)"
proof -
  have eq: "(of_int m / 2 ^ k :: real) = of_int m * 2 powr of_int (- int k)"
    by (simp add: powr_minus powr_realpow field_simps)
  have r: "rnd64 (of_int m / 2 ^ k) = of_int m / 2 ^ k"
    unfolding eq using assms by (intro rnd64_dyadic) auto
  have "\<bar>of_int m :: real\<bar> \<le> 2 ^ 53"
    using assms(1) by (metis of_int_abs of_int_le_iff of_int_numeral of_int_power)
  moreover have "\<bar>of_int m / 2 ^ k :: real\<bar> \<le> \<bar>of_int m\<bar>"
    using mult_left_mono [of 1 "2 ^ k" "\<bar>of_int m :: real\<bar>"]
    by (simp add: abs_divide divide_le_eq)
  ultimately show ?thesis using fl_small [of "of_int m / 2 ^ k"] r by simp
qed

subsection \<open>Non-negative doubles\<close>

definition fnonneg :: "f64 \<Rightarrow> bool" where
  "fnonneg a \<longleftrightarrow> (case a of Fin x \<Rightarrow> 0 \<le> x | PInf \<Rightarrow> True | _ \<Rightarrow> False)"

lemma fnonneg_simps [simp]:
  "fnonneg (Fin x) \<longleftrightarrow> 0 \<le> x" "fnonneg PInf" "\<not> fnonneg MInf" "\<not> fnonneg NaN"
  by (simp_all add: fnonneg_def)

lemma fnonneg_cases:
  assumes "fnonneg a"
  obtains (Fin) x where "a = Fin x" "0 \<le> x" | (Inf) "a = PInf"
  using assms by (cases a) auto

lemma fl_nonneg: "0 \<le> x \<Longrightarrow> fnonneg (fl x)"
proof -
  assume "0 \<le> x"
  then have "0 \<le> rnd64 x" by (rule rnd64_nonneg)
  moreover have "(0 :: real) < 2 ^ 1024" by simp
  ultimately have "\<not> rnd64 x \<le> - (2 ^ 1024)" by linarith
  with \<open>0 \<le> rnd64 x\<close> show ?thesis by (simp only: fl_def Let_def if_False) simp
qed

lemma fnonneg_zero [simp]: "fnonneg 0"
  by (simp add: f64_ops)

lemma fnonneg_add: "fnonneg a \<Longrightarrow> fnonneg b \<Longrightarrow> fnonneg (a + b)"
  by (erule fnonneg_cases; erule fnonneg_cases) (simp_all add: f64_ops fl_nonneg)

lemma fnonneg_mul:
  "fnonneg a \<Longrightarrow> 0 < x \<Longrightarrow> fnonneg (a * Fin x)"
  by (erule fnonneg_cases) (simp_all add: f64_ops fl_nonneg signed_inf_def)

lemma fnonneg_div: "fnonneg a \<Longrightarrow> 0 < x \<Longrightarrow> fnonneg (a / Fin x)"
  by (erule fnonneg_cases) (simp_all add: f64_ops fl_nonneg signed_inf_def)

lemma fnonneg_max: "fnonneg a \<Longrightarrow> fnonneg (fmax a b)"
  by (cases b; erule fnonneg_cases) (auto simp: fmax_def f64_ops)


subsection \<open>Representable doubles\<close>

lemma rnd64_idem: "rnd64 (rnd64 x) = rnd64 x"
proof (cases "x = 0")
  case False
  let ?e = "ulp_exp x"
  let ?u = "(2 :: real) powr of_int ?e"
  let ?m = "round_even (x / ?u)"
  have "\<bar>x\<bar> < 2 powr of_int (\<lfloor>log 2 \<bar>x\<bar>\<rfloor> + 1)"
    using log_floor_bounds [of "\<bar>x\<bar>"] False by simp
  also have "\<dots> \<le> 2 powr of_int (?e + 53)"
    by (intro powr_mono) (auto simp: ulp_exp_def)
  also have "\<dots> = 2 ^ 53 * ?u" by (simp add: powr_add)
  finally have "\<bar>x / ?u\<bar> \<le> of_int (2 ^ 53)" by (simp add: abs_divide divide_le_eq)
  then have z: "x / ?u \<le> of_int (2 ^ 53)" "of_int (- (2 ^ 53)) \<le> x / ?u"
    unfolding of_int_minus by linarith+
  have "round_even (x / ?u) \<le> 2 ^ 53" "- (2 ^ 53) \<le> round_even (x / ?u)"
    using round_even_mono [OF z(1)] round_even_mono [OF z(2)] unfolding round_even_int .
  then have "\<bar>?m\<bar> \<le> 2 ^ 53" by simp
  from rnd64_dyadic [OF this ulp_exp_ge] show ?thesis using False by (simp add: rnd64_scaled)
qed simp

definition double_ok :: "f64 \<Rightarrow> bool" where
  "double_ok a \<longleftrightarrow> (case a of Fin x \<Rightarrow> rnd64 x = x \<and> \<bar>x\<bar> < 2 ^ 1024 | _ \<Rightarrow> True)"

lemma double_ok_simps [simp]:
  "double_ok PInf" "double_ok MInf" "double_ok NaN"
  by (simp_all add: double_ok_def)

lemma double_ok_fl [simp]: "double_ok (fl x)"
proof -
  consider "rnd64 x \<ge> 2 ^ 1024" | "rnd64 x \<le> - (2 ^ 1024)" "\<not> rnd64 x \<ge> 2 ^ 1024"
    | "\<bar>rnd64 x\<bar> < 2 ^ 1024" by linarith
  then show ?thesis
    by cases (simp_all only: fl_def Let_def if_True if_False double_ok_simps double_ok_def f64.case
        rnd64_idem abs_less_iff not_le, auto simp: rnd64_idem)
qed

lemma double_ok_signed_inf [simp]: "double_ok (signed_inf x)"
  by (simp add: signed_inf_def)

lemma double_ok_zero [simp]: "double_ok 0" "double_ok (Fin 0)"
  by (simp_all add: f64_ops double_ok_def)

lemma double_ok_ops [simp]: "double_ok (a + b)" "double_ok (a * b)" "double_ok (a / b)"
proof -
  show "double_ok (a + b)" by (cases a; cases b) (simp_all add: f64_ops)
  show "double_ok (a * b)" by (cases a; cases b) (simp_all add: f64_ops)
  show "double_ok (a / b)" by (cases a; cases b) (simp_all add: f64_ops)
qed

text \<open>Rounding never crosses a representable double.\<close>

lemma fl_ge: "rnd64 r = r \<Longrightarrow> \<bar>r\<bar> < 2 ^ 1024 \<Longrightarrow> r \<le> x \<Longrightarrow> \<not> fl x < Fin r"
proof -
  assume r: "rnd64 r = r" "\<bar>r\<bar> < 2 ^ 1024" "r \<le> x"
  then have le: "r \<le> rnd64 x" using ieee.rnd_ge_exact by simp
  consider "rnd64 x \<ge> 2 ^ 1024" | "\<not> rnd64 x \<ge> 2 ^ 1024" "\<not> rnd64 x \<le> - (2 ^ 1024)"
    using le r(2) by (auto simp: abs_less_iff)
  then show ?thesis
    by cases (simp_all only: fl_def Let_def if_True if_False, auto simp: f64_ops le not_less)
qed

lemma fl_uminus: "fl (- x) = - fl x"
  by (auto simp: fl_def rnd64_minus f64_ops Let_def)

lemma fneg_fneg [simp]: "- (- a) = (a :: f64)"
  by (cases a) (simp_all add: f64_ops)

text \<open>Non-negative or invalid.\<close>

definition fnn :: "f64 \<Rightarrow> bool" where
  "fnn a \<longleftrightarrow> fnonneg a \<or> a = NaN"

lemma fnn_simps [simp]: "fnn (Fin x) \<longleftrightarrow> 0 \<le> x" "fnn PInf" "\<not> fnn MInf" "fnn NaN" "fnn 0"
  by (auto simp: fnn_def)

lemma fnn_fl: "0 \<le> x \<Longrightarrow> fnn (fl x)"
  by (simp add: fnn_def fl_nonneg)

lemma fnn_add: "fnn a \<Longrightarrow> fnn b \<Longrightarrow> fnn (a + b)"
  by (cases a; cases b) (simp_all add: f64_ops fnn_fl)

lemma fnn_mul: "fnn a \<Longrightarrow> fnn b \<Longrightarrow> fnn (a * b)"
  by (cases a; cases b) (auto simp: f64_ops fnn_fl signed_inf_def sgn_if)

lemma fnn_square: "fnn (a * a)"
  by (cases a) (auto simp: f64_ops fnn_fl signed_inf_def)

lemma fnn_div: "fnn a \<Longrightarrow> fnn b \<Longrightarrow> fnn (a / b)"
  by (cases a; cases b) (auto simp: f64_ops fnn_fl signed_inf_def sgn_if)

lemma fnn_sqrt: "fnn a \<Longrightarrow> fnn (fsqrt a)"
  by (cases a) (simp_all add: fnn_fl)

lemma fadd_fnn_ge: "double_ok a \<Longrightarrow> fnn b \<Longrightarrow> \<not> a + b < a"
proof (cases a; cases b)
  fix x y assume "a = Fin x" "b = Fin y" "double_ok a" "fnn b"
  then show "\<not> a + b < a"
    using fl_ge [of x "x + y"] by (auto simp: f64_ops double_ok_def)
qed (auto simp: f64_ops)

lemma fsub_fnn_le: "double_ok a \<Longrightarrow> fnn b \<Longrightarrow> \<not> a < a - b"
proof (cases a; cases b)
  fix x y assume ab: "a = Fin x" "b = Fin y" "double_ok a" "fnn b"
  then have "\<not> fl (y - x) < Fin (- x)"
    using fl_ge [of "- x" "y - x"] by (auto simp: double_ok_def rnd64_minus)
  moreover have "fl (x - y) = - fl (y - x)" using fl_uminus [of "y - x"] by simp
  ultimately show "\<not> a < a - b"
    using ab by (cases "fl (y - x)") (auto simp: f64_ops)
qed (auto simp: f64_ops)

end
