(* ===== verification/Indicators.thy ===== *)
theory Indicators
  imports Float64
begin

text \<open>
  \<^verbatim>\<open>include/tinvest/algo/indicators.hpp\<close>: the streaming indicators, on IEEE doubles. A deque is
  the list of its elements; the conversion of the \<^verbatim>\<open>int\<close> period to \<^verbatim>\<open>size_t\<close> is modular.

  The locale \<open>bounded_deque\<close> is the contract of the indicators that keep a trailing window: a
  push appends and, beyond the period, drops the oldest element; it follows that the window is
  always the last elements pushed. Sma, Bollinger and Donchian (highs and lows) interpret it.
\<close>

definition period_size :: "int \<Rightarrow> nat" where
  "period_size p = nat (p mod 2 ^ 64)"

definition size_double :: "'a list \<Rightarrow> f64" where
  "size_double w = f64_of_int (int (length w))"

section \<open>Sma\<close>

record sma =
  sma_period :: int
  sma_window :: "f64 list"
  sma_sum :: f64

definition mk_sma :: "int \<Rightarrow> sma" where
  "mk_sma period = \<lparr>sma_period = period, sma_window = [], sma_sum = 0\<rparr>"

definition sma_push :: "f64 \<Rightarrow> sma \<Rightarrow> sma" where
  "sma_push v s =
     (let w = sma_window s @ [v]; sum = sma_sum s + v in
      if length w > period_size (sma_period s)
      then s\<lparr>sma_sum := sum - hd w, sma_window := tl w\<rparr>
      else s\<lparr>sma_sum := sum, sma_window := w\<rparr>)"

definition sma_ready :: "sma \<Rightarrow> bool" where
  "sma_ready s \<longleftrightarrow> length (sma_window s) = period_size (sma_period s)"

definition sma_value :: "sma \<Rightarrow> f64" where
  "sma_value s = sma_sum s / size_double (sma_window s)"

section \<open>Ema\<close>

record ema =
  ema_period :: int
  ema_k :: f64
  ema_seed :: sma
  ema_is_ready :: bool
  ema_current :: f64

definition mk_ema :: "int \<Rightarrow> ema" where
  "mk_ema period = \<lparr>ema_period = period, ema_k = Fin 2 / (f64_of_int period + 1),
     ema_seed = mk_sma period, ema_is_ready = False, ema_current = 0\<rparr>"

definition ema_push :: "f64 \<Rightarrow> ema \<Rightarrow> ema" where
  "ema_push v e =
     (if \<not> ema_is_ready e
      then (let seed = sma_push v (ema_seed e) in
            if sma_ready seed
            then e\<lparr>ema_seed := seed, ema_current := sma_value seed, ema_is_ready := True\<rparr>
            else e\<lparr>ema_seed := seed\<rparr>)
      else e\<lparr>ema_current := v * ema_k e + ema_current e * (1 - ema_k e)\<rparr>)"

definition ema_ready :: "ema \<Rightarrow> bool" where
  "ema_ready e \<longleftrightarrow> ema_is_ready e"

definition ema_value :: "ema \<Rightarrow> f64" where
  "ema_value e = ema_current e"

section \<open>Rsi\<close>

record rsi =
  rsi_period :: int
  rsi_prev :: f64
  rsi_has_prev :: bool
  rsi_warmup :: int
  rsi_gain_sum :: f64
  rsi_loss_sum :: f64
  rsi_avg_gain :: f64
  rsi_avg_loss :: f64
  rsi_is_ready :: bool

definition mk_rsi :: "int \<Rightarrow> rsi" where
  "mk_rsi period = \<lparr>rsi_period = period, rsi_prev = 0, rsi_has_prev = False, rsi_warmup = 0,
     rsi_gain_sum = 0, rsi_loss_sum = 0, rsi_avg_gain = 0, rsi_avg_loss = 0, rsi_is_ready = False\<rparr>"

definition gain_of :: "f64 \<Rightarrow> f64" where
  "gain_of delta = (if 0 < delta then delta else 0)"

definition loss_of :: "f64 \<Rightarrow> f64" where
  "loss_of delta = (if delta < 0 then - delta else 0)"

text \<open>The integers \<^verbatim>\<open>period_\<close> and \<^verbatim>\<open>period_ - 1\<close> are converted to double in the divisions and products.\<close>

definition rsi_push :: "f64 \<Rightarrow> rsi \<Rightarrow> rsi" where
  "rsi_push close r =
     (if \<not> rsi_has_prev r then r\<lparr>rsi_prev := close, rsi_has_prev := True\<rparr>
      else
        let delta = close - rsi_prev r;
            gain = gain_of delta;
            loss = loss_of delta;
            n = f64_of_int (rsi_period r);
            n1 = f64_of_int (rsi_period r - 1);
            r1 = r\<lparr>rsi_prev := close\<rparr>
        in if rsi_warmup r < rsi_period r
           then (let gs = rsi_gain_sum r + gain; ls = rsi_loss_sum r + loss;
                     r2 = r1\<lparr>rsi_gain_sum := gs, rsi_loss_sum := ls, rsi_warmup := rsi_warmup r + 1\<rparr>
                 in if rsi_warmup r + 1 = rsi_period r
                    then r2\<lparr>rsi_avg_gain := gs / n, rsi_avg_loss := ls / n, rsi_is_ready := True\<rparr>
                    else r2)
           else r1\<lparr>rsi_avg_gain := (rsi_avg_gain r * n1 + gain) / n,
                   rsi_avg_loss := (rsi_avg_loss r * n1 + loss) / n\<rparr>)"

definition rsi_ready :: "rsi \<Rightarrow> bool" where
  "rsi_ready r \<longleftrightarrow> rsi_is_ready r"

definition rsi_value :: "rsi \<Rightarrow> f64" where
  "rsi_value r =
     (if feq (rsi_avg_loss r) 0 then Fin 100
      else (let rs = rsi_avg_gain r / rsi_avg_loss r in Fin 100 - Fin 100 / (1 + rs)))"

section \<open>Macd\<close>

record macd =
  macd_fast :: ema
  macd_slow :: ema
  macd_signal_line :: ema

definition mk_macd :: "int \<Rightarrow> int \<Rightarrow> int \<Rightarrow> macd" where
  "mk_macd fast slow signal =
     \<lparr>macd_fast = mk_ema fast, macd_slow = mk_ema slow, macd_signal_line = mk_ema signal\<rparr>"

definition macd_push :: "f64 \<Rightarrow> macd \<Rightarrow> macd" where
  "macd_push close m =
     (let fast = ema_push close (macd_fast m); slow = ema_push close (macd_slow m) in
      m\<lparr>macd_fast := fast, macd_slow := slow,
        macd_signal_line :=
          (if ema_ready fast \<and> ema_ready slow
           then ema_push (ema_value fast - ema_value slow) (macd_signal_line m)
           else macd_signal_line m)\<rparr>)"

definition macd_ready :: "macd \<Rightarrow> bool" where
  "macd_ready m \<longleftrightarrow> ema_ready (macd_signal_line m)"

definition macd_value :: "macd \<Rightarrow> f64" where
  "macd_value m = ema_value (macd_fast m) - ema_value (macd_slow m)"

definition macd_signal :: "macd \<Rightarrow> f64" where
  "macd_signal m = ema_value (macd_signal_line m)"

definition macd_histogram :: "macd \<Rightarrow> f64" where
  "macd_histogram m = macd_value m - macd_signal m"

section \<open>Bollinger\<close>

record bollinger =
  bb_period :: int
  bb_mult :: f64
  bb_window :: "f64 list"

definition mk_bollinger :: "int \<Rightarrow> f64 \<Rightarrow> bollinger" where
  "mk_bollinger period mult = \<lparr>bb_period = period, bb_mult = mult, bb_window = []\<rparr>"

definition bb_push :: "f64 \<Rightarrow> bollinger \<Rightarrow> bollinger" where
  "bb_push v b =
     (let w = bb_window b @ [v] in
      b\<lparr>bb_window := (if length w > period_size (bb_period b) then tl w else w)\<rparr>)"

definition bb_ready :: "bollinger \<Rightarrow> bool" where
  "bb_ready b \<longleftrightarrow> length (bb_window b) = period_size (bb_period b)"

definition bb_middle :: "bollinger \<Rightarrow> f64" where
  "bb_middle b = foldl (\<lambda>s v. s + v) 0 (bb_window b) / size_double (bb_window b)"

definition bb_stddev :: "bollinger \<Rightarrow> f64" where
  "bb_stddev b =
     (let m = bb_middle b in
      fsqrt (foldl (\<lambda>acc v. acc + (v - m) * (v - m)) 0 (bb_window b) / size_double (bb_window b)))"

definition bb_upper :: "bollinger \<Rightarrow> f64" where
  "bb_upper b = bb_middle b + bb_mult b * bb_stddev b"

definition bb_lower :: "bollinger \<Rightarrow> f64" where
  "bb_lower b = bb_middle b - bb_mult b * bb_stddev b"

section \<open>Donchian\<close>

record donchian =
  dc_period :: int
  dc_highs :: "f64 list"
  dc_lows :: "f64 list"

definition mk_donchian :: "int \<Rightarrow> donchian" where
  "mk_donchian period = \<lparr>dc_period = period, dc_highs = [], dc_lows = []\<rparr>"

definition dc_push :: "f64 \<times> f64 \<Rightarrow> donchian \<Rightarrow> donchian" where
  "dc_push bar d =
     (let hs = dc_highs d @ [fst bar]; ls = dc_lows d @ [snd bar] in
      if length hs > period_size (dc_period d)
      then d\<lparr>dc_highs := tl hs, dc_lows := tl ls\<rparr>
      else d\<lparr>dc_highs := hs, dc_lows := ls\<rparr>)"

definition dc_ready :: "donchian \<Rightarrow> bool" where
  "dc_ready d \<longleftrightarrow> length (dc_highs d) = period_size (dc_period d)"

text \<open>
  \<^verbatim>\<open>*std::max_element\<close> and \<^verbatim>\<open>*std::min_element\<close>: the running extremum changes on a strictly
  better element. On an empty range the dereference is out of range.
\<close>

definition max_element :: "f64 list \<Rightarrow> f64 cpp" where
  "max_element w = (case w of [] \<Rightarrow> Inl OutOfRange | x # xs \<Rightarrow> Inr (foldl (\<lambda>m v. if m < v then v else m) x xs))"

definition min_element :: "f64 list \<Rightarrow> f64 cpp" where
  "min_element w = (case w of [] \<Rightarrow> Inl OutOfRange | x # xs \<Rightarrow> Inr (foldl (\<lambda>m v. if v < m then v else m) x xs))"

definition dc_upper :: "donchian \<Rightarrow> f64 cpp" where
  "dc_upper d = max_element (dc_highs d)"

definition dc_lower :: "donchian \<Rightarrow> f64 cpp" where
  "dc_lower d = min_element (dc_lows d)"

section \<open>Trailing windows\<close>

locale bounded_deque =
  fixes good :: "'s \<Rightarrow> bool"
    and put :: "'i \<Rightarrow> 's \<Rightarrow> 's"
    and win :: "'s \<Rightarrow> 'v list"
    and item :: "'i \<Rightarrow> 'v"
    and cap :: "'s \<Rightarrow> nat"
  assumes good_put: "good s \<Longrightarrow> good (put i s)"
    and cap_put: "cap (put i s) = cap s"
    and win_put: "good s \<Longrightarrow> win (put i s) =
      (if cap s < length (win s @ [item i]) then tl (win s @ [item i]) else win s @ [item i])"
begin

lemma window_is_tail:
  assumes "good s" "win s = []"
  shows "win (fold put is s) = last_n (cap s) (map item is) \<and> cap (fold put is s) = cap s
    \<and> good (fold put is s)"
proof (induction "is" rule: rev_induct)
  case Nil
  then show ?case using assms by simp
next
  case (snoc i "is")
  then show ?case using win_put [of "fold put is s" i] by (simp add: last_n_snoc cap_put good_put)
qed

lemma window_full:
  assumes "good s" "win s = []"
  shows "length (win (fold put is s)) = cap (fold put is s) \<longleftrightarrow> cap s \<le> length is"
  using window_is_tail [OF assms] by auto

end

interpretation sma_win: bounded_deque "\<lambda>_. True" sma_push sma_window "\<lambda>v. v" "\<lambda>s. period_size (sma_period s)"
  by unfold_locales (simp_all add: sma_push_def Let_def)

interpretation bb_win: bounded_deque "\<lambda>_. True" bb_push bb_window "\<lambda>v. v" "\<lambda>b. period_size (bb_period b)"
  by unfold_locales (simp_all add: bb_push_def Let_def)

interpretation dc_high: bounded_deque "\<lambda>_. True" dc_push dc_highs fst "\<lambda>d. period_size (dc_period d)"
  by unfold_locales (simp_all add: dc_push_def Let_def)

interpretation dc_low: bounded_deque "\<lambda>d. length (dc_highs d) = length (dc_lows d)" dc_push dc_lows snd
    "\<lambda>d. period_size (dc_period d)"
  by unfold_locales (simp_all add: dc_push_def Let_def)

lemma period_size_pos: "0 \<le> p \<Longrightarrow> p < 2 ^ 64 \<Longrightarrow> period_size p = nat p"
  by (simp add: period_size_def)

lemma fits32_period: "fits 32 p \<Longrightarrow> 0 < p \<Longrightarrow> period_size p = nat p"
  by (rule period_size_pos) (simp_all add: fits32_iff)


section \<open>When the indicators are ready\<close>

lemma sma_window_tail:
  "sma_window (fold sma_push xs (mk_sma p)) = last_n (period_size p) xs"
  "sma_period (fold sma_push xs (mk_sma p)) = p"
proof -
  show "sma_window (fold sma_push xs (mk_sma p)) = last_n (period_size p) xs"
    using sma_win.window_is_tail [of "mk_sma p" xs] by (simp add: mk_sma_def)
  show "sma_period (fold sma_push xs (mk_sma p)) = p"
    by (induction xs rule: rev_induct) (simp_all add: mk_sma_def sma_push_def Let_def)
qed

lemma sma_ready_iff: "sma_ready (fold sma_push xs (mk_sma p)) \<longleftrightarrow> period_size p \<le> length xs"
  by (auto simp: sma_ready_def sma_window_tail)

lemma ema_ready_iff:
  assumes "0 < period_size p"
  shows "(ema_is_ready (fold ema_push xs (mk_ema p)) \<longleftrightarrow> period_size p \<le> length xs)
    \<and> (\<not> ema_is_ready (fold ema_push xs (mk_ema p)) \<longrightarrow>
         ema_seed (fold ema_push xs (mk_ema p)) = fold sma_push xs (mk_sma p))"
proof (induction xs rule: rev_induct)
  case Nil
  then show ?case using assms by (simp add: mk_ema_def)
next
  case (snoc x xs)
  show ?case
  proof (cases "ema_is_ready (fold ema_push xs (mk_ema p))")
    case True
    with snoc show ?thesis by (simp add: ema_push_def [of x "fold ema_push xs (mk_ema p)"])
  next
    case False
    with snoc have seed: "ema_seed (fold ema_push xs (mk_ema p)) = fold sma_push xs (mk_sma p)"
      "length xs < period_size p" by simp_all
    have "sma_ready (sma_push x (fold sma_push xs (mk_sma p))) \<longleftrightarrow> period_size p \<le> Suc (length xs)"
      using sma_ready_iff [of "xs @ [x]" p] by simp
    with False seed show ?thesis
      by (auto simp: ema_push_def [of x "fold ema_push xs (mk_ema p)"] Let_def)
  qed
qed

lemma rsi_push_view:
  "rsi_has_prev (rsi_push x r)"
  "rsi_period (rsi_push x r) = rsi_period r"
  "rsi_warmup (rsi_push x r) =
     (if rsi_has_prev r \<and> rsi_warmup r < rsi_period r then rsi_warmup r + 1 else rsi_warmup r)"
  "rsi_is_ready (rsi_push x r) \<longleftrightarrow>
     rsi_is_ready r \<or> (rsi_has_prev r \<and> rsi_warmup r < rsi_period r \<and> rsi_warmup r + 1 = rsi_period r)"
  by (simp_all add: rsi_push_def Let_def)

lemma mk_rsi_view [simp]:
  "\<not> rsi_has_prev (mk_rsi p)" "rsi_period (mk_rsi p) = p" "rsi_warmup (mk_rsi p) = 0"
  "\<not> rsi_is_ready (mk_rsi p)"
  by (simp_all add: mk_rsi_def)

lemma rsi_state:
  assumes "0 < p"
  shows "rsi_has_prev (fold rsi_push xs (mk_rsi p)) = (xs \<noteq> [])
    \<and> rsi_period (fold rsi_push xs (mk_rsi p)) = p
    \<and> rsi_warmup (fold rsi_push xs (mk_rsi p)) = min (int (length xs - 1)) p
    \<and> (rsi_is_ready (fold rsi_push xs (mk_rsi p)) \<longleftrightarrow> p < int (length xs))"
proof (induction xs rule: rev_induct)
  case Nil
  then show ?case using assms by simp
next
  case (snoc x xs)
  show ?case
  proof (cases "length xs")
    case 0
    then show ?thesis using assms by (simp add: rsi_push_view)
  next
    case (Suc k)
    then have "xs \<noteq> []" by auto
    with Suc snoc assms show ?thesis by (auto simp: rsi_push_view)
  qed
qed

lemma macd_parts:
  assumes "0 < period_size f" "0 < period_size s"
  shows "\<exists>ys. macd_signal_line (fold macd_push xs (mk_macd f s g)) = fold ema_push ys (mk_ema g)
    \<and> length ys = length xs + 1 - max (period_size f) (period_size s)
    \<and> macd_fast (fold macd_push xs (mk_macd f s g)) = fold ema_push xs (mk_ema f)
    \<and> macd_slow (fold macd_push xs (mk_macd f s g)) = fold ema_push xs (mk_ema s)"
proof (induction xs rule: rev_induct)
  case Nil
  then show ?case using assms by (intro exI [of _ "[]"]) (simp add: mk_macd_def)
next
  case (snoc x xs)
  then obtain ys where IH: "macd_signal_line (fold macd_push xs (mk_macd f s g)) = fold ema_push ys (mk_ema g)"
    "length ys = length xs + 1 - max (period_size f) (period_size s)"
    "macd_fast (fold macd_push xs (mk_macd f s g)) = fold ema_push xs (mk_ema f)"
    "macd_slow (fold macd_push xs (mk_macd f s g)) = fold ema_push xs (mk_ema s)" by blast
  let ?ef = "ema_push x (fold ema_push xs (mk_ema f))" and ?es = "ema_push x (fold ema_push xs (mk_ema s))"
  have r: "ema_ready ?ef \<and> ema_ready ?es \<longleftrightarrow> max (period_size f) (period_size s) \<le> Suc (length xs)"
    using ema_ready_iff [OF assms(1), of "xs @ [x]"] ema_ready_iff [OF assms(2), of "xs @ [x]"]
    by (simp add: ema_ready_def)
  let ?ys = "if ema_ready ?ef \<and> ema_ready ?es then ys @ [ema_value ?ef - ema_value ?es] else ys"
  have "length ?ys = Suc (length xs) + 1 - max (period_size f) (period_size s)" using r IH(2) by auto
  then show ?case by (intro exI [of _ ?ys]) (simp add: macd_push_def [of x "fold macd_push xs (mk_macd f s g)"] Let_def IH)
qed

lemma warmup_arith: "0 < (g :: nat) \<Longrightarrow> g \<le> n + 1 - m \<longleftrightarrow> m + g - 1 \<le> n"
  by linarith

text \<open>
  Each indicator becomes ready exactly when it has seen enough values and stays ready: Sma,
  Ema, Bollinger and Donchian after \<open>period\<close> values, Rsi after one more, Macd after
  \<open>max fast slow + signal - 1\<close>.
\<close>

lemma ready_counts:
  assumes "\<forall>p\<in>{p, f, s, g}. fits 32 p \<and> 0 < p"
  shows "(sma_ready (fold sma_push xs (mk_sma p)) \<longleftrightarrow> nat p \<le> length xs)
    \<and> (ema_ready (fold ema_push xs (mk_ema p)) \<longleftrightarrow> nat p \<le> length xs)
    \<and> (bb_ready (fold bb_push xs (mk_bollinger p mult)) \<longleftrightarrow> nat p \<le> length xs)
    \<and> (dc_ready (fold dc_push hls (mk_donchian p)) \<longleftrightarrow> nat p \<le> length hls)
    \<and> (rsi_ready (fold rsi_push xs (mk_rsi p)) \<longleftrightarrow> nat p + 1 \<le> length xs)
    \<and> (macd_ready (fold macd_push xs (mk_macd f s g)) \<longleftrightarrow>
         max (nat f) (nat s) + nat g - 1 \<le> length xs)"
proof -
  have ps: "period_size p = nat p" "period_size f = nat f" "period_size s = nat s" "period_size g = nat g"
    and pos: "0 < nat p" "0 < nat f" "0 < nat s" "0 < nat g" "0 < p"
    using assms fits32_period by auto
  obtain ys where ys: "macd_signal_line (fold macd_push xs (mk_macd f s g)) = fold ema_push ys (mk_ema g)"
    "length ys = length xs + 1 - max (nat f) (nat s)"
    using macd_parts [of f s xs g] ps pos by auto
  have macd: "macd_ready (fold macd_push xs (mk_macd f s g)) \<longleftrightarrow> max (nat f) (nat s) + nat g - 1 \<le> length xs"
    unfolding macd_ready_def ema_ready_def ys(1)
    using ema_ready_iff [of g ys] ps(4) pos(4) warmup_arith [OF pos(4), of "length xs" "max (nat f) (nat s)"] ys(2)
    by simp
  have bb: "bb_ready (fold bb_push xs (mk_bollinger p mult)) \<longleftrightarrow> nat p \<le> length xs"
    using bb_win.window_full [of "mk_bollinger p mult" xs] ps(1) by (simp add: bb_ready_def mk_bollinger_def)
  have dc: "dc_ready (fold dc_push hls (mk_donchian p)) \<longleftrightarrow> nat p \<le> length hls"
    using dc_high.window_full [of "mk_donchian p" hls] ps(1) by (simp add: dc_ready_def mk_donchian_def)
  have sma: "sma_ready (fold sma_push xs (mk_sma p)) \<longleftrightarrow> nat p \<le> length xs"
    using sma_ready_iff [of xs p] ps(1) by simp
  have ema: "ema_ready (fold ema_push xs (mk_ema p)) \<longleftrightarrow> nat p \<le> length xs"
    using ema_ready_iff [of p xs] ps(1) pos(1) by (simp add: ema_ready_def)
  have "rsi_is_ready (fold rsi_push xs (mk_rsi p)) \<longleftrightarrow> p < int (length xs)"
    using rsi_state [OF pos(5), of xs] by blast
  also have "\<dots> \<longleftrightarrow> nat p + 1 \<le> length xs" using pos(5) by linarith
  finally have rsi: "rsi_ready (fold rsi_push xs (mk_rsi p)) \<longleftrightarrow> nat p + 1 \<le> length xs"
    by (simp only: rsi_ready_def)
  show ?thesis by (intro conjI sma ema bb dc rsi macd)
qed

section \<open>The moving average does not drift\<close>

text \<open>Integer prices (in ticks), as doubles.\<close>

definition ticks :: "int list \<Rightarrow> f64 list" where
  "ticks ns = map (\<lambda>n. Fin (of_int n)) ns"

lemma length_ticks [simp]: "length (ticks ns) = length ns"
  by (simp add: ticks_def)






lemma set_last_n: "set (last_n n xs) \<subseteq> set xs"
  by (simp add: last_n_def set_drop_subset)

lemma map_last_n: "map f (last_n n xs) = last_n n (map f xs)"
  by (simp add: last_n_def drop_map)





section \<open>Rsi stays in its range\<close>

lemma gain_loss_nonneg: "fnonneg (gain_of d)" "fnonneg (loss_of d)"
  by (cases d; auto simp: gain_of_def loss_of_def f64_ops)+

text \<open>No input, not even infinities and invalid ones, makes the averages negative or invalid.\<close>

definition rsi_nonneg :: "rsi \<Rightarrow> bool" where
  "rsi_nonneg r \<longleftrightarrow> fnonneg (rsi_gain_sum r) \<and> fnonneg (rsi_loss_sum r)
     \<and> fnonneg (rsi_avg_gain r) \<and> fnonneg (rsi_avg_loss r)"

lemma period_double: "fits 32 p \<Longrightarrow> f64_of_int p = Fin (of_int p) \<and> f64_of_int (p - 1) = Fin (of_int (p - 1))"
proof -
  assume "fits 32 p"
  then have "\<bar>p\<bar> \<le> 2 ^ 53" "\<bar>p - 1\<bar> \<le> 2 ^ 53" by (auto simp: fits32_iff abs_le_iff)
  then show ?thesis using fl_int [of p] fl_int [of "p - 1"] by (simp only: f64_of_int_def)
qed

lemma rsi_push_nonneg:
  assumes "rsi_nonneg r" "fits 32 (rsi_period r)" "1 < rsi_period r"
  shows "rsi_nonneg (rsi_push x r)"
proof -
  let ?g = "gain_of (x - rsi_prev r)" and ?l = "loss_of (x - rsi_prev r)"
  have p: "f64_of_int (rsi_period r) = Fin (of_int (rsi_period r))"
    "f64_of_int (rsi_period r - 1) = Fin (of_int (rsi_period r - 1))"
    "0 < (of_int (rsi_period r) :: real)" "0 < (of_int (rsi_period r - 1) :: real)"
    using period_double [OF assms(2)] assms(3) by simp_all
  have nn: "fnonneg (rsi_gain_sum r)" "fnonneg (rsi_loss_sum r)" "fnonneg (rsi_avg_gain r)" "fnonneg (rsi_avg_loss r)"
    using assms(1) by (simp_all add: rsi_nonneg_def)
  have sums: "fnonneg (rsi_gain_sum r + ?g)" "fnonneg (rsi_loss_sum r + ?l)"
    using nn gain_loss_nonneg by (simp_all add: fnonneg_add)
  moreover have "fnonneg ((rsi_gain_sum r + ?g) / Fin (of_int (rsi_period r)))"
    "fnonneg ((rsi_loss_sum r + ?l) / Fin (of_int (rsi_period r)))"
    using sums p(3) by (simp_all add: fnonneg_div)
  moreover have "fnonneg ((rsi_avg_gain r * Fin (of_int (rsi_period r - 1)) + ?g) / Fin (of_int (rsi_period r)))"
    "fnonneg ((rsi_avg_loss r * Fin (of_int (rsi_period r - 1)) + ?l) / Fin (of_int (rsi_period r)))"
    by (intro fnonneg_div fnonneg_add fnonneg_mul nn gain_loss_nonneg p(3,4))+
  ultimately show ?thesis
    using nn by (simp add: rsi_nonneg_def rsi_push_def Let_def p(1,2))
qed

lemma rsi_run_nonneg:
  assumes "fits 32 p" "1 < p"
  shows "rsi_nonneg (fold rsi_push xs (mk_rsi p))"
proof (induction xs rule: rev_induct)
  case Nil
  then show ?case by (simp add: rsi_nonneg_def mk_rsi_def)
next
  case (snoc x xs)
  have "rsi_period (fold rsi_push xs (mk_rsi p)) = p" using rsi_state [of p xs] assms(2) by simp
  then show ?case using rsi_push_nonneg [of "fold rsi_push xs (mk_rsi p)" x] snoc assms by simp
qed

text \<open>The final formula maps a non-negative ratio into the range.\<close>

lemma fl_between:
  assumes "0 \<le> x" "x \<le> 100"
  shows "\<exists>y. fl x = Fin y \<and> 0 \<le> y \<and> y \<le> 100"
proof -
  have "fl x = Fin (rnd64 x)" using assms by (intro fl_small) simp
  moreover have "rnd64 x \<le> 100" using ieee.rnd_le_exact [of x 100] ieee.rnd_numeral [of "num.Bit0 (num.Bit0 (num.Bit1 (num.Bit0 (num.Bit0 (num.Bit1 num.One)))))"] assms by simp
  ultimately show ?thesis using assms rnd64_nonneg [of x] by auto
qed

lemma rsi_formula:
  assumes "0 \<le> rs"
  shows "\<exists>y. Fin 100 - Fin 100 / (1 + Fin rs) = Fin y \<and> 0 \<le> y \<and> y \<le> 100"
proof -
  have one: "rnd64 1 = 1" using ieee.rnd_one .
  show ?thesis
  proof (cases "1 + Fin rs")
    case (Fin d)
    then have "d = rnd64 (1 + rs)"
      by (auto simp: f64_ops fl_def Let_def split: if_splits)
    then have d: "1 \<le> d" using ieee.rnd_ge_exact [of 1 "1 + rs"] one assms by simp
    then have "0 \<le> 100 / d" "100 / d \<le> 100" by (simp_all add: divide_le_eq)
    from fl_between [OF this] obtain q where q: "fl (100 / d) = Fin q" "0 \<le> q" "q \<le> 100" by blast
    then have "0 \<le> 100 - q" "100 - q \<le> 100" by simp_all
    from fl_between [OF this] show ?thesis using Fin q d by (simp add: f64_ops)
  next
    case PInf
    then show ?thesis by (simp add: f64_ops)
  next
    case MInf
    have "fnonneg (1 + Fin rs)" using assms by (simp add: f64_ops fl_nonneg)
    with MInf show ?thesis by simp
  next
    case NaN
    have "fnonneg (1 + Fin rs)" using assms by (simp add: f64_ops fl_nonneg)
    with NaN show ?thesis by simp
  qed
qed

text \<open>
  The value of Rsi is a number between 0 and 100, or invalid (only when the averages of gains and
  losses are both infinite), for every period above one and every sequence of inputs, infinite and invalid ones
  included; when there were no losses it is 100.
\<close>

lemma rsi_range:
  assumes "fits 32 p" "1 < p"
  shows "let r = fold rsi_push xs (mk_rsi p); v = rsi_value r in
    ((\<exists>y. v = Fin y \<and> 0 \<le> y \<and> y \<le> 100)
      \<or> (v = NaN \<and> rsi_avg_gain r = PInf \<and> rsi_avg_loss r = PInf))
    \<and> (rsi_avg_loss r = 0 \<longrightarrow> v = Fin 100)"
proof -
  let ?r = "fold rsi_push xs (mk_rsi p)"
  have nn: "fnonneg (rsi_avg_gain ?r)" "fnonneg (rsi_avg_loss ?r)"
    using rsi_run_nonneg [OF assms, of xs] by (simp_all add: rsi_nonneg_def)
  have hundred: "\<exists>y. Fin 100 - Fin 100 / (1 + PInf) = Fin y \<and> 0 \<le> y \<and> y \<le> 100" by (simp add: f64_ops)
  from nn(2) show ?thesis
  proof (cases rule: fnonneg_cases)
    case Inf
    with nn(1) show ?thesis
      by (cases rule: fnonneg_cases) (simp_all add: rsi_value_def f64_ops feq_def Let_def)
  next
    case (Fin l)
    show ?thesis
    proof (cases "l = 0")
      case True
      then show ?thesis using Fin by (simp add: rsi_value_def feq_def f64_ops Let_def)
    next
      case False
      with Fin have "fnonneg (rsi_avg_gain ?r / rsi_avg_loss ?r)" using nn(1) by (simp add: fnonneg_div)
      then have "\<exists>y. rsi_value ?r = Fin y \<and> 0 \<le> y \<and> y \<le> 100"
      proof (cases rule: fnonneg_cases)
        case (Fin q)
        then show ?thesis
          using rsi_formula [of q] False \<open>rsi_avg_loss ?r = Fin l\<close>
          by (simp add: rsi_value_def feq_def Let_def zero_f64_def)
      next
        case Inf
        then show ?thesis
          using hundred False \<open>rsi_avg_loss ?r = Fin l\<close>
          by (simp add: rsi_value_def feq_def Let_def zero_f64_def)
      qed
      then show ?thesis using False Fin by (auto simp: zero_f64_def Let_def)
    qed
  qed
qed

section \<open>Bollinger bands are ordered\<close>

lemma fnn_size_double: "fnn (size_double w)"
  by (simp add: size_double_def f64_of_int_def fnn_fl)

lemma fnn_sum_squares: "fnn a \<Longrightarrow> fnn (foldl (\<lambda>acc v. acc + (v - m) * (v - m)) a w)"
  by (induction w arbitrary: a) (simp_all add: fnn_add fnn_square)

lemma fnn_stddev: "fnn (bb_stddev b)"
  by (simp add: bb_stddev_def Let_def fnn_sqrt fnn_div fnn_sum_squares fnn_size_double)

text \<open>
  For a non-negative width the bands never cross the middle line, whatever was pushed and
  however the sums are rounded; the middle line is computed from the last \<open>period\<close> values only.
\<close>

lemma bollinger_ordered:
  assumes "fnn mult"
  shows "let b = fold bb_push xs (mk_bollinger p mult) in
    \<not> bb_upper b < bb_middle b \<and> \<not> bb_middle b < bb_lower b \<and> \<not> bb_stddev b < 0
    \<and> bb_window b = last_n (period_size p) xs"
proof -
  let ?b = "fold bb_push xs (mk_bollinger p mult)"
  have mult: "bb_mult ?b = mult"
    by (induction xs rule: rev_induct) (simp_all add: mk_bollinger_def bb_push_def Let_def)
  have w: "fnn (bb_mult ?b * bb_stddev ?b)" unfolding mult by (rule fnn_mul [OF assms fnn_stddev])
  have m: "double_ok (bb_middle ?b)" by (simp add: bb_middle_def)
  have "\<not> bb_stddev ?b < 0" using fnn_stddev [of ?b] by (cases "bb_stddev ?b") (auto simp: f64_ops)
  moreover have "bb_window ?b = last_n (period_size p) xs"
    using bb_win.window_is_tail [of "mk_bollinger p mult" xs] by (simp add: mk_bollinger_def)
  ultimately show ?thesis
    using fadd_fnn_ge [OF m w] fsub_fnn_le [OF m w] by (simp add: Let_def bb_upper_def bb_lower_def)
qed

section \<open>Donchian channel\<close>

text \<open>On values that are numbers, the IEEE order is total.\<close>

lemma f64_not_less_trans:
  "a \<noteq> NaN \<Longrightarrow> b \<noteq> NaN \<Longrightarrow> c \<noteq> NaN \<Longrightarrow> \<not> a < b \<Longrightarrow> \<not> b < c \<Longrightarrow> \<not> a < (c :: f64)"
  by (cases a; cases b; cases c) (auto simp: f64_ops)

lemma f64_less_asym: "a < (b :: f64) \<Longrightarrow> \<not> b < a"
  by (cases a; cases b) (auto simp: f64_ops)

lemma f64_less_irrefl [simp]: "\<not> a < (a :: f64)"
  by (cases a) (auto simp: f64_ops)

lemma foldl_max:
  assumes "NaN \<notin> set (x # xs)"
  shows "foldl (\<lambda>m v. if m < v then v else m) x xs \<in> set (x # xs)
    \<and> (\<forall>v\<in>set (x # xs). \<not> foldl (\<lambda>m v. if m < v then v else m) x xs < v)"
  using assms
proof (induction xs arbitrary: x)
  case (Cons y ys)
  let ?z = "if x < y then y else x"
  have "NaN \<notin> set (?z # ys)" using Cons.prems by auto
  from Cons.IH [OF this] have
    IH: "foldl (\<lambda>m v. if m < v then v else m) ?z ys \<in> set (?z # ys)"
      "\<forall>v\<in>set (?z # ys). \<not> foldl (\<lambda>m v. if m < v then v else m) ?z ys < v" by blast+
  let ?r = "foldl (\<lambda>m v. if m < v then v else m) ?z ys"
  have z: "\<not> ?z < x" "\<not> ?z < y" by (simp_all add: f64_less_asym)
  have nn: "?r \<noteq> NaN" "?z \<noteq> NaN" "x \<noteq> NaN" "y \<noteq> NaN" using IH(1) Cons.prems by auto
  have "\<not> ?r < x" "\<not> ?r < y"
    using f64_not_less_trans [OF nn(1,2,3) _ z(1)] f64_not_less_trans [OF nn(1,2,4) _ z(2)] IH(2) by simp_all
  with IH show ?case by auto
qed simp

lemma f64_less_uminus: "- a < - b \<longleftrightarrow> b < (a :: f64)"
  by (cases a; cases b) (auto simp: f64_ops)

lemma foldl_min_as_max:
  "foldl (\<lambda>m v. if v < m then v else m) x xs = - foldl (\<lambda>m v. if m < v then v else m) (- x) (map uminus (xs :: f64 list))"
  by (induction xs arbitrary: x) (simp_all add: f64_less_uminus if_distrib [of uminus])

lemma foldl_min:
  assumes "NaN \<notin> set (x # xs)"
  shows "foldl (\<lambda>m v. if v < m then v else m) x xs \<in> set (x # xs)
    \<and> (\<forall>v\<in>set (x # xs). \<not> v < foldl (\<lambda>m v. if v < m then v else m) x xs)"
proof -
  have neg: "- v = NaN \<longleftrightarrow> v = NaN" for v by (cases v) (simp_all add: f64_ops)
  have "NaN \<notin> set (- x # map uminus xs)"
  proof
    assume "NaN \<in> set (- x # map uminus xs)"
    then have "\<exists>v\<in>set (x # xs). NaN = - v" by auto
    then obtain v where v: "v \<in> set (x # xs)" "NaN = - v" by (rule bexE)
    then have "v = NaN" using neg [of v] by simp
    with v(1) assms show False by simp
  qed
  note mx = foldl_max [OF this]
  let ?r = "foldl (\<lambda>m v. if m < v then v else m) (- x) (map uminus xs)"
  from mx obtain v where v: "v \<in> set (x # xs)" "?r = - v" by auto
  have "\<not> w < - ?r" if "w \<in> set (x # xs)" for w
  proof -
    have "- w \<in> set (- x # map uminus xs)" using that by auto
    then have "\<not> ?r < - w" using mx by blast
    then show ?thesis using f64_less_uminus [of "- ?r" w] by simp
  qed
  with v show ?thesis unfolding foldl_min_as_max by simp
qed

lemma max_element_spec:
  "w \<noteq> [] \<Longrightarrow> NaN \<notin> set w \<Longrightarrow> \<exists>m. max_element w = Inr m \<and> m \<in> set w \<and> (\<forall>v\<in>set w. \<not> m < v)"
  using foldl_max by (cases w) (auto simp: max_element_def)

lemma min_element_spec:
  "w \<noteq> [] \<Longrightarrow> NaN \<notin> set w \<Longrightarrow> \<exists>m. min_element w = Inr m \<and> m \<in> set w \<and> (\<forall>v\<in>set w. \<not> v < m)"
  using foldl_min by (cases w) (auto simp: min_element_def)

lemma donchian_windows:
  "dc_highs (fold dc_push hls (mk_donchian p)) = last_n (period_size p) (map fst hls)"
  "dc_lows (fold dc_push hls (mk_donchian p)) = last_n (period_size p) (map snd hls)"
  using dc_high.window_is_tail [of "mk_donchian p" hls] dc_low.window_is_tail [of "mk_donchian p" hls]
  by (simp_all add: mk_donchian_def)

text \<open>
  Once a bar has been pushed, upper is the highest high and lower the lowest low of exactly
  the last \<open>period\<close> bars pushed (so of the bars before the current one, for a caller that reads
  before it pushes).
\<close>

lemma donchian_extremes:
  assumes "hls \<noteq> []" "0 < p" "fits 32 p" "NaN \<notin> set (map fst hls)" "NaN \<notin> set (map snd hls)"
  shows "\<exists>u l. dc_upper (fold dc_push hls (mk_donchian p)) = Inr u
    \<and> dc_lower (fold dc_push hls (mk_donchian p)) = Inr l
    \<and> u \<in> fst ` set (last_n (nat p) hls) \<and> (\<forall>hl\<in>set (last_n (nat p) hls). \<not> u < fst hl)
    \<and> l \<in> snd ` set (last_n (nat p) hls) \<and> (\<forall>hl\<in>set (last_n (nat p) hls). \<not> snd hl < l)"
proof -
  let ?w = "last_n (nat p) hls"
  have "0 < length hls" "0 < nat p" using assms(1,2) by simp_all
  then have "length ?w \<noteq> 0" unfolding last_n_def length_drop by linarith
  then have ne: "?w \<noteq> []" by (metis list.size(3))
  have w: "dc_highs (fold dc_push hls (mk_donchian p)) = map fst ?w"
    "dc_lows (fold dc_push hls (mk_donchian p)) = map snd ?w"
    using donchian_windows [of hls p] fits32_period [OF assms(3,2)] by (simp_all add: map_last_n)
  have "NaN \<notin> set (map fst ?w)" "NaN \<notin> set (map snd ?w)"
    using assms(4,5) set_last_n [of "nat p" hls] by auto
  then show ?thesis
    using max_element_spec [of "map fst ?w"] min_element_spec [of "map snd ?w"] ne
    by (auto simp: dc_upper_def dc_lower_def w)
qed

end
