(* ===== verification/Decimal_Double.thy ===== *)
theory Decimal_Double
  imports Decimal Float64
begin

text \<open>
  The floating-point conversions of \<^verbatim>\<open>include/tinvest/decimal.hpp\<close>: \<^verbatim>\<open>Decimal::to_double\<close>
  and \<^verbatim>\<open>Decimal::from_double\<close>. A conversion of a double to \<^verbatim>\<open>int64_t\<close> whose truncated
  value does not fit is undefined, and \<^verbatim>\<open>std::llround\<close> has no specified result there: both are
  the outcome \<open>OutOfRange\<close>.

  The theorems bound the rounding of the four floating-point operations together: conversion
  never reverses an order, and converting there and back is the identity on prices below
  \<open>2^23\<close> units.
\<close>

section \<open>Model\<close>

primrec ffloor :: "f64 \<Rightarrow> f64" where
  "ffloor (Fin x) = Fin (of_int \<lfloor>x\<rfloor>)"
| "ffloor PInf = PInf"
| "ffloor MInf = MInf"
| "ffloor NaN = NaN"

definition truncate :: "real \<Rightarrow> int" where
  "truncate x = (if x < 0 then - \<lfloor>- x\<rfloor> else \<lfloor>x\<rfloor>)"

definition int64_of_f64 :: "f64 \<Rightarrow> int cpp" where
  "int64_of_f64 a = (case a of
      Fin x \<Rightarrow> if fits 64 (truncate x) then Inr (truncate x) else Inl OutOfRange
    | _ \<Rightarrow> Inl OutOfRange)"

definition round_away :: "real \<Rightarrow> int" where
  "round_away x = (if x < 0 then - \<lfloor>- x + 1 / 2\<rfloor> else \<lfloor>x + 1 / 2\<rfloor>)"

definition llround :: "f64 \<Rightarrow> int cpp" where
  "llround a = (case a of
      Fin x \<Rightarrow> if fits 64 (round_away x) then Inr (round_away x) else Inl OutOfRange
    | _ \<Rightarrow> Inl OutOfRange)"

definition to_double :: "decimal \<Rightarrow> f64" where
  "to_double d = f64_of_int (units d) + f64_of_int (nano d) / Fin 1000000000"

definition from_double :: "f64 \<Rightarrow> decimal cpp" where
  "from_double v =
     (let u = if v < 0 then - ffloor (- v) else ffloor v in
      cbind (int64_of_f64 u) (\<lambda>un.
      cbind (llround ((v - u) * f64_of_int kNano)) (\<lambda>n.
      cbind (checked 128 (un * kNano + n)) (\<lambda>t. Inr (from_total t)))))"

section \<open>Rounding errors\<close>

lemma round_even_near: "\<bar>of_int (round_even x) - x\<bar> \<le> 1 / 2"
  using round_even_cases [of x] by linarith

lemma rnd64_error:
  assumes "\<bar>x\<bar> < 2 powr of_int k" "- 1021 \<le> k"
  shows "\<bar>rnd64 x - x\<bar> \<le> 2 powr of_int (k - 54)"
proof (cases "x = 0")
  case False
  let ?u = "(2 :: real) powr of_int (ulp_exp x)"
  have "2 powr of_int \<lfloor>log 2 \<bar>x\<bar>\<rfloor> \<le> \<bar>x\<bar>" using False by (intro log_floor_bounds) simp
  then have "(2 :: real) powr of_int \<lfloor>log 2 \<bar>x\<bar>\<rfloor> < 2 powr of_int k" using assms(1) by linarith
  then have "\<lfloor>log 2 \<bar>x\<bar>\<rfloor> < k" by simp
  then have e: "ulp_exp x \<le> k - 53" using assms(2) by (simp add: ulp_exp_def)
  have "rnd64 x - x = (of_int (round_even (x / ?u)) - x / ?u) * ?u"
    using False by (simp add: rnd64_scaled algebra_simps)
  then have "\<bar>rnd64 x - x\<bar> = \<bar>of_int (round_even (x / ?u)) - x / ?u\<bar> * ?u" by (simp add: abs_mult)
  also have "\<dots> \<le> 1 / 2 * ?u" by (intro mult_right_mono round_even_near) simp
  also have "\<dots> \<le> 1 / 2 * 2 powr of_int (k - 53)" using e by simp
  also have "\<dots> = 2 powr of_int (k - 54)"
  proof -
    have "(2 :: real) powr of_int (k - 53) = 2 powr (of_int (k - 54) + 1)" by (simp add: algebra_simps)
    then show ?thesis by (simp add: powr_add del: of_int_diff)
  qed
  finally show ?thesis .
qed simp

lemma rnd64_error_unit: "\<bar>x\<bar> \<le> 1 \<Longrightarrow> \<bar>rnd64 x - x\<bar> \<le> 1 / 9007199254740992"
  using rnd64_error [of x 1] by (simp add: powr_minus powr_numeral)

lemma rnd64_error_price: "\<bar>x\<bar> < 2 ^ 23 \<Longrightarrow> \<bar>rnd64 x - x\<bar> \<le> 1 / 2147483648"
  using rnd64_error [of x 23] by (simp add: powr_minus powr_numeral)

lemma rnd64_error_nanos: "\<bar>x\<bar> < 2 ^ 30 \<Longrightarrow> \<bar>rnd64 x - x\<bar> \<le> 1 / 16777216"
  using rnd64_error [of x 30] by (simp add: powr_minus powr_numeral)

lemma round_away_near: "\<bar>x - of_int n\<bar> < 1 / 2 \<Longrightarrow> round_away x = n"
proof -
  assume x: "\<bar>x - of_int n\<bar> < 1 / 2"
  have "\<lfloor>x + 1 / 2\<rfloor> = n" using x by (intro floor_unique) linarith+
  moreover have "\<lfloor>- x + 1 / 2\<rfloor> = - n" using x by (intro floor_unique) (unfold of_int_minus, linarith+)
  ultimately show ?thesis by (simp add: round_away_def)
qed

section \<open>Conversion keeps the order\<close>

abbreviation nano_part :: "int \<Rightarrow> real" where
  "nano_part n \<equiv> rnd64 (of_int n / 1000000000)"

lemma nano_part_bounds:
  assumes "- kNano < n" "n < kNano"
  shows "\<bar>nano_part n\<bar> \<le> 1" "0 \<le> n \<Longrightarrow> 0 \<le> nano_part n" "n \<le> 0 \<Longrightarrow> nano_part n \<le> 0"
    "fl (of_int n / 1000000000) = Fin (nano_part n)"
proof -
  have x: "- 1 \<le> (of_int n / 1000000000 :: real)" "(of_int n / 1000000000 :: real) \<le> 1"
    using assms by (simp_all add: kNano_def)
  have one: "rnd64 1 = 1" "rnd64 (- 1) = - 1" by (simp_all add: ieee.rnd_one rnd64_minus)
  show "\<bar>nano_part n\<bar> \<le> 1"
    using ieee.rnd_le_exact [OF x(2) one(1)] ieee.rnd_ge_exact [OF x(1) one(2)] by (simp add: abs_le_iff)
  show "0 \<le> n \<Longrightarrow> 0 \<le> nano_part n" "n \<le> 0 \<Longrightarrow> nano_part n \<le> 0"
    by (simp_all add: ieee.rnd_nonneg ieee.rnd_nonpos)
  show "fl (of_int n / 1000000000) = Fin (nano_part n)" using x by (intro fl_small) (simp add: abs_le_iff)
qed

lemma to_double_value:
  assumes "dec_inv d" "\<bar>units d\<bar> < 2 ^ 53"
  shows "to_double d = Fin (rnd64 (of_int (units d) + nano_part (nano d)))"
proof -
  have n: "- kNano < nano d" "nano d < kNano" using assms(1) by (simp_all add: dec_inv_def)
  then have "f64_of_int (nano d) = Fin (of_int (nano d))"
    unfolding f64_of_int_def by (intro fl_int) (simp add: kNano_def abs_le_iff)
  moreover have "f64_of_int (units d) = Fin (of_int (units d))"
    unfolding f64_of_int_def using assms(2) by (intro fl_int) simp
  moreover have "fl (of_int (units d) + nano_part (nano d)) = Fin (rnd64 (of_int (units d) + nano_part (nano d)))"
  proof (rule fl_small)
    have "(of_int \<bar>units d\<bar> :: real) \<le> of_int (2 ^ 53 - 1)" using assms(2) by (simp only: of_int_le_iff)
    then show "\<bar>of_int (units d) + nano_part (nano d)\<bar> \<le> 2 ^ 53"
      using nano_part_bounds(1) [OF n] abs_triangle_ineq [of "of_int (units d)" "nano_part (nano d)"] by simp
  qed
  ultimately show ?thesis using nano_part_bounds(4) [OF n] by (simp add: to_double_def f64_ops)
qed

lemma parts_mono:
  assumes "dec_inv a" "dec_inv b" "dec_total a \<le> dec_total b"
  shows "of_int (units a) + nano_part (nano a) \<le> of_int (units b) + nano_part (nano b)"
proof -
  have n: "- kNano < nano a" "nano a < kNano" "- kNano < nano b" "nano b < kNano"
    using assms by (simp_all add: dec_inv_def)
  note na = nano_part_bounds [OF n(1,2)] and nb = nano_part_bounds [OF n(3,4)]
  have ab: "units a * 1000000000 + nano a \<le> units b * 1000000000 + nano b"
    using assms(3) by (simp add: dec_total_def kNano_def)
  have "units a \<le> units b"
    using ab n assms(1,2) unfolding dec_inv_def kNano_def by linarith
  then consider "units a = units b" | "units a + 1 \<le> units b" "0 \<le> units a" | "units a + 1 \<le> units b" "units a < 0"
    by linarith
  then show ?thesis
  proof cases
    case 1
    then have "nano a \<le> nano b" using ab by simp
    then have "nano_part (nano a) \<le> nano_part (nano b)" by (intro rnd64_mono) (simp add: divide_right_mono)
    with 1 show ?thesis by simp
  next
    case 2
    then have "0 \<le> nano b" using assms(2) by (auto simp: dec_inv_def)
    moreover have "(of_int (units a + 1) :: real) \<le> of_int (units b)" using 2(1) by (simp only: of_int_le_iff)
    ultimately show ?thesis using na(1) nb(2) by (simp add: abs_le_iff)
  next
    case 3
    then have "nano a \<le> 0" using assms(1) by (auto simp: dec_inv_def)
    moreover have "(of_int (units a + 1) :: real) \<le> of_int (units b)" using 3(1) by (simp only: of_int_le_iff)
    ultimately show ?thesis using na(3) nb(1) by (simp add: abs_le_iff)
  qed
qed

text \<open>
  To_double never reverses an order: of two well-formed decimals below \<open>2^53\<close> units, the
  smaller one never converts to the larger double, and both convert to finite numbers.
\<close>

lemma to_double_monotone:
  assumes "dec_inv a" "dec_inv b" "\<bar>units a\<bar> < 2 ^ 53" "\<bar>units b\<bar> < 2 ^ 53" "decimal_le a b"
  shows "\<exists>x y. to_double a = Fin x \<and> to_double b = Fin y \<and> x \<le> y"
proof -
  have "dec_total a \<le> dec_total b" using assms(5) by (simp add: decimal_le_def decimal_lt_def)
  from rnd64_mono [OF parts_mono [OF assms(1,2) this]] show ?thesis
    using to_double_value [OF assms(1,3)] to_double_value [OF assms(2,4)] by blast
qed

section \<open>Conversion round trip\<close>

lemma errors_below_half:
  fixes z y n :: real
  assumes "\<bar>z - y\<bar> \<le> 1 / 16777216" "\<bar>y - n\<bar> \<le> 466 / 1000"
  shows "\<bar>z - n\<bar> < 1 / 2"
  using assms by linarith

text \<open>The four roundings on the way of a non-negative price, in nanos.\<close>

lemma round_trip_core:
  fixes a n :: int
  assumes "0 \<le> a" "a < 2 ^ 23" "0 \<le> n" "n < 1000000000"
  defines "v \<equiv> rnd64 (of_int a + nano_part n)"
  shows "\<lfloor>v\<rfloor> = a" "\<bar>rnd64 (rnd64 (v - of_int a) * 1000000000) - of_int n\<bar> < 1 / 2" "0 \<le> v"
    "0 \<le> v - of_int a" "v - of_int a \<le> 1"
proof -
  let ?q = "nano_part n" and ?x = "of_int n / 1000000000 :: real"
  have q: "0 \<le> ?q" "?q \<le> 1" using nano_part_bounds [of n] assms(3,4) by (simp_all add: kNano_def)
  have "\<bar>?x\<bar> \<le> 1" using assms(3,4) by simp
  from rnd64_error_unit [OF this] have e1: "\<bar>?q - ?x\<bar> \<le> 1 / 9007199254740992" .
  have ra: "(of_int a :: real) \<le> 2 ^ 23 - 1" "0 \<le> (of_int a :: real)"
    using assms(1,2) by (simp_all add: of_int_le_iff [of a "2 ^ 23 - 1", where 'a = real, symmetric])
  have xn: "?x \<le> 1 - 1 / 1000000000" using assms(4) by (simp add: field_simps)
  have "?q < 1" using e1 xn by linarith
  then have "\<bar>of_int a + ?q\<bar> < 2 ^ 23" using q ra by simp
  from rnd64_error_price [OF this] have e2: "\<bar>v - (of_int a + ?q)\<bar> \<le> 1 / 2147483648" by (simp add: v_def)
  have "\<bar>a\<bar> \<le> 2 ^ 53" using assms(1,2) by simp
  from ieee.rnd_int [OF this] have va: "of_int a \<le> v"
    unfolding v_def using q(1) by (intro ieee.rnd_ge_exact) simp_all
  then show "0 \<le> v - of_int a" "0 \<le> v" using ra by simp_all
  have v1: "v < of_int a + 1" using e1 e2 xn by linarith
  then show "v - of_int a \<le> 1" by simp
  show "\<lfloor>v\<rfloor> = a" using va v1 by (rule floor_unique)
  let ?w = "rnd64 (v - of_int a)"
  have e3: "\<bar>?w - (v - of_int a)\<bar> \<le> 1 / 9007199254740992" using va v1 by (intro rnd64_error_unit) simp
  have "0 \<le> ?w" "?w \<le> 1" using va v1 ieee.rnd_le_exact [of "v - of_int a" 1] ieee.rnd_one
    by (simp_all add: rnd64_nonneg)
  then have "\<bar>?w * 1000000000\<bar> < 2 ^ 30" by simp
  from rnd64_error_nanos [OF this]
  have e4: "\<bar>rnd64 (?w * 1000000000) - ?w * 1000000000\<bar> \<le> 1 / 16777216" .
  have "\<bar>?w - ?x\<bar> \<le> 1 / 2147483648 + 2 / 9007199254740992" using e1 e2 e3 by linarith
  then have "\<bar>(?w - ?x) * 1000000000\<bar> \<le> (1 / 2147483648 + 2 / 9007199254740992) * 1000000000"
    unfolding abs_mult by (intro mult_mono) simp_all
  also have "\<dots> \<le> 466 / 1000" by simp
  finally have "\<bar>?w * 1000000000 - of_int n\<bar> \<le> 466 / 1000" by (simp add: algebra_simps)
  with e4 show "\<bar>rnd64 (?w * 1000000000) - of_int n\<bar> < 1 / 2" by (rule errors_below_half)
qed

lemma from_double_core:
  fixes a n :: int
  assumes "0 \<le> a" "a < 2 ^ 23" "0 \<le> n" "n < 1000000000"
  defines "v \<equiv> rnd64 (of_int a + nano_part n)"
  shows "from_double (Fin v) = Inr (from_total (a * kNano + n))"
    "0 < v \<Longrightarrow> from_double (Fin (- v)) = Inr (from_total (- (a * kNano + n)))"
proof -
  note core = round_trip_core [OF assms(1-4), folded v_def]
  let ?w = "rnd64 (v - of_int a)" and ?z = "rnd64 (rnd64 (v - of_int a) * 1000000000)"
  have w: "fl (v - of_int a) = Fin ?w" using core(4,5) by (intro fl_small) simp
  have "0 \<le> ?w" "?w \<le> 1" using core(4,5) ieee.rnd_le_exact [of "v - of_int a" 1] ieee.rnd_one
    by (simp_all add: rnd64_nonneg)
  then have z: "fl (?w * 1000000000) = Fin ?z" by (intro fl_small) simp
  have neg: "fl (of_int a - v) = Fin (- ?w)" "fl (- ?w * 1000000000) = Fin (- ?z)"
    using fl_uminus [of "v - of_int a"] fl_uminus [of "?w * 1000000000"] w z by (simp_all add: f64_ops)
  have rz: "round_away ?z = n" "round_away (- ?z) = - n"
    using core(2) round_away_near [of ?z n] round_away_near [of "- ?z" "- n"]
    by (simp_all add: abs_minus_commute)
  have a: "truncate (of_int a) = a" "truncate (- of_int a) = - a" "fits 64 a" "fits 64 (- a)" "fits 64 n" "fits 64 (- n)"
    using assms(1-4) by (simp_all add: truncate_def fits64_iff)
  have k: "f64_of_int kNano = Fin 1000000000" by (simp add: f64_of_int_def kNano_def)
  have big: "fits 128 (a * kNano + n)" "fits 128 (- (a * kNano) - n)"
    using assms(1-4) by (simp_all add: fits128_iff kNano_def)
  show "from_double (Fin v) = Inr (from_total (a * kNano + n))"
    using core(1,3) w z rz a big k
    by (simp add: from_double_def f64_ops int64_of_f64_def llround_def)
  show "from_double (Fin (- v)) = Inr (from_total (- (a * kNano + n)))" if "0 < v"
    using that core(1) neg rz a big k
    by (simp add: from_double_def f64_ops int64_of_f64_def llround_def)
qed

lemma nano_part_minus: "nano_part (- n) = - nano_part n"
  using rnd64_minus [of "of_int n / 1000000000"] by simp

text \<open>
  C14: converting to double and back is the identity on every well-formed decimal below
  \<open>2^23\<close> units (8388608), all nine fractional digits included.
\<close>

theorem double_round_trip:
  assumes "dec_inv d" "\<bar>units d\<bar> < 2 ^ 23"
  shows "from_double (to_double d) = Inr d"
proof -
  have t: "to_double d = Fin (rnd64 (of_int (units d) + nano_part (nano d)))"
    using assms by (intro to_double_value) simp_all
  have n: "- 1000000000 < nano d" "nano d < 1000000000" using assms(1) by (simp_all add: dec_inv_def kNano_def)
  have self: "from_total (units d * kNano + nano d) = d" "from_total (nano d + units d * kNano) = d"
    using from_total_total [OF assms(1)] by (simp_all add: dec_total_def add.commute)
  have "(0 \<le> units d \<and> 0 \<le> nano d) \<or> (units d \<le> 0 \<and> nano d \<le> 0)"
    using assms(1) by (auto simp: dec_inv_def)
  then show ?thesis
  proof
    assume "0 \<le> units d \<and> 0 \<le> nano d"
    then show ?thesis
      using from_double_core(1) [of "units d" "nano d"] assms(2) n(2) t self by simp
  next
    assume s: "units d \<le> 0 \<and> nano d \<le> 0"
    let ?v = "rnd64 (of_int (- units d) + nano_part (- nano d))"
    have "of_int (- units d) + nano_part (- nano d) = - (of_int (units d) + nano_part (nano d))"
      unfolding nano_part_minus by simp
    then have v: "rnd64 (of_int (units d) + nano_part (nano d)) = - ?v" by (simp only: rnd64_minus minus_minus)
    have "0 \<le> ?v" using round_trip_core(3) [of "- units d" "- nano d"] s assms(2) n(1) by simp
    then consider "0 < ?v" | "?v = 0" by linarith
    then show ?thesis
    proof cases
      case 1
      then show ?thesis
        using from_double_core(2) [of "- units d" "- nano d"] s assms(2) n(1) t v self by simp
    next
      case 2
      have "units d = 0" "\<bar>real_of_int (nano d)\<bar> < 1 / 2"
        using 2 round_trip_core(1,2) [of "- units d" "- nano d"] s assms(2) n(1) by simp_all
      then have "units d = 0" "nano d = 0" by linarith+
      then show ?thesis
        using 2 from_double_core(1) [of "units d" "nano d"] t v self by simp
    qed
  qed
qed

theorem double_round_trip_witness:
  "from_double (to_double \<lparr>units = - 8388607, nano = - 999999999\<rparr>) = Inr \<lparr>units = - 8388607, nano = - 999999999\<rparr>"
  by (rule double_round_trip) (simp_all add: dec_inv_def fits64_iff kNano_def)

end
