(* ===== verification/Strategies.thy ===== *)
theory Strategies
  imports Indicators Decimal_Double
begin

text \<open>
  \<^verbatim>\<open>include/tinvest/algo/strategy.hpp\<close> and \<^verbatim>\<open>strategies.hpp\<close>: bars, actions and the six
  strategies. A strategy is a record; \<^verbatim>\<open>on_bar\<close> takes the bar and the state and returns the
  action and the next state. \<^verbatim>\<open>DonchianBreakout\<close> dereferences the extremum of a deque, so its
  \<^verbatim>\<open>on_bar\<close> may be undefined (it is, for a period of zero) and returns an outcome.

  The locale \<open>crossing\<close> is the contract of the three crossing strategies (feed the
  indicators, compare, signal on a change of the comparison); SmaCross, EmaCross and MacdCross
  interpret it, and the alternation of their signals is proved once inside it.
\<close>

section \<open>Bars and actions\<close>

record bar =
  bar_time :: int
  bar_open :: f64
  bar_high :: f64
  bar_low :: f64
  bar_close :: f64
  bar_volume :: f64

text \<open>The fields of \<^verbatim>\<open>HistoricCandle\<close> that the code reads.\<close>

record historic_candle =
  hc_time_seconds :: int
  hc_open :: quotation
  hc_high :: quotation
  hc_low :: quotation
  hc_close :: quotation
  hc_volume :: int
  hc_is_complete :: bool

definition to_bar :: "historic_candle \<Rightarrow> bar cpp" where
  "to_bar c =
     cbind (decimal_of_quotation (hc_open c)) (\<lambda>op.
     cbind (decimal_of_quotation (hc_high c)) (\<lambda>hi.
     cbind (decimal_of_quotation (hc_low c)) (\<lambda>lo.
     cbind (decimal_of_quotation (hc_close c)) (\<lambda>cl.
       Inr \<lparr>bar_time = hc_time_seconds c, bar_open = to_double op, bar_high = to_double hi,
            bar_low = to_double lo, bar_close = to_double cl, bar_volume = f64_of_int (hc_volume c)\<rparr>))))"

datatype action = Hold | Buy | Sell

section \<open>SmaCross\<close>

record sma_cross =
  sc_fast :: sma
  sc_slow :: sma
  sc_label :: string
  sc_prev_above :: bool
  sc_has_prev :: bool

definition mk_sma_cross :: "int \<Rightarrow> int \<Rightarrow> sma_cross" where
  "mk_sma_cross fast slow = \<lparr>sc_fast = mk_sma fast, sc_slow = mk_sma slow,
     sc_label = ''SMA cross '' @ show_int fast @ ''/'' @ show_int slow,
     sc_prev_above = False, sc_has_prev = False\<rparr>"

definition sma_cross_on_bar :: "bar \<Rightarrow> sma_cross \<Rightarrow> action \<times> sma_cross" where
  "sma_cross_on_bar bar s =
     (let s1 = s\<lparr>sc_fast := sma_push (bar_close bar) (sc_fast s),
                 sc_slow := sma_push (bar_close bar) (sc_slow s)\<rparr> in
      if \<not> sma_ready (sc_slow s1) then (Hold, s1)
      else
        let above = sma_value (sc_slow s1) < sma_value (sc_fast s1);
            a = (if sc_has_prev s
                 then (if \<not> above \<and> sc_prev_above s then Sell
                       else if above \<and> \<not> sc_prev_above s then Buy else Hold)
                 else Hold)
        in (a, s1\<lparr>sc_prev_above := above, sc_has_prev := True\<rparr>))"

section \<open>EmaCross\<close>

record ema_cross =
  ec_fast :: ema
  ec_slow :: ema
  ec_label :: string
  ec_prev_above :: bool
  ec_has_prev :: bool

definition mk_ema_cross :: "int \<Rightarrow> int \<Rightarrow> ema_cross" where
  "mk_ema_cross fast slow = \<lparr>ec_fast = mk_ema fast, ec_slow = mk_ema slow,
     ec_label = ''EMA cross '' @ show_int fast @ ''/'' @ show_int slow,
     ec_prev_above = False, ec_has_prev = False\<rparr>"

definition ema_cross_on_bar :: "bar \<Rightarrow> ema_cross \<Rightarrow> action \<times> ema_cross" where
  "ema_cross_on_bar bar s =
     (let s1 = s\<lparr>ec_fast := ema_push (bar_close bar) (ec_fast s),
                 ec_slow := ema_push (bar_close bar) (ec_slow s)\<rparr> in
      if \<not> ema_ready (ec_slow s1) \<or> \<not> ema_ready (ec_fast s1) then (Hold, s1)
      else
        let above = ema_value (ec_slow s1) < ema_value (ec_fast s1);
            a = (if ec_has_prev s
                 then (if \<not> above \<and> ec_prev_above s then Sell
                       else if above \<and> \<not> ec_prev_above s then Buy else Hold)
                 else Hold)
        in (a, s1\<lparr>ec_prev_above := above, ec_has_prev := True\<rparr>))"

section \<open>RsiReversion\<close>

record rsi_reversion =
  rr_rsi :: rsi
  rr_lower :: f64
  rr_upper :: f64
  rr_label :: string

definition mk_rsi_reversion :: "int \<Rightarrow> f64 \<Rightarrow> f64 \<Rightarrow> rsi_reversion" where
  "mk_rsi_reversion period lower upper = \<lparr>rr_rsi = mk_rsi period, rr_lower = lower, rr_upper = upper,
     rr_label = ''RSI('' @ show_int period @ '') reversion''\<rparr>"

definition rsi_reversion_on_bar :: "bar \<Rightarrow> rsi_reversion \<Rightarrow> action \<times> rsi_reversion" where
  "rsi_reversion_on_bar bar s =
     (let s1 = s\<lparr>rr_rsi := rsi_push (bar_close bar) (rr_rsi s)\<rparr> in
      if \<not> rsi_ready (rr_rsi s1) then (Hold, s1)
      else let v = rsi_value (rr_rsi s1) in
        if v < rr_lower s1 then (Buy, s1)
        else if rr_upper s1 < v then (Sell, s1)
        else (Hold, s1))"

section \<open>BollingerReversion\<close>

record bollinger_reversion =
  br_bb :: bollinger
  br_label :: string

definition mk_bollinger_reversion :: "int \<Rightarrow> f64 \<Rightarrow> bollinger_reversion" where
  "mk_bollinger_reversion period stddev_mult = \<lparr>br_bb = mk_bollinger period stddev_mult,
     br_label = ''Bollinger('' @ show_int period @ '') reversion''\<rparr>"

definition bollinger_reversion_on_bar :: "bar \<Rightarrow> bollinger_reversion \<Rightarrow> action \<times> bollinger_reversion" where
  "bollinger_reversion_on_bar bar s =
     (let s1 = s\<lparr>br_bb := bb_push (bar_close bar) (br_bb s)\<rparr> in
      if \<not> bb_ready (br_bb s1) then (Hold, s1)
      else if bar_close bar < bb_lower (br_bb s1) then (Buy, s1)
      else if bb_middle (br_bb s1) < bar_close bar then (Sell, s1)
      else (Hold, s1))"

section \<open>MacdCross\<close>

record macd_cross =
  mc_macd :: macd
  mc_label :: string
  mc_prev_positive :: bool
  mc_has_prev :: bool

definition mk_macd_cross :: "int \<Rightarrow> int \<Rightarrow> int \<Rightarrow> macd_cross" where
  "mk_macd_cross fast slow signal = \<lparr>mc_macd = mk_macd fast slow signal,
     mc_label = ''MACD '' @ show_int fast @ ''/'' @ show_int slow @ ''/'' @ show_int signal,
     mc_prev_positive = False, mc_has_prev = False\<rparr>"

definition macd_cross_on_bar :: "bar \<Rightarrow> macd_cross \<Rightarrow> action \<times> macd_cross" where
  "macd_cross_on_bar bar s =
     (let s1 = s\<lparr>mc_macd := macd_push (bar_close bar) (mc_macd s)\<rparr> in
      if \<not> macd_ready (mc_macd s1) then (Hold, s1)
      else
        let positive = 0 < macd_histogram (mc_macd s1);
            a = (if mc_has_prev s
                 then (if \<not> positive \<and> mc_prev_positive s then Sell
                       else if positive \<and> \<not> mc_prev_positive s then Buy else Hold)
                 else Hold)
        in (a, s1\<lparr>mc_prev_positive := positive, mc_has_prev := True\<rparr>))"

section \<open>DonchianBreakout\<close>

record donchian_breakout =
  db_entry :: donchian
  db_exit :: donchian
  db_label :: string

definition mk_donchian_breakout :: "int \<Rightarrow> int \<Rightarrow> donchian_breakout" where
  "mk_donchian_breakout entry exit = \<lparr>db_entry = mk_donchian entry, db_exit = mk_donchian exit,
     db_label = ''Donchian breakout '' @ show_int entry @ ''/'' @ show_int exit\<rparr>"

text \<open>Each conjunct is evaluated from left to right and stops at a false one.\<close>

definition breaks_up :: "bar \<Rightarrow> donchian \<Rightarrow> bool cpp" where
  "breaks_up bar d =
     (if dc_ready d then cbind (dc_upper d) (\<lambda>u. Inr (u < bar_close bar)) else Inr False)"

definition breaks_down :: "bar \<Rightarrow> donchian \<Rightarrow> bool cpp" where
  "breaks_down bar d =
     (if dc_ready d then cbind (dc_lower d) (\<lambda>l. Inr (bar_close bar < l)) else Inr False)"

definition donchian_breakout_on_bar :: "bar \<Rightarrow> donchian_breakout \<Rightarrow> (action \<times> donchian_breakout) cpp" where
  "donchian_breakout_on_bar bar s =
     cbind (breaks_up bar (db_entry s)) (\<lambda>up.
     cbind (breaks_down bar (db_exit s)) (\<lambda>down.
       let a = (if down then Sell else if up then Buy else Hold) in
       Inr (a, s\<lparr>db_entry := dc_push (bar_high bar, bar_low bar) (db_entry s),
                 db_exit := dc_push (bar_high bar, bar_low bar) (db_exit s)\<rparr>)))"

section \<open>The strategy interface\<close>

text \<open>The subclasses of \<^verbatim>\<open>Strategy\<close> and the dispatch of its virtual members.\<close>

datatype strategy =
    SmaCross sma_cross
  | EmaCross ema_cross
  | RsiReversion rsi_reversion
  | BollingerReversion bollinger_reversion
  | MacdCross macd_cross
  | DonchianBreakout donchian_breakout

primrec on_bar :: "strategy \<Rightarrow> bar \<Rightarrow> (action \<times> strategy) cpp" where
  "on_bar (SmaCross s) b = Inr (apsnd SmaCross (sma_cross_on_bar b s))"
| "on_bar (EmaCross s) b = Inr (apsnd EmaCross (ema_cross_on_bar b s))"
| "on_bar (RsiReversion s) b = Inr (apsnd RsiReversion (rsi_reversion_on_bar b s))"
| "on_bar (BollingerReversion s) b = Inr (apsnd BollingerReversion (bollinger_reversion_on_bar b s))"
| "on_bar (MacdCross s) b = Inr (apsnd MacdCross (macd_cross_on_bar b s))"
| "on_bar (DonchianBreakout s) b =
     cbind (donchian_breakout_on_bar b s) (\<lambda>r. Inr (apsnd DonchianBreakout r))"

primrec strategy_name :: "strategy \<Rightarrow> string" where
  "strategy_name (SmaCross s) = sc_label s"
| "strategy_name (EmaCross s) = ec_label s"
| "strategy_name (RsiReversion s) = rr_label s"
| "strategy_name (BollingerReversion s) = br_label s"
| "strategy_name (MacdCross s) = mc_label s"
| "strategy_name (DonchianBreakout s) = db_label s"

section \<open>Runs\<close>

text \<open>The actions of a strategy on a sequence of bars, and its final state.\<close>

fun run_bars :: "(bar \<Rightarrow> 's \<Rightarrow> action \<times> 's) \<Rightarrow> bar list \<Rightarrow> 's \<Rightarrow> action list \<times> 's" where
  "run_bars step [] s = ([], s)"
| "run_bars step (b # bs) s =
     (let (a, s1) = step b s; (as, s2) = run_bars step bs s1 in (a # as, s2))"

lemma run_bars_view [simp]:
  "fst (run_bars step (b # bs) s) = fst (step b s) # fst (run_bars step bs (snd (step b s)))"
  "snd (run_bars step (b # bs) s) = snd (run_bars step bs (snd (step b s)))"
  by (simp_all add: case_prod_beta Let_def)

declare run_bars.simps(2) [simp del]

lemma run_bars_snoc [simp]:
  "fst (run_bars step (bs @ [b]) s) = fst (run_bars step bs s) @ [fst (step b (snd (run_bars step bs s)))]"
  "snd (run_bars step (bs @ [b]) s) = snd (step b (snd (run_bars step bs s)))"
  by (induction bs arbitrary: s) simp_all

lemma length_run_bars [simp]: "length (fst (run_bars step bs s)) = length bs"
  by (induction bs arbitrary: s) simp_all

section \<open>Crossing strategies\<close>

definition cross_action :: "bool \<Rightarrow> bool \<Rightarrow> bool \<Rightarrow> action" where
  "cross_action had before now =
     (if had \<and> before \<and> \<not> now then Sell else if had \<and> \<not> before \<and> now then Buy else Hold)"

locale crossing =
  fixes step :: "bar \<Rightarrow> 's \<Rightarrow> action \<times> 's"
    and core :: "'s \<Rightarrow> 'c"
    and feed :: "bar \<Rightarrow> 'c \<Rightarrow> 'c"
    and rdy :: "'c \<Rightarrow> bool"
    and above :: "'c \<Rightarrow> bool"
    and has :: "'s \<Rightarrow> bool"
    and prev :: "'s \<Rightarrow> bool"
  assumes core_step: "core (snd (step b s)) = feed b (core s)"
    and rdy_feed: "rdy c \<Longrightarrow> rdy (feed b c)"
    and has_step: "has (snd (step b s)) \<longleftrightarrow> has s \<or> rdy (feed b (core s))"
    and prev_step: "prev (snd (step b s)) \<longleftrightarrow>
      (if rdy (feed b (core s)) then above (feed b (core s)) else prev s)"
    and action_step: "fst (step b s) =
      (if rdy (feed b (core s)) then cross_action (has s) (prev s) (above (feed b (core s))) else Hold)"
begin

definition synced :: "'s \<Rightarrow> bool" where
  "synced s \<longleftrightarrow> (has s \<longleftrightarrow> rdy (core s)) \<and> (has s \<longrightarrow> (prev s \<longleftrightarrow> above (core s)))"

lemma synced_step: "synced s \<Longrightarrow> synced (snd (step b s))"
  using rdy_feed by (auto simp: synced_def core_step has_step prev_step)

lemma run_core: "core (snd (run_bars step bs s)) = fold feed bs (core s)"
  by (induction bs arbitrary: s) (simp_all add: core_step)

lemma run_synced: "synced s \<Longrightarrow> synced (snd (run_bars step bs s))"
  by (induction bs arbitrary: s) (simp_all add: synced_step)

lemma action_synced:
  "synced s \<Longrightarrow> fst (step b s) = cross_action (rdy (core s)) (above (core s)) (above (feed b (core s)))"
  using rdy_feed [of "core s" b] by (auto simp: synced_def action_step cross_action_def)

lemma last_action:
  assumes "synced s"
  shows "fst (run_bars step (bs @ [b]) s) = fst (run_bars step bs s)
    @ [cross_action (rdy (fold feed bs (core s))) (above (fold feed bs (core s)))
         (above (feed b (fold feed bs (core s))))]"
  using action_synced [OF run_synced [OF assms], of b bs] run_core [of bs s]
  by simp

lemma signals_alternate:
  assumes "synced s"
  shows "let sig = filter (\<lambda>a. a \<noteq> Hold) (fst (run_bars step bs s)) in
    successively (\<noteq>) sig \<and> (sig \<noteq> [] \<longrightarrow> last sig = (if above (fold feed bs (core s)) then Buy else Sell))
    \<and> (sig \<noteq> [] \<longrightarrow> rdy (fold feed bs (core s)))"
proof (induction bs rule: rev_induct)
  case (snoc b bs)
  let ?c = "fold feed bs (core s)" and ?sig = "filter (\<lambda>a. a \<noteq> Hold) (fst (run_bars step bs s))"
  have IH: "successively (\<noteq>) ?sig" "?sig \<noteq> [] \<Longrightarrow> last ?sig = (if above ?c then Buy else Sell)"
    "?sig \<noteq> [] \<Longrightarrow> rdy ?c" using snoc by (simp_all add: Let_def)
  note la = last_action [OF assms, of bs b]
  show ?case
  proof (cases "cross_action (rdy ?c) (above ?c) (above (feed b ?c)) = Hold")
    case True
    then have same: "?sig \<noteq> [] \<Longrightarrow> above (feed b ?c) \<longleftrightarrow> above ?c"
      using IH(3) by (auto simp: cross_action_def split: if_splits)
    show ?thesis using IH same rdy_feed [of ?c b] True by (simp add: la Let_def del: run_bars_snoc)
  next
    case False
    then show ?thesis
      using IH rdy_feed [of ?c b]
      by (auto simp: la Let_def successively_append_iff cross_action_def simp del: run_bars_snoc split: if_splits)
  qed
qed simp

lemma quiet_before_ready:
  assumes "synced s" "\<not> rdy (fold feed (butlast bs) (core s))"
  shows "set (fst (run_bars step bs s)) \<subseteq> {Hold}"
  using assms(2)
proof (induction bs rule: rev_induct)
  case (snoc b bs)
  have "\<not> rdy (fold feed (butlast bs) (core s))"
  proof
    assume r: "rdy (fold feed (butlast bs) (core s))"
    show False
    proof (cases "bs = []")
      case False
      then have "fold feed bs (core s) = feed (last bs) (fold feed (butlast bs) (core s))"
        using fold_append [of feed "butlast bs" "[last bs]"] by simp
      with rdy_feed [OF r] snoc.prems show False by simp
    qed (use r snoc.prems in simp)
  qed
  from snoc.IH [OF this] snoc.prems show ?case by (simp add: last_action [OF assms(1)] cross_action_def del: run_bars_snoc)
qed simp

end

lemma sma_ready_push: "sma_ready s \<Longrightarrow> sma_ready (sma_push v s)"
  by (simp add: sma_ready_def sma_push_def Let_def)

lemma ema_ready_push: "ema_ready e \<Longrightarrow> ema_ready (ema_push v e)"
  by (simp add: ema_ready_def ema_push_def)

lemma macd_ready_push: "macd_ready m \<Longrightarrow> macd_ready (macd_push v m)"
  by (simp add: macd_ready_def macd_push_def Let_def ema_ready_push)

interpretation sma_x: crossing sma_cross_on_bar "\<lambda>s. (sc_fast s, sc_slow s)"
    "\<lambda>b. map_prod (sma_push (bar_close b)) (sma_push (bar_close b))"
    "\<lambda>c. sma_ready (snd c)" "\<lambda>c. sma_value (snd c) < sma_value (fst c)" sc_has_prev sc_prev_above
  by unfold_locales (auto simp: sma_cross_on_bar_def Let_def cross_action_def sma_ready_push)

interpretation ema_x: crossing ema_cross_on_bar "\<lambda>s. (ec_fast s, ec_slow s)"
    "\<lambda>b. map_prod (ema_push (bar_close b)) (ema_push (bar_close b))"
    "\<lambda>c. ema_ready (snd c) \<and> ema_ready (fst c)" "\<lambda>c. ema_value (snd c) < ema_value (fst c)"
    ec_has_prev ec_prev_above
  by unfold_locales (auto simp: ema_cross_on_bar_def Let_def cross_action_def ema_ready_push)

interpretation macd_x: crossing macd_cross_on_bar mc_macd "\<lambda>b. macd_push (bar_close b)"
    macd_ready "\<lambda>m. 0 < macd_histogram m" mc_has_prev mc_prev_positive
  by unfold_locales (auto simp: macd_cross_on_bar_def Let_def cross_action_def macd_ready_push)

lemma fold_map_prod: "fold (\<lambda>b. map_prod (f b) (g b)) bs (x, y) = (fold f bs x, fold g bs y)"
  by (induction bs arbitrary: x y) simp_all

lemma fold_closes: "fold (\<lambda>b. f (bar_close b)) bs x = fold f (map bar_close bs) x"
  by (simp add: fold_map comp_def)

lemma fresh_synced:
  "0 < s \<Longrightarrow> fits 32 s \<Longrightarrow> sma_x.synced (mk_sma_cross f s)"
  "ema_x.synced (mk_ema_cross f s)"
  "macd_x.synced (mk_macd_cross f s g)"
  using fits32_period [of s]
  unfolding sma_x.synced_def ema_x.synced_def macd_x.synced_def
  by (simp_all add: mk_sma_cross_def mk_ema_cross_def
      mk_macd_cross_def sma_ready_def mk_sma_def ema_ready_def mk_ema_def macd_ready_def mk_macd_def)

text \<open>The comparisons, on a history of closing prices.\<close>

definition sma_above :: "int \<Rightarrow> int \<Rightarrow> f64 list \<Rightarrow> bool" where
  "sma_above f s xs \<longleftrightarrow> sma_value (fold sma_push xs (mk_sma s)) < sma_value (fold sma_push xs (mk_sma f))"

definition ema_above :: "int \<Rightarrow> int \<Rightarrow> f64 list \<Rightarrow> bool" where
  "ema_above f s xs \<longleftrightarrow> ema_value (fold ema_push xs (mk_ema s)) < ema_value (fold ema_push xs (mk_ema f))"

definition macd_positive :: "int \<Rightarrow> int \<Rightarrow> int \<Rightarrow> f64 list \<Rightarrow> bool" where
  "macd_positive f s g xs \<longleftrightarrow> 0 < macd_histogram (fold macd_push xs (mk_macd f s g))"

text \<open>
  C37: on every history the crossing strategies signal exactly the crosses: the action on a bar
  is Buy when the fast line is above the slow one now and was not on the bar before, Sell on the
  opposite change, and Hold otherwise and as long as the bar before was still in the warm-up.
\<close>

theorem crossing_signals:
  assumes "\<forall>p\<in>{f, s, g}. fits 32 p \<and> 0 < p"
  shows "let xs = map bar_close bs; ys = map bar_close (bs @ [b]) in
    last (fst (run_bars sma_cross_on_bar (bs @ [b]) (mk_sma_cross f s)))
      = cross_action (nat s \<le> length bs) (sma_above f s xs) (sma_above f s ys)
    \<and> last (fst (run_bars ema_cross_on_bar (bs @ [b]) (mk_ema_cross f s)))
      = cross_action (max (nat f) (nat s) \<le> length bs) (ema_above f s xs) (ema_above f s ys)
    \<and> last (fst (run_bars macd_cross_on_bar (bs @ [b]) (mk_macd_cross f s g)))
      = cross_action (max (nat f) (nat s) + nat g - 1 \<le> length bs) (macd_positive f s g xs) (macd_positive f s g ys)"
proof -
  let ?xs = "map bar_close bs"
  have s: "0 < s" "fits 32 s" using assms by simp_all
  have "\<forall>p\<in>{s, f, s, g}. fits 32 p \<and> 0 < p" "\<forall>p\<in>{f, f, s, g}. fits 32 p \<and> 0 < p" using assms by auto
  note r = ready_counts [OF this(1), where xs = ?xs] ready_counts [OF this(2), where xs = ?xs]
  show ?thesis
    unfolding Let_def sma_x.last_action [OF fresh_synced(1) [OF s]] ema_x.last_action [OF fresh_synced(2)]
      macd_x.last_action [OF fresh_synced(3)]
    using r
    by (simp add: mk_sma_cross_def mk_ema_cross_def mk_macd_cross_def fold_map_prod fold_closes
        sma_above_def ema_above_def macd_positive_def conj_commute del: run_bars_snoc)
qed

theorem crossing_signals_witness:
  "last (fst (run_bars sma_cross_on_bar
      (map (\<lambda>c. \<lparr>bar_time = 0, bar_open = c, bar_high = c, bar_low = c, bar_close = c, bar_volume = 0\<rparr>)
        [Fin 3, Fin 1, Fin 4]) (mk_sma_cross 1 2))) = Buy"
proof -
  let ?b = "\<lambda>c. \<lparr>bar_time = 0, bar_open = c, bar_high = c, bar_low = c, bar_close = c, bar_volume = 0\<rparr>"
  have h: "\<forall>p\<in>{1, 2, 1}. fits 32 p \<and> 0 < p" by (simp add: fits32_iff)
  have "fl (5 / 2) = Fin (5 / 2)" using fl_dyadic [of 5 1] by simp
  then have "\<not> sma_above 1 2 [Fin 3, Fin 1] \<and> sma_above 1 2 [Fin 3, Fin 1, Fin 4]"
    by (simp add: sma_above_def mk_sma_def sma_push_def sma_value_def size_double_def period_size_def
        f64_ops f64_of_int_def)
  then show ?thesis
    using crossing_signals [OF h, of "map ?b [Fin 3, Fin 1]" "?b (Fin 4)"]
    by (simp add: Let_def cross_action_def)
qed

text \<open>
  The signals of the crossing strategies alternate: between two buys there is a sell and
  between two sells a buy, on every sequence of bars.
\<close>

lemma crossing_alternates:
  assumes "fits 32 s" "0 < s"
  shows "successively (\<noteq>) (filter (\<lambda>a. a \<noteq> Hold) (fst (run_bars sma_cross_on_bar bs (mk_sma_cross f s))))
    \<and> successively (\<noteq>) (filter (\<lambda>a. a \<noteq> Hold) (fst (run_bars ema_cross_on_bar bs (mk_ema_cross f s))))
    \<and> successively (\<noteq>) (filter (\<lambda>a. a \<noteq> Hold) (fst (run_bars macd_cross_on_bar bs (mk_macd_cross f s g))))"
  using sma_x.signals_alternate [OF fresh_synced(1) [OF assms(2,1)], of bs f]
    ema_x.signals_alternate [OF fresh_synced(2), of bs f s] macd_x.signals_alternate [OF fresh_synced(3), of bs f s g]
  by (simp only: Let_def)

section \<open>The breakout rules\<close>

text \<open>Runs of a strategy whose \<^verbatim>\<open>on_bar\<close> may be undefined.\<close>

fun run_strategy :: "(bar \<Rightarrow> 's \<Rightarrow> (action \<times> 's) cpp) \<Rightarrow> bar list \<Rightarrow> 's \<Rightarrow> (action list \<times> 's) cpp" where
  "run_strategy step [] s = Inr ([], s)"
| "run_strategy step (b # bs) s =
     cbind (step b s) (\<lambda>r. cbind (run_strategy step bs (snd r)) (\<lambda>q. Inr (fst r # fst q, snd q)))"

lemma run_strategy_snoc:
  "run_strategy step (bs @ [b]) s =
     cbind (run_strategy step bs s) (\<lambda>q. cbind (step b (snd q)) (\<lambda>r. Inr (fst q @ [fst r], snd r)))"
proof (induction bs arbitrary: s)
  case Nil
  then show ?case by (cases "step b s") simp_all
next
  case (Cons a bs)
  then show ?case
    by (cases "step a s"; simp) (cases "run_strategy step bs (snd (projr (step a s)))"; simp add: cbind_def split: sum.splits)
qed

lemma run_strategy_length: "run_strategy step bs s = Inr (as, s') \<Longrightarrow> length as = length bs"
  by (induction bs arbitrary: s as) (auto simp: cbind_eq_Inr_iff)

lemma f64_le_less_trans: "u \<noteq> NaN \<Longrightarrow> v \<noteq> NaN \<Longrightarrow> \<not> u < v \<Longrightarrow> u < c \<Longrightarrow> v < (c :: f64)"
  by (cases u; cases v; cases c) (auto simp: f64_ops)

lemma f64_less_le_trans: "l \<noteq> NaN \<Longrightarrow> v \<noteq> NaN \<Longrightarrow> \<not> v < l \<Longrightarrow> c < l \<Longrightarrow> c < (v :: f64)"
  by (cases l; cases v; cases c) (auto simp: f64_ops)

definition bar_range :: "bar \<Rightarrow> f64 \<times> f64" where
  "bar_range b = (bar_high b, bar_low b)"

lemma donchian_history:
  assumes "0 < p" "fits 32 p"
  shows "dc_highs (fold dc_push (map bar_range bs) (mk_donchian p)) = map bar_high (last_n (nat p) bs)"
    "dc_lows (fold dc_push (map bar_range bs) (mk_donchian p)) = map bar_low (last_n (nat p) bs)"
    "dc_ready (fold dc_push (map bar_range bs) (mk_donchian p)) \<longleftrightarrow> nat p \<le> length bs"
proof -
  show "dc_highs (fold dc_push (map bar_range bs) (mk_donchian p)) = map bar_high (last_n (nat p) bs)"
    "dc_lows (fold dc_push (map bar_range bs) (mk_donchian p)) = map bar_low (last_n (nat p) bs)"
    using donchian_windows [of "map bar_range bs" p] fits32_period [OF assms(2,1)]
    by (simp_all add: map_last_n bar_range_def comp_def)
  show "dc_ready (fold dc_push (map bar_range bs) (mk_donchian p)) \<longleftrightarrow> nat p \<le> length bs"
    using ready_counts [of p p p p "[]" _ "map bar_range bs"] assms by simp
qed

lemma breaks_history:
  assumes "0 < p" "fits 32 p" "\<forall>b\<in>set bs. bar_high b \<noteq> NaN \<and> bar_low b \<noteq> NaN"
  shows "breaks_up b (fold dc_push (map bar_range bs) (mk_donchian p))
      = Inr (nat p \<le> length bs \<and> (\<forall>q\<in>set (last_n (nat p) bs). bar_high q < bar_close b))"
    "breaks_down b (fold dc_push (map bar_range bs) (mk_donchian p))
      = Inr (nat p \<le> length bs \<and> (\<forall>q\<in>set (last_n (nat p) bs). bar_close b < bar_low q))"
proof -
  let ?w = "last_n (nat p) bs"
  note h = donchian_history [OF assms(1,2), of bs]
  have nn: "NaN \<notin> bar_high ` set ?w" "NaN \<notin> bar_low ` set ?w" using assms(3) set_last_n [of "nat p" bs] by force+
  have ne: "?w \<noteq> []" if "nat p \<le> length bs"
  proof -
    have "length ?w = nat p" using that by simp
    then show ?thesis using assms(1) by (metis list.size(3) zero_less_nat_eq less_irrefl)
  qed
  show "breaks_up b (fold dc_push (map bar_range bs) (mk_donchian p))
      = Inr (nat p \<le> length bs \<and> (\<forall>q\<in>set ?w. bar_high q < bar_close b))"
  proof (cases "nat p \<le> length bs")
    case True
    then obtain u where u: "max_element (map bar_high ?w) = Inr u" "u \<in> bar_high ` set ?w"
      "\<forall>v\<in>bar_high ` set ?w. \<not> u < v"
      using max_element_spec [of "map bar_high ?w"] ne nn(1) by auto
    have "u < bar_close b \<longleftrightarrow> (\<forall>q\<in>set ?w. bar_high q < bar_close b)"
      using u(2,3) nn(1) f64_le_less_trans [of u] by (metis (no_types, lifting) image_iff)
    then show ?thesis using True u(1) by (simp add: breaks_up_def h dc_upper_def)
  qed (simp add: breaks_up_def h)
  show "breaks_down b (fold dc_push (map bar_range bs) (mk_donchian p))
      = Inr (nat p \<le> length bs \<and> (\<forall>q\<in>set ?w. bar_close b < bar_low q))"
  proof (cases "nat p \<le> length bs")
    case True
    then obtain l where l: "min_element (map bar_low ?w) = Inr l" "l \<in> bar_low ` set ?w"
      "\<forall>v\<in>bar_low ` set ?w. \<not> v < l"
      using min_element_spec [of "map bar_low ?w"] ne nn(2) by auto
    have "bar_close b < l \<longleftrightarrow> (\<forall>q\<in>set ?w. bar_close b < bar_low q)"
      using l(2,3) nn(2) f64_less_le_trans [of l] by (metis (no_types, lifting) image_iff)
    then show ?thesis using True l(1) by (simp add: breaks_down_def h dc_lower_def)
  qed (simp add: breaks_down_def h)
qed

text \<open>The turtle rules on the bars before the current one, an exit taking precedence.\<close>

definition breakout_rule :: "int \<Rightarrow> int \<Rightarrow> bar list \<Rightarrow> bar \<Rightarrow> action" where
  "breakout_rule e x hist b =
     (if nat x \<le> length hist \<and> (\<forall>q\<in>set (last_n (nat x) hist). bar_close b < bar_low q) then Sell
      else if nat e \<le> length hist \<and> (\<forall>q\<in>set (last_n (nat e) hist). bar_high q < bar_close b) then Buy
      else Hold)"

lemma donchian_run:
  assumes "0 < e" "fits 32 e" "0 < x" "fits 32 x" "\<forall>b\<in>set bs. bar_high b \<noteq> NaN \<and> bar_low b \<noteq> NaN"
  shows "\<exists>as. run_strategy donchian_breakout_on_bar bs (mk_donchian_breakout e x)
      = Inr (as, (mk_donchian_breakout e x)\<lparr>db_entry := fold dc_push (map bar_range bs) (mk_donchian e),
          db_exit := fold dc_push (map bar_range bs) (mk_donchian x)\<rparr>)
    \<and> length as = length bs \<and> (\<forall>i<length bs. as ! i = breakout_rule e x (take i bs) (bs ! i))"
  using assms(5)
proof (induction bs rule: rev_induct)
  case Nil
  then show ?case by (simp add: mk_donchian_breakout_def)
next
  case (snoc b bs)
  then obtain as where IH: "run_strategy donchian_breakout_on_bar bs (mk_donchian_breakout e x)
      = Inr (as, (mk_donchian_breakout e x)\<lparr>db_entry := fold dc_push (map bar_range bs) (mk_donchian e),
          db_exit := fold dc_push (map bar_range bs) (mk_donchian x)\<rparr>)"
    "length as = length bs" "\<forall>i<length bs. as ! i = breakout_rule e x (take i bs) (bs ! i)" by auto
  have hist: "\<forall>b\<in>set bs. bar_high b \<noteq> NaN \<and> bar_low b \<noteq> NaN" using snoc.prems by simp
  have "run_strategy donchian_breakout_on_bar (bs @ [b]) (mk_donchian_breakout e x)
      = Inr (as @ [breakout_rule e x bs b], (mk_donchian_breakout e x)
          \<lparr>db_entry := fold dc_push (map bar_range (bs @ [b])) (mk_donchian e),
           db_exit := fold dc_push (map bar_range (bs @ [b])) (mk_donchian x)\<rparr>)"
    using breaks_history(1) [OF assms(1,2) hist, of b] breaks_history(2) [OF assms(3,4) hist, of b]
    by (simp add: run_strategy_snoc IH(1) donchian_breakout_on_bar_def breakout_rule_def bar_range_def)
  then show ?case
    using IH(2,3) by (intro exI [of _ "as @ [breakout_rule e x bs b]"]) (auto simp: nth_append less_Suc_eq)
qed

text \<open>
  C13: DonchianBreakout with positive periods never reads an empty window and follows the
  breakout rules on every bar: it sells a close below every low of the previous \<open>exit\<close> bars,
  buys a close above every high of the previous \<open>entry\<close> bars, and holds otherwise and while the
  history is shorter than the window; the current bar never takes part in its own comparison.
\<close>

theorem donchian_breakout_rules:
  assumes "0 < e" "fits 32 e" "0 < x" "fits 32 x" "\<forall>b\<in>set bs. bar_high b \<noteq> NaN \<and> bar_low b \<noteq> NaN"
  shows "\<exists>as s. run_strategy donchian_breakout_on_bar bs (mk_donchian_breakout e x) = Inr (as, s)
    \<and> length as = length bs \<and> (\<forall>i<length bs. as ! i = breakout_rule e x (take i bs) (bs ! i))"
  using donchian_run [OF assms] by blast

theorem donchian_breakout_rules_witness:
  "\<exists>s. run_strategy donchian_breakout_on_bar
      [\<lparr>bar_time = 0, bar_open = Fin 5, bar_high = Fin 6, bar_low = Fin 4, bar_close = Fin 5, bar_volume = 0\<rparr>,
       \<lparr>bar_time = 1, bar_open = Fin 5, bar_high = Fin 8, bar_low = Fin 5, bar_close = Fin 7, bar_volume = 0\<rparr>,
       \<lparr>bar_time = 2, bar_open = Fin 7, bar_high = Fin 7, bar_low = Fin 1, bar_close = Fin 2, bar_volume = 0\<rparr>]
      (mk_donchian_breakout 1 2) = Inr ([Hold, Buy, Sell], s)"
proof -
  let ?bs = "[\<lparr>bar_time = 0, bar_open = Fin 5, bar_high = Fin 6, bar_low = Fin 4, bar_close = Fin 5, bar_volume = 0\<rparr>,
    \<lparr>bar_time = 1, bar_open = Fin 5, bar_high = Fin 8, bar_low = Fin 5, bar_close = Fin 7, bar_volume = 0\<rparr>,
    \<lparr>bar_time = 2, bar_open = Fin 7, bar_high = Fin 7, bar_low = Fin 1, bar_close = Fin 2, bar_volume = 0\<rparr>]"
  obtain as s where r: "run_strategy donchian_breakout_on_bar ?bs (mk_donchian_breakout 1 2) = Inr (as, s)"
    "length as = 3" "\<forall>i<3. as ! i = breakout_rule 1 2 (take i ?bs) (?bs ! i)"
    using donchian_breakout_rules [of 1 2 ?bs] by (auto simp: fits32_iff numeral_3_eq_3)
  have "as ! 0 = Hold" "as ! 1 = Buy" "as ! 2 = Sell"
    using r(3) by (simp_all add: breakout_rule_def last_n_def f64_ops numeral_2_eq_2)
  then have "as = [Hold, Buy, Sell]"
    using r(2) by (intro nth_equalityI) (auto simp: less_Suc_eq numeral_3_eq_3 numeral_2_eq_2)
  then show ?thesis using r(1) by blast
qed

end
