(* ===== verification/Backtest.thy ===== *)
theory Backtest
  imports Strategies
begin

text \<open>
  \<^verbatim>\<open>include/tinvest/algo/backtest.hpp\<close>: the long-only backtester. The strategy is a parameter
  of the run, as it is in the code (an abstract class): its \<^verbatim>\<open>name\<close> and its \<^verbatim>\<open>on_bar\<close>, a
  function of the bar and the strategy's state that may be undefined. The loop over the bars is
  \<open>bt_run\<close>, its local variables the record \<open>bt_state\<close>.

  The theorems relate the report to the sequence of actions the strategy gave: the trade log is
  the list of its round trips, a strategy that never buys leaves the report flat, and the
  percentages stay in their ranges whatever the prices are.
\<close>

section \<open>Model\<close>

record trade_record =
  entry_time :: int
  exit_time :: int
  entry_price :: f64
  exit_price :: f64
  return_pct :: f64

record backtest_report =
  rep_strategy :: string
  rep_bars :: int
  rep_trades :: int
  total_return_pct :: f64
  buy_hold_return_pct :: f64
  max_drawdown_pct :: f64
  sharpe :: f64
  win_rate_pct :: f64
  trade_log :: "trade_record list"

definition empty_report :: backtest_report where
  "empty_report = \<lparr>rep_strategy = [], rep_bars = 0, rep_trades = 0, total_return_pct = 0,
     buy_hold_return_pct = 0, max_drawdown_pct = 0, sharpe = 0, win_rate_pct = 0, trade_log = []\<rparr>"

text \<open>The local variables of \<^verbatim>\<open>run_backtest\<close> that the loop changes.\<close>

record bt_state =
  bt_equity :: f64
  bt_peak :: f64
  bt_long :: bool
  bt_entry_price :: f64
  bt_entry_time :: int
  bt_prev_close :: f64
  bt_returns :: "f64 list"
  bt_drawdown :: f64
  bt_log :: "trade_record list"

definition bt_init :: "bar \<Rightarrow> bt_state" where
  "bt_init front = \<lparr>bt_equity = 1, bt_peak = 1, bt_long = False, bt_entry_price = 0, bt_entry_time = 0,
     bt_prev_close = bar_close front, bt_returns = [], bt_drawdown = 0, bt_log = []\<rparr>"

definition mark_to_market :: "bar \<Rightarrow> bt_state \<Rightarrow> bt_state" where
  "mark_to_market b t =
     (if bt_long t \<and> 0 < bt_prev_close t
      then t\<lparr>bt_equity := bt_equity t * (bar_close b / bt_prev_close t)\<rparr> else t)"

definition closing_trade :: "f64 \<Rightarrow> bar \<Rightarrow> bt_state \<Rightarrow> trade_record" where
  "closing_trade fee b t =
     \<lparr>entry_time = bt_entry_time t, exit_time = bar_time b, entry_price = bt_entry_price t,
      exit_price = bar_close b,
      return_pct = (bar_close b / bt_entry_price t * (1 - fee) * (1 - fee) - 1) * Fin 100\<rparr>"

definition fill :: "f64 \<Rightarrow> bar \<Rightarrow> action \<Rightarrow> bt_state \<Rightarrow> bt_state" where
  "fill fee b a t =
     (if a = Buy \<and> \<not> bt_long t
      then t\<lparr>bt_long := True, bt_entry_price := bar_close b, bt_entry_time := bar_time b,
             bt_equity := bt_equity t * (1 - fee)\<rparr>
      else if a = Sell \<and> bt_long t
      then t\<lparr>bt_long := False, bt_equity := bt_equity t * (1 - fee),
             bt_log := bt_log t @ [closing_trade fee b t]\<rparr>
      else t)"

definition record_bar :: "f64 \<Rightarrow> bar \<Rightarrow> bt_state \<Rightarrow> bt_state" where
  "record_bar prev_equity b t =
     (let peak = fmax (bt_peak t) (bt_equity t) in
      t\<lparr>bt_returns := (if 0 < prev_equity then bt_returns t @ [bt_equity t / prev_equity - 1] else bt_returns t),
        bt_peak := peak,
        bt_drawdown := fmax (bt_drawdown t) ((peak - bt_equity t) / peak * Fin 100),
        bt_prev_close := bar_close b\<rparr>)"

definition bt_bar :: "f64 \<Rightarrow> bar \<Rightarrow> action \<Rightarrow> bt_state \<Rightarrow> bt_state" where
  "bt_bar fee b a t = record_bar (bt_equity t) b (fill fee b a (mark_to_market b t))"

fun bt_run :: "(bar \<Rightarrow> 's \<Rightarrow> (action \<times> 's) cpp) \<Rightarrow> f64 \<Rightarrow> bar list \<Rightarrow> 's \<Rightarrow> bt_state \<Rightarrow> (bt_state \<times> 's) cpp" where
  "bt_run step fee [] s t = Inr (t, s)"
| "bt_run step fee (b # bs) s t =
     cbind (step b s) (\<lambda>r. bt_run step fee bs (snd r) (bt_bar fee b (fst r) t))"

definition close_open :: "f64 \<Rightarrow> bar \<Rightarrow> bt_state \<Rightarrow> bt_state" where
  "close_open fee b t =
     (if bt_long t
      then t\<lparr>bt_equity := bt_equity t * (1 - fee), bt_log := bt_log t @ [closing_trade fee b t]\<rparr>
      else t)"

definition count_wins :: "trade_record list \<Rightarrow> int" where
  "count_wins ts = foldl (\<lambda>w t. if 0 < return_pct t then w + 1 else w) 0 ts"

definition sharpe_of :: "f64 \<Rightarrow> f64 list \<Rightarrow> f64" where
  "sharpe_of annualization rs =
     (if length rs > 1
      then
        let n = f64_of_int (int (length rs));
            mean = foldl (\<lambda>m r. m + r) 0 rs / n;
            var = foldl (\<lambda>v r. v + (r - mean) * (r - mean)) 0 rs / f64_of_int (int (length rs) - 1);
            sd = fsqrt var
        in if 0 < sd then mean / sd * fsqrt annualization else 0
      else 0)"

definition bt_report :: "string \<Rightarrow> f64 \<Rightarrow> f64 \<Rightarrow> bar list \<Rightarrow> bt_state \<Rightarrow> backtest_report" where
  "bt_report nm fee annualization bars t =
     (let t1 = close_open fee (last bars) t;
          trades = narrow 32 (int (length (bt_log t1)))
      in \<lparr>rep_strategy = nm, rep_bars = narrow 32 (int (length bars)), rep_trades = trades,
          total_return_pct = (bt_equity t1 - 1) * Fin 100,
          buy_hold_return_pct = (bar_close (last bars) / bar_close (hd bars) - 1) * Fin 100,
          max_drawdown_pct = bt_drawdown t1,
          sharpe = sharpe_of annualization (bt_returns t1),
          win_rate_pct = (if trades \<noteq> 0 then Fin 100 * f64_of_int (count_wins (bt_log t1)) / f64_of_int trades else 0),
          trade_log = bt_log t1\<rparr>)"

definition run_backtest ::
  "('s \<Rightarrow> string) \<Rightarrow> (bar \<Rightarrow> 's \<Rightarrow> (action \<times> 's) cpp) \<Rightarrow> 's \<Rightarrow> bar list \<Rightarrow> f64 \<Rightarrow> f64
     \<Rightarrow> (backtest_report \<times> 's) cpp" where
  "run_backtest nm step s bars commission_pct annualization =
     (if length bars < 2
      then Inr (empty_report\<lparr>rep_strategy := nm s, rep_bars := narrow 32 (int (length bars))\<rparr>, s)
      else
        let fee = commission_pct / Fin 100 in
        cbind (bt_run step fee bars s (bt_init (hd bars)))
          (\<lambda>r. Inr (bt_report (nm s) fee annualization bars (fst r), snd r)))"

section \<open>The loop as a function of the actions\<close>

definition bt_trace :: "f64 \<Rightarrow> (bar \<times> action) list \<Rightarrow> bt_state \<Rightarrow> bt_state" where
  "bt_trace fee bas t = fold (\<lambda>ba. bt_bar fee (fst ba) (snd ba)) bas t"

lemma bt_trace_simps [simp]:
  "bt_trace fee [] t = t"
  "bt_trace fee (ba # bas) t = bt_trace fee bas (bt_bar fee (fst ba) (snd ba) t)"
  "bt_trace fee (bas @ [ba]) t = bt_bar fee (fst ba) (snd ba) (bt_trace fee bas t)"
  by (simp_all add: bt_trace_def)

lemma bt_run_trace:
  "bt_run step fee bs s t = cbind (run_strategy step bs s) (\<lambda>q. Inr (bt_trace fee (zip bs (fst q)) t, snd q))"
proof (induction bs arbitrary: s t)
  case (Cons b bs)
  show ?case
  proof (cases "step b s")
    case (Inr r)
    then show ?thesis by (cases "run_strategy step bs (snd r)") (simp_all add: Cons.IH)
  qed simp
qed simp

lemma run_backtest_trace:
  assumes "run_strategy step bars s = Inr (as, s')" "2 \<le> length bars"
  shows "run_backtest nm step s bars commission_pct annualization =
    Inr (bt_report (nm s) (commission_pct / Fin 100) annualization bars
      (bt_trace (commission_pct / Fin 100) (zip bars as) (bt_init (hd bars))), s')"
  using assms by (simp add: run_backtest_def bt_run_trace Let_def)

lemma bt_bar_view:
  "bt_long (bt_bar fee b a t) \<longleftrightarrow> (if bt_long t then a \<noteq> Sell else a = Buy)"
  "bt_log (bt_bar fee b a t) = bt_log t @ (if a = Sell \<and> bt_long t then [closing_trade fee b t] else [])"
  "bt_entry_price (bt_bar fee b a t) = (if a = Buy \<and> \<not> bt_long t then bar_close b else bt_entry_price t)"
  "bt_entry_time (bt_bar fee b a t) = (if a = Buy \<and> \<not> bt_long t then bar_time b else bt_entry_time t)"
  by (auto simp: bt_bar_def record_bar_def fill_def mark_to_market_def closing_trade_def Let_def)

section \<open>The trade log\<close>

definition trade_of :: "f64 \<Rightarrow> bar \<Rightarrow> bar \<Rightarrow> trade_record" where
  "trade_of fee b e =
     \<lparr>entry_time = bar_time b, exit_time = bar_time e, entry_price = bar_close b, exit_price = bar_close e,
      return_pct = (bar_close e / bar_close b * (1 - fee) * (1 - fee) - 1) * Fin 100\<rparr>"

text \<open>
  Closed round trips of a sequence of actions, as pairs of indices: bought at the first,
  sold at the second, no sell between, in order and disjoint; every buy before \<open>n\<close> lies in one.
\<close>

definition round_trips :: "action list \<Rightarrow> nat \<Rightarrow> (nat \<times> nat) list \<Rightarrow> bool" where
  "round_trips as n ivs \<longleftrightarrow>
     (\<forall>(i, j)\<in>set ivs. i < j \<and> j < n \<and> as ! i = Buy \<and> as ! j = Sell \<and> (\<forall>k. i < k \<and> k < j \<longrightarrow> as ! k \<noteq> Sell))
     \<and> sorted_wrt (\<lambda>(i, j) (i', j'). j < i') ivs
     \<and> (\<forall>k<n. as ! k = Buy \<longrightarrow> (\<exists>(i, j)\<in>set ivs. i \<le> k \<and> k < j))"

text \<open>A position bought at \<open>i\<close> and held to the end.\<close>

definition held_from :: "action list \<Rightarrow> nat \<Rightarrow> bool" where
  "held_from as i \<longleftrightarrow> i < length as \<and> as ! i = Buy \<and> (\<forall>k. i < k \<and> k < length as \<longrightarrow> as ! k \<noteq> Sell)"

definition log_state :: "f64 \<Rightarrow> bar list \<Rightarrow> action list \<Rightarrow> bt_state \<Rightarrow> bool" where
  "log_state fee bars as t \<longleftrightarrow> (\<exists>ivs.
     bt_log t = map (\<lambda>(i, j). trade_of fee (bars ! i) (bars ! j)) ivs
     \<and> (if bt_long t
        then \<exists>i. held_from as i \<and> round_trips as i ivs
               \<and> bt_entry_price t = bar_close (bars ! i) \<and> bt_entry_time t = bar_time (bars ! i)
        else round_trips as (length as) ivs))"

lemma round_trips_append:
  assumes "round_trips as n ivs" "n \<le> length as"
  shows "round_trips (as @ [a]) n ivs"
  using assms unfolding round_trips_def
  by (intro conjI) (fastforce simp: nth_append split: prod.splits)+

lemma round_trips_extend:
  assumes "round_trips as (length as) ivs" "a \<noteq> Buy"
  shows "round_trips (as @ [a]) (Suc (length as)) ivs"
  using assms unfolding round_trips_def
  by (intro conjI) (fastforce simp: nth_append less_Suc_eq split: prod.splits)+

lemma round_trips_close:
  assumes "round_trips as i ivs" "held_from as i"
  shows "round_trips (as @ [Sell]) (Suc (length as)) (ivs @ [(i, length as)])"
proof -
  have lt: "i < length as" using assms(2) by (simp add: held_from_def)
  have old: "\<forall>(i', j)\<in>set ivs. i' < j \<and> j < i" "sorted_wrt (\<lambda>(i, j) (i', j'). j < i') ivs"
    using assms(1) by (auto simp: round_trips_def)
  have "\<forall>(i', j)\<in>set (ivs @ [(i, length as)]). i' < j \<and> j < Suc (length as) \<and> (as @ [Sell]) ! i' = Buy
      \<and> (as @ [Sell]) ! j = Sell \<and> (\<forall>k. i' < k \<and> k < j \<longrightarrow> (as @ [Sell]) ! k \<noteq> Sell)"
    using assms lt unfolding round_trips_def held_from_def
    by (fastforce simp: nth_append split: prod.splits)
  moreover have "sorted_wrt (\<lambda>(i, j) (i', j'). j < i') (ivs @ [(i, length as)])"
    using old by (auto simp: sorted_wrt_append)
  moreover have "\<exists>(i', j)\<in>set (ivs @ [(i, length as)]). i' \<le> k \<and> k < j"
    if "k < Suc (length as)" "(as @ [Sell]) ! k = Buy" for k
  proof (cases "k < i")
    case True
    then have "as ! k = Buy" using that lt by (simp add: nth_append)
    then obtain p where "p \<in> set ivs" "case p of (i', j) \<Rightarrow> i' \<le> k \<and> k < j"
      using assms(1) True unfolding round_trips_def by blast
    then show ?thesis by auto
  next
    case False
    then show ?thesis using that by (auto simp: nth_append split: if_splits)
  qed
  ultimately show ?thesis by (simp add: round_trips_def)
qed

lemma round_trips_open: "round_trips as (length as) ivs \<Longrightarrow> round_trips (as @ [a]) (length as) ivs"
  by (rule round_trips_append) simp_all

lemma closing_trade_of:
  "bt_entry_price t = bar_close e \<Longrightarrow> bt_entry_time t = bar_time e \<Longrightarrow> closing_trade fee b t = trade_of fee e b"
  by (simp add: closing_trade_def trade_of_def)

lemma held_from_append: "held_from as i \<Longrightarrow> a \<noteq> Sell \<Longrightarrow> held_from (as @ [a]) i"
  by (auto simp: held_from_def nth_append less_Suc_eq)

lemma trades_prefix:
  "\<forall>(i, j)\<in>set ivs. i < length bars \<and> j < length bars \<Longrightarrow>
   map (\<lambda>(i, j). trade_of fee ((bars @ [b]) ! i) ((bars @ [b]) ! j)) ivs
   = map (\<lambda>(i, j). trade_of fee (bars ! i) (bars ! j)) ivs"
  by (auto simp: nth_append)

lemma round_trips_bounds: "round_trips as n ivs \<Longrightarrow> n \<le> m \<Longrightarrow> \<forall>(i, j)\<in>set ivs. i < m \<and> j < m"
  by (fastforce simp: round_trips_def)

lemma log_state_step:
  assumes "log_state fee bars as t" "length as = length bars"
  shows "log_state fee (bars @ [b]) (as @ [a]) (bt_bar fee b a t)"
proof (cases "bt_long t")
  case True
  then obtain ivs i where iv: "bt_log t = map (\<lambda>(i, j). trade_of fee (bars ! i) (bars ! j)) ivs"
    "held_from as i" "round_trips as i ivs" "bt_entry_price t = bar_close (bars ! i)"
    "bt_entry_time t = bar_time (bars ! i)"
    using assms(1) by (auto simp: log_state_def)
  have lt: "i < length bars" using iv(2) assms(2) by (simp add: held_from_def)
  note pre = trades_prefix [OF round_trips_bounds [OF iv(3), of "length bars"], of fee b]
  show ?thesis
  proof (cases "a = Sell")
    case sell: True
    have "bt_log (bt_bar fee b a t)
        = map (\<lambda>(i, j). trade_of fee ((bars @ [b]) ! i) ((bars @ [b]) ! j)) (ivs @ [(i, length as)])"
      using pre lt sell True iv closing_trade_of [OF iv(4,5)] assms(2) by (simp add: bt_bar_view nth_append)
    then show ?thesis
      using round_trips_close [OF iv(3,2)] sell True unfolding log_state_def
      by (intro exI [of _ "ivs @ [(i, length as)]"]) (simp add: bt_bar_view)
  next
    case False
    have "held_from (as @ [a]) i" "round_trips (as @ [a]) i ivs"
      using held_from_append [OF iv(2) False] round_trips_append [OF iv(3)] lt assms(2) by simp_all
    then show ?thesis
      using pre lt False True iv unfolding log_state_def
      by (intro exI [of _ ivs]) (auto simp: bt_bar_view nth_append)
  qed
next
  case False
  then obtain ivs where iv: "bt_log t = map (\<lambda>(i, j). trade_of fee (bars ! i) (bars ! j)) ivs"
    "round_trips as (length as) ivs"
    using assms(1) by (auto simp: log_state_def)
  note pre = trades_prefix [OF round_trips_bounds [OF iv(2), of "length bars"], of fee b]
  show ?thesis
  proof (cases "a = Buy")
    case True
    have "held_from (as @ [a]) (length as)" using True by (auto simp: held_from_def less_Suc_eq)
    then show ?thesis
      using pre False True iv round_trips_open [OF iv(2), of a] assms(2) unfolding log_state_def
      by (intro exI [of _ ivs]) (auto simp: bt_bar_view intro!: exI [of _ "length bars"])
  next
    case hold: False
    then show ?thesis
      using pre False iv round_trips_extend [OF iv(2) hold] assms(2) unfolding log_state_def
      by (intro exI [of _ ivs]) (simp add: bt_bar_view)
  qed
qed

lemma log_state_trace:
  assumes "length as = length bars"
  shows "log_state fee bars as (bt_trace fee (zip bars as) (bt_init b))"
  using assms
proof (induction bars arbitrary: as rule: rev_induct)
  case Nil
  then show ?case by (simp add: log_state_def round_trips_def bt_init_def)
next
  case (snoc x bars)
  from snoc.prems obtain as' a where as: "as = as' @ [a]" "length as' = length bars"
    by (cases as rule: rev_cases) auto
  then show ?case using log_state_step [OF snoc.IH [OF as(2)] as(2), of x a] by simp
qed

lemma backtest_log:
  assumes "run_strategy step bars s = Inr (as, s')" "2 \<le> length bars"
  shows "\<exists>rep n ivs tail. run_backtest nm step s bars commission_pct annualization = Inr (rep, s')
    \<and> round_trips as n ivs
    \<and> (tail = [] \<and> n = length bars \<or> tail = [(n, length bars - 1)] \<and> held_from as n)
    \<and> trade_log rep = map (\<lambda>(i, j). trade_of (commission_pct / Fin 100) (bars ! i) (bars ! j)) (ivs @ tail)"
proof -
  let ?fee = "commission_pct / Fin 100"
  let ?t = "bt_trace ?fee (zip bars as) (bt_init (hd bars))"
  let ?rep = "bt_report (nm s) ?fee annualization bars ?t"
  have len: "length as = length bars" by (rule run_strategy_length [OF assms(1)])
  have lastb: "last bars = bars ! (length bars - 1)" using assms(2) by (intro last_conv_nth) auto
  have run: "run_backtest nm step s bars commission_pct annualization = Inr (?rep, s')"
    by (rule run_backtest_trace [OF assms])
  from log_state_trace [OF len, of ?fee "hd bars"]
  obtain ivs where iv: "bt_log ?t = map (\<lambda>(i, j). trade_of ?fee (bars ! i) (bars ! j)) ivs"
    "if bt_long ?t then \<exists>i. held_from as i \<and> round_trips as i ivs
        \<and> bt_entry_price ?t = bar_close (bars ! i) \<and> bt_entry_time ?t = bar_time (bars ! i)
     else round_trips as (length as) ivs"
    by (auto simp: log_state_def)
  show ?thesis
  proof (cases "bt_long ?t")
    case True
    then obtain i where i: "held_from as i" "round_trips as i ivs" "bt_entry_price ?t = bar_close (bars ! i)"
      "bt_entry_time ?t = bar_time (bars ! i)" using iv(2) by auto
    have "trade_log ?rep = map (\<lambda>(i, j). trade_of ?fee (bars ! i) (bars ! j)) (ivs @ [(i, length bars - 1)])"
      using True iv(1) closing_trade_of [OF i(3,4)] lastb by (simp add: bt_report_def close_open_def Let_def)
    then show ?thesis using run i by blast
  next
    case False
    then have "trade_log ?rep = map (\<lambda>(i, j). trade_of ?fee (bars ! i) (bars ! j)) (ivs @ [])"
      using iv(1) by (simp add: bt_report_def close_open_def Let_def)
    then show ?thesis using run False iv(2) len by (metis (no_types, lifting))
  qed
qed

text \<open>
  C4: the trade log is the list of the strategy's round trips, in order and disjoint: each
  record pairs a bar on which the strategy said Buy with the next bar on which it said Sell, every
  Buy lies in a recorded trade, and a position still open after the last bar is closed there. Buy
  signals in a position and Sell signals out of one change nothing.
\<close>

theorem trade_log_round_trips:
  assumes "run_strategy step bars s = Inr (as, s')" "2 \<le> length bars"
  shows "\<exists>rep n ivs tail. run_backtest nm step s bars commission_pct annualization = Inr (rep, s')
    \<and> round_trips as n ivs
    \<and> (tail = [] \<and> n = length bars \<or> tail = [(n, length bars - 1)] \<and> held_from as n)
    \<and> trade_log rep = map (\<lambda>(i, j). trade_of (commission_pct / Fin 100) (bars ! i) (bars ! j)) (ivs @ tail)"
  by (rule backtest_log [OF assms])

text \<open>A strategy that replays a script, for concrete runs.\<close>

definition scripted :: "bar \<Rightarrow> action list \<Rightarrow> (action \<times> action list) cpp" where
  "scripted b script = (case script of [] \<Rightarrow> Inr (Hold, []) | a # rest \<Rightarrow> Inr (a, rest))"

definition bar_at :: "int \<Rightarrow> int \<Rightarrow> bar" where
  "bar_at time close = \<lparr>bar_time = time, bar_open = Fin (of_int close), bar_high = Fin (of_int close),
     bar_low = Fin (of_int close), bar_close = Fin (of_int close), bar_volume = 0\<rparr>"

theorem trade_log_round_trips_witness:
  "\<exists>rep n ivs tail. run_backtest (\<lambda>_. ''script'') scripted [Buy, Buy, Sell, Buy]
      [bar_at 1 10, bar_at 2 20, bar_at 3 30, bar_at 4 40] (Fin 0) (Fin 252) = Inr (rep, [])
    \<and> round_trips [Buy, Buy, Sell, Buy] n ivs
    \<and> (tail = [] \<and> n = 4 \<or> tail = [(n, 3)] \<and> held_from [Buy, Buy, Sell, Buy] n)
    \<and> length (trade_log rep) = length (ivs @ tail)"
proof -
  let ?bars = "[bar_at 1 10, bar_at 2 20, bar_at 3 30, bar_at 4 40]"
  have run: "run_strategy scripted ?bars [Buy, Buy, Sell, Buy] = Inr ([Buy, Buy, Sell, Buy], [])"
    by (simp add: scripted_def)
  have two: "2 \<le> length ?bars" by simp
  obtain rep n ivs tail where r: "run_backtest (\<lambda>_. ''script'') scripted [Buy, Buy, Sell, Buy] ?bars (Fin 0) (Fin 252) = Inr (rep, [])"
    "round_trips [Buy, Buy, Sell, Buy] n ivs"
    "tail = [] \<and> n = length ?bars \<or> tail = [(n, length ?bars - 1)] \<and> held_from [Buy, Buy, Sell, Buy] n"
    "trade_log rep = map (\<lambda>(i, j). trade_of (Fin 0 / Fin 100) (?bars ! i) (?bars ! j)) (ivs @ tail)"
    using trade_log_round_trips [OF run two, of "\<lambda>_. ''script''" "Fin 0" "Fin 252"] by blast
  then show ?thesis
    by (elim disjE) (rule exI [of _ rep], rule exI [of _ n], rule exI [of _ ivs], rule exI [of _ tail], simp)+
qed

section \<open>A strategy that never buys\<close>

lemma flat_bar:
  assumes "bt_equity t = 1" "bt_peak t = 1" "\<not> bt_long t" "set (bt_returns t) \<subseteq> {0}" "bt_drawdown t = 0"
    "bt_log t = []" "a \<noteq> Buy"
  shows "let t' = bt_bar fee b a t in bt_equity t' = 1 \<and> bt_peak t' = 1 \<and> \<not> bt_long t'
    \<and> set (bt_returns t') \<subseteq> {0} \<and> bt_drawdown t' = 0 \<and> bt_log t' = []"
  using assms by (auto simp: Let_def bt_bar_def record_bar_def fill_def mark_to_market_def fmax_def f64_ops)

lemma flat_trace:
  assumes "Buy \<notin> set as" "length as = length bars"
  shows "let t = bt_trace fee (zip bars as) (bt_init b) in bt_equity t = 1 \<and> bt_peak t = 1 \<and> \<not> bt_long t
    \<and> set (bt_returns t) \<subseteq> {0} \<and> bt_drawdown t = 0 \<and> bt_log t = []"
  using assms
proof (induction bars arbitrary: as rule: rev_induct)
  case Nil
  then show ?case by (simp add: bt_init_def)
next
  case (snoc x bars)
  from snoc.prems obtain as' a where as: "as = as' @ [a]" "length as' = length bars" "Buy \<notin> set as'" "a \<noteq> Buy"
    by (cases as rule: rev_cases) auto
  let ?t = "bt_trace fee (zip bars as') (bt_init b)"
  have "bt_equity ?t = 1" "bt_peak ?t = 1" "\<not> bt_long ?t" "set (bt_returns ?t) \<subseteq> {0}" "bt_drawdown ?t = 0" "bt_log ?t = []"
    using snoc.IH [OF as(3,2)] by (simp_all add: Let_def)
  from flat_bar [OF this as(4), of fee x] show ?case using as by simp
qed

lemma returns_length: "length as = length bars \<Longrightarrow> length (bt_returns (bt_trace fee (zip bars as) (bt_init b))) \<le> length bars"
proof (induction bars arbitrary: as rule: rev_induct)
  case (snoc x bars)
  from snoc.prems obtain as' a where as: "as = as' @ [a]" "length as' = length bars"
    by (cases as rule: rev_cases) auto
  have "length (bt_returns (bt_bar fee x a t)) \<le> Suc (length (bt_returns t))" for t
    by (simp add: bt_bar_def record_bar_def fill_def mark_to_market_def Let_def)
  from this [of "bt_trace fee (zip bars as') (bt_init b)"] snoc.IH [OF as(2)] show ?case using as by simp
qed (simp add: bt_init_def)

lemma sum_zeros: "set rs \<subseteq> {0} \<Longrightarrow> foldl (\<lambda>m r. m + r) 0 rs = (0 :: f64)"
  by (induction rs) (auto simp: f64_ops)

lemma fdiv_zero_pos: "0 < n \<Longrightarrow> n \<le> 2 ^ 53 \<Longrightarrow> 0 / f64_of_int n = 0"
  using fl_int [of n] by (simp add: f64_of_int_def f64_ops)

lemma sharpe_flat:
  assumes "set rs \<subseteq> {0}" "int (length rs) \<le> 2 ^ 53"
  shows "sharpe_of annualization rs = 0"
proof (cases "length rs > 1")
  case True
  have mean: "foldl (\<lambda>m r. m + r) 0 rs / f64_of_int (int (length rs)) = 0"
    unfolding sum_zeros [OF assms(1)] using True assms(2) by (intro fdiv_zero_pos) linarith+
  have "foldl (\<lambda>v r. v + (r - 0) * (r - 0)) 0 rs = (0 :: f64)"
    using assms(1) by (induction rs) (auto simp: f64_ops)
  then have "foldl (\<lambda>v r. v + (r - 0) * (r - 0)) 0 rs / f64_of_int (int (length rs) - 1) = 0"
    using fdiv_zero_pos [of "int (length rs) - 1"] True assms(2) by simp
  then have "fsqrt (foldl (\<lambda>v r. v + (r - 0) * (r - 0)) 0 rs / f64_of_int (int (length rs) - 1)) = 0"
    by (simp add: zero_f64_def)
  then show ?thesis unfolding sharpe_of_def Let_def mean by simp
qed (simp add: sharpe_of_def)

text \<open>
  A strategy that never buys leaves the account untouched: no trades, zero return, zero
  drawdown, zero Sharpe ratio and zero win rate, whatever the prices and the commission are.
\<close>

lemma never_buying_is_flat:
  assumes "run_strategy step bars s = Inr (as, s')" "2 \<le> length bars" "int (length bars) \<le> 2 ^ 53" "Buy \<notin> set as"
  shows "\<exists>rep. run_backtest nm step s bars commission_pct annualization = Inr (rep, s')
    \<and> trade_log rep = [] \<and> rep_trades rep = 0 \<and> total_return_pct rep = 0 \<and> max_drawdown_pct rep = 0
    \<and> sharpe rep = 0 \<and> win_rate_pct rep = 0"
proof -
  let ?fee = "commission_pct / Fin 100"
  let ?t = "bt_trace ?fee (zip bars as) (bt_init (hd bars))"
  have len: "length as = length bars" by (rule run_strategy_length [OF assms(1)])
  have t: "bt_equity ?t = 1" "\<not> bt_long ?t" "set (bt_returns ?t) \<subseteq> {0}" "bt_drawdown ?t = 0" "bt_log ?t = []"
    using flat_trace [OF assms(4) len, of ?fee "hd bars"] by (simp_all add: Let_def)
  have "length (bt_returns ?t) \<le> length bars" by (rule returns_length [OF len])
  then have sh: "sharpe_of annualization (bt_returns ?t) = 0" using assms(3) by (intro sharpe_flat [OF t(3)]) simp
  have ret: "(1 - 1) * Fin 100 = (0 :: f64)" by (simp add: f64_ops)
  show ?thesis
    unfolding run_backtest_trace [OF assms(1,2)]
    using t sh ret by (simp add: bt_report_def close_open_def Let_def narrow_id fits32_iff)
qed

section \<open>Ranges of the report\<close>

text \<open>Non-negative prices and a commission of at most the whole position keep the equity non-negative.\<close>

definition equity_ok :: "bt_state \<Rightarrow> bool" where
  "equity_ok t \<longleftrightarrow> fnn (bt_equity t) \<and> double_ok (bt_equity t) \<and> fnonneg (bt_peak t) \<and> \<not> bt_peak t < 1 \<and> double_ok (bt_peak t)
     \<and> fnn (bt_prev_close t) \<and> (\<exists>y. bt_drawdown t = Fin y \<and> 0 \<le> y \<and> y \<le> 100)"

lemma fmax_between:
  assumes "\<exists>y. a = Fin y \<and> 0 \<le> y \<and> y \<le> 100" "b = NaN \<or> (\<exists>z. b = Fin z \<and> z \<le> 100)"
  shows "\<exists>y. fmax a b = Fin y \<and> 0 \<le> y \<and> y \<le> 100"
  using assms by (auto simp: fmax_def f64_ops)

text \<open>The drawdown of one bar is at most 100 percent, or invalid when the equity has overflowed.\<close>

lemma drawdown_bound:
  assumes "fnn e" "fnonneg p" "\<not> p < 1" "\<not> p < e" "double_ok p"
  shows "(p - e) / p * Fin 100 = NaN \<or> (\<exists>z. (p - e) / p * Fin 100 = Fin z \<and> z \<le> 100)"
proof (cases p)
  case (Fin x)
  then have x: "1 \<le> x" "rnd64 x = x" "\<bar>x\<bar> < 2 ^ 1024" using assms(3,5) by (simp_all add: f64_ops double_ok_def)
  show ?thesis
  proof (cases e)
    case e: (Fin y)
    then have y: "0 \<le> y" "y \<le> x" using assms(1,4) Fin by (simp_all add: f64_ops)
    then have d: "0 \<le> rnd64 (x - y)" "rnd64 (x - y) \<le> x"
      using ieee.rnd_le_exact [of "x - y" x] x(2) by (simp_all add: rnd64_nonneg)
    then have fd: "fl (x - y) = Fin (rnd64 (x - y))"
      using x(3) by (auto simp: fl_def Let_def)
    have "0 \<le> rnd64 (x - y) / x" "rnd64 (x - y) / x \<le> 1" using d x(1) by simp_all
    then have q: "0 \<le> rnd64 (rnd64 (x - y) / x)" "rnd64 (rnd64 (x - y) / x) \<le> 1"
      "fl (rnd64 (x - y) / x) = Fin (rnd64 (rnd64 (x - y) / x))"
      using ieee.rnd_le_exact [of "rnd64 (x - y) / x" 1] ieee.rnd_one by (simp_all add: rnd64_nonneg fl_small)
    then show ?thesis
      using Fin e fd x(1) fl_between [of "rnd64 (rnd64 (x - y) / x) * 100"] by (auto simp: f64_ops)
  qed (use Fin assms in \<open>auto simp: f64_ops\<close>)
next
  case PInf
  then show ?thesis using assms(1) by (cases e) (auto simp: f64_ops)
qed (use assms in simp_all)

lemma fmax_ge: "a \<noteq> NaN \<Longrightarrow> \<not> fmax a b < a \<and> \<not> fmax a b < b"
  by (cases a; cases b) (auto simp: fmax_def f64_ops)

lemma fmax_not_less: "\<not> a < c \<Longrightarrow> a \<noteq> NaN \<Longrightarrow> \<not> fmax a b < (c :: f64)"
  by (cases a; cases b; cases c) (auto simp: fmax_def f64_ops)

lemma record_bar_ok:
  assumes "equity_ok t" "fnn (bar_close b)"
  shows "equity_ok (record_bar e b t)"
proof -
  let ?p = "fmax (bt_peak t) (bt_equity t)"
  have t: "fnn (bt_equity t)" "double_ok (bt_equity t)" "fnonneg (bt_peak t)" "\<not> bt_peak t < 1" "double_ok (bt_peak t)"
    "\<exists>y. bt_drawdown t = Fin y \<and> 0 \<le> y \<and> y \<le> 100"
    using assms(1) by (simp_all add: equity_ok_def)
  have nn: "bt_peak t \<noteq> NaN" using t(3) by auto
  have p: "fnonneg ?p" "\<not> ?p < 1" "double_ok ?p" "\<not> ?p < bt_equity t"
    using t(2,5) fnonneg_max [OF t(3)] fmax_not_less [OF t(4) nn] fmax_ge [OF nn] by (simp_all add: fmax_def)
  have "\<exists>y. fmax (bt_drawdown t) ((?p - bt_equity t) / ?p * Fin 100) = Fin y \<and> 0 \<le> y \<and> y \<le> 100"
    by (rule fmax_between [OF t(6) drawdown_bound [OF t(1) p(1,2,4,3)]])
  then show ?thesis using t(1,2) p(1-3) assms(2) by (simp add: equity_ok_def record_bar_def Let_def)
qed

lemma bt_bar_ok:
  assumes "equity_ok t" "fnn (bar_close b)" "fnn (1 - fee)"
  shows "equity_ok (bt_bar fee b a t)"
proof -
  have "equity_ok (mark_to_market b t)"
    using assms(1,2) by (simp add: equity_ok_def mark_to_market_def fnn_mul fnn_div)
  then have "equity_ok (fill fee b a (mark_to_market b t))"
    using assms(3) by (simp add: equity_ok_def fill_def fnn_mul)
  then show ?thesis unfolding bt_bar_def using assms(2) by (rule record_bar_ok)
qed

lemma trace_ok:
  assumes "\<forall>b\<in>set bars. fnn (bar_close b)" "fnn (1 - fee)" "equity_ok t"
  shows "equity_ok (bt_trace fee (zip bars as) t)"
  using assms(1,3)
proof (induction bars arbitrary: as t)
  case (Cons b bars)
  then show ?case using assms(2) by (cases as) (simp_all add: bt_bar_ok)
qed simp

lemma fee_ok: "c \<le> 100 \<Longrightarrow> fnn (1 - Fin c / Fin 100)"
proof -
  assume "c \<le> 100"
  then have "rnd64 (c / 100) \<le> 1" using ieee.rnd_le_exact [of "c / 100" 1] ieee.rnd_one by simp
  then show ?thesis by (auto simp: f64_ops fl_def [of "c / 100"] Let_def fnn_fl)
qed

lemma log_length:
  "length as = length bars \<Longrightarrow>
   length (bt_log (bt_trace fee (zip bars as) (bt_init b)))
     + (if bt_long (bt_trace fee (zip bars as) (bt_init b)) then 1 else 0) \<le> length bars"
proof (induction bars arbitrary: as rule: rev_induct)
  case (snoc x bars)
  from snoc.prems obtain as' a where as: "as = as' @ [a]" "length as' = length bars"
    by (cases as rule: rev_cases) auto
  from snoc.IH [OF as(2)] as show ?case by (auto simp: bt_bar_view split: if_splits)
qed (simp add: bt_init_def)

lemma count_wins_bounds: "0 \<le> count_wins ts \<and> count_wins ts \<le> int (length ts)"
proof -
  have "w \<le> foldl (\<lambda>w t. if 0 < return_pct t then w + 1 else w) w ts
    \<and> foldl (\<lambda>w t. if 0 < return_pct t then w + 1 else w) w ts \<le> w + int (length ts)" for w :: int
  proof (induction ts arbitrary: w)
    case (Cons t ts)
    show ?case using Cons [of w] Cons [of "w + 1"] by auto
  qed simp
  from this [of 0] show ?thesis by (simp add: count_wins_def)
qed

lemma rate_between:
  fixes w n :: int
  assumes "0 \<le> w" "w \<le> n" "0 < n" "n < 2 ^ 31"
  shows "\<exists>y. Fin 100 * f64_of_int w / f64_of_int n = Fin y \<and> 0 \<le> y \<and> y \<le> 100"
proof -
  have "f64_of_int w = Fin (of_int w)" "f64_of_int n = Fin (of_int n)" "fl (of_int (100 * w)) = Fin (of_int (100 * w))"
    unfolding f64_of_int_def using assms by (intro fl_int; simp)+
  moreover have "(of_int w :: real) \<le> of_int n" "(0 :: real) \<le> of_int w" "(0 :: real) < of_int n"
    using assms by simp_all
  then have "(0 :: real) \<le> 100 * of_int w / of_int n" "(100 * of_int w / of_int n :: real) \<le> 100"
    by (simp_all add: divide_le_eq)
  ultimately show ?thesis using fl_between assms(3) by (simp add: f64_ops)
qed

text \<open>
  C20: for non-negative (possibly invalid) prices and a commission of at most 100 percent per
  side the drawdown and the win rate of the report are numbers between 0 and 100, never invalid
  or infinite; the number of trades is the length of the log and at most the number of bars.
\<close>

theorem report_ranges:
  assumes "run_strategy step bars s = Inr (as, s')" "2 \<le> length bars" "int (length bars) < 2 ^ 31"
    and "\<forall>b\<in>set bars. fnn (bar_close b)" "c \<le> 100"
  shows "\<exists>rep. run_backtest nm step s bars (Fin c) annualization = Inr (rep, s')
    \<and> (\<exists>y. max_drawdown_pct rep = Fin y \<and> 0 \<le> y \<and> y \<le> 100)
    \<and> (\<exists>y. win_rate_pct rep = Fin y \<and> 0 \<le> y \<and> y \<le> 100)
    \<and> rep_trades rep = int (length (trade_log rep)) \<and> length (trade_log rep) \<le> length bars
    \<and> rep_bars rep = int (length bars)"
proof -
  let ?fee = "Fin c / Fin 100"
  let ?t = "bt_trace ?fee (zip bars as) (bt_init (hd bars))"
  let ?t1 = "close_open ?fee (last bars) ?t"
  have len: "length as = length bars" by (rule run_strategy_length [OF assms(1)])
  have "bars \<noteq> []" using assms(2) by auto
  then have "fnn (bar_close (hd bars))" using assms(4) by simp
  then have "equity_ok (bt_init (hd bars))"
    using ieee.rnd_one by (simp add: equity_ok_def bt_init_def f64_ops double_ok_def)
  from trace_ok [OF assms(4) fee_ok [OF assms(5)] this] have "equity_ok ?t" .
  then have dd: "\<exists>y. bt_drawdown ?t1 = Fin y \<and> 0 \<le> y \<and> y \<le> 100"
    by (simp add: equity_ok_def close_open_def)
  have ln: "length (bt_log ?t1) \<le> length bars"
    using log_length [OF len, of ?fee "hd bars"] by (auto simp: close_open_def)
  then have fits: "fits 32 (int (length (bt_log ?t1)))" "fits 32 (int (length bars))"
    using assms(3) by (simp_all add: fits32_iff)
  have wr: "\<exists>y. (if int (length (bt_log ?t1)) \<noteq> 0 then Fin 100 * f64_of_int (count_wins (bt_log ?t1))
      / f64_of_int (int (length (bt_log ?t1))) else 0) = Fin y \<and> 0 \<le> y \<and> y \<le> 100"
  proof (cases "length (bt_log ?t1) = 0")
    case False
    have "\<exists>y. Fin 100 * f64_of_int (count_wins (bt_log ?t1)) / f64_of_int (int (length (bt_log ?t1))) = Fin y
        \<and> 0 \<le> y \<and> y \<le> 100"
      using False ln assms(3) count_wins_bounds [of "bt_log ?t1"] by (intro rate_between) auto
    then show ?thesis using False by simp
  qed (simp add: zero_f64_def)
  show ?thesis
    unfolding run_backtest_trace [OF assms(1,2)] bt_report_def Let_def narrow_id [OF fits(1)] narrow_id [OF fits(2)]
    using dd wr ln by simp
qed

theorem report_ranges_witness:
  "\<exists>rep. run_backtest (\<lambda>_. ''script'') scripted [Buy, Sell] [bar_at 1 10, bar_at 2 5] (Fin 1) (Fin 252) = Inr (rep, [])
    \<and> (\<exists>y. max_drawdown_pct rep = Fin y \<and> 0 \<le> y \<and> y \<le> 100) \<and> rep_bars rep = 2"
proof -
  have run: "run_strategy scripted [bar_at 1 10, bar_at 2 5] [Buy, Sell] = Inr ([Buy, Sell], [])"
    by (simp add: scripted_def)
  have h: "2 \<le> length [bar_at 1 10, bar_at 2 5]" "int (length [bar_at 1 10, bar_at 2 5]) < 2 ^ 31"
    "\<forall>b\<in>set [bar_at 1 10, bar_at 2 5]. fnn (bar_close b)" "(1 :: real) \<le> 100"
    by (simp_all add: bar_at_def)
  show ?thesis
    using report_ranges [OF run h, of "\<lambda>_. ''script''" "Fin 252"] by (auto simp del: fnn_simps)
qed

end
