(* ===== verification/Stream_Examples.thy ===== *)
theory Stream_Examples
  imports Account_Examples Market_Data_Stream Backtest
begin

text \<open>
  The example programs on the market data stream: \<^verbatim>\<open>examples/paper_trade.cpp\<close>, which runs an EMA
  cross on last prices and simulates the fills, and \<^verbatim>\<open>examples/quotes_stream.cpp\<close>, which prints
  what it receives.

  The state of the paper trader is the record of the variables its handler captures; the handler,
  which runs under the mutex, is one function on it, and what it prints are events with the
  printed values (the conversion \<^verbatim>\<open>%.2f\<close> of a double is not modelled). A run is the sequence of
  responses the stream dispatches.

  The theorem compares the run with the library: the same prices as closing prices of bars, the
  strategy \<open>EmaCross\<close> and the backtester without commission give the same trades.
\<close>

section \<open>The paper trader\<close>

record paper =
  pt_fast :: ema
  pt_slow :: ema
  pt_prev_above :: bool
  pt_has_prev :: bool
  pt_long :: bool
  pt_entry :: f64
  pt_realized :: f64
  pt_last :: f64
  pt_ticks :: int

datatype paper_event = PaperBuy f64 int | PaperSell f64 f64

definition new_paper :: "int \<Rightarrow> int \<Rightarrow> paper" where
  "new_paper fast_n slow_n = \<lparr>pt_fast = mk_ema fast_n, pt_slow = mk_ema slow_n, pt_prev_above = False,
     pt_has_prev = False, pt_long = False, pt_entry = 0, pt_realized = 0, pt_last = 0, pt_ticks = 0\<rparr>"

text \<open>The handler from the lock on. The atomic counter wraps.\<close>

definition paper_cross :: "f64 \<Rightarrow> bool \<Rightarrow> paper \<Rightarrow> paper_event list \<times> paper" where
  "paper_cross price now p =
     (if now \<and> \<not> pt_prev_above p \<and> \<not> pt_long p
      then ([PaperBuy price (pt_ticks p)], p\<lparr>pt_long := True, pt_entry := price\<rparr>)
      else if \<not> now \<and> pt_prev_above p \<and> pt_long p
      then (let pnl = (price / pt_entry p - 1) * Fin 100 in
            ([PaperSell price pnl], p\<lparr>pt_long := False, pt_realized := pt_realized p + pnl\<rparr>))
      else ([], p))"

definition paper_tick :: "f64 \<Rightarrow> paper \<Rightarrow> paper_event list \<times> paper" where
  "paper_tick price p =
     (let p1 = p\<lparr>pt_last := price, pt_ticks := narrow 32 (pt_ticks p + 1),
                 pt_fast := ema_push price (pt_fast p), pt_slow := ema_push price (pt_slow p)\<rparr> in
      if \<not> ema_ready (pt_fast p1) \<or> \<not> ema_ready (pt_slow p1) then ([], p1)
      else
        let above = ema_value (pt_slow p1) < ema_value (pt_fast p1);
            (evs, p2) = (if pt_has_prev p1 then paper_cross price above p1 else ([], p1))
        in (evs, p2\<lparr>pt_prev_above := above, pt_has_prev := True\<rparr>))"

definition paper_on_last_price :: "quotation \<Rightarrow> paper \<Rightarrow> (paper_event list \<times> paper) cpp" where
  "paper_on_last_price q p = cbind (decimal_of_quotation q) (\<lambda>d. Inr (paper_tick (to_double d) p))"

text \<open>The handlers of the program: only \<^verbatim>\<open>on_last_price\<close> is set.\<close>

definition paper_handlers :: handlers where
  "paper_handlers h \<longleftrightarrow> h = on_last_price"

text \<open>The responses of the stream in their order, each with the price it carries.\<close>

fun paper_feed :: "(payload_case \<times> quotation) list \<Rightarrow> paper \<Rightarrow> (paper_event list \<times> paper) cpp" where
  "paper_feed [] p = Inr ([], p)"
| "paper_feed ((pc, q) # rs) p =
     (if on_last_price \<in> set (dispatch paper_handlers pc)
      then cbind (paper_on_last_price q p) (\<lambda>(evs, p1).
             cbind (paper_feed rs p1) (\<lambda>(evs2, p2). Inr (evs @ evs2, p2)))
      else paper_feed rs p)"

record paper_summary =
  ps_ticks :: int
  ps_realized :: f64
  ps_open :: f64
  ps_total :: f64
  ps_long :: bool

definition paper_report :: "paper \<Rightarrow> paper_summary" where
  "paper_report p =
     (let open_pnl = (if pt_long p \<and> 0 < pt_entry p \<and> 0 < pt_last p
                      then (pt_last p / pt_entry p - 1) * Fin 100 else 0)
      in \<lparr>ps_ticks = pt_ticks p, ps_realized = pt_realized p, ps_open = open_pnl,
          ps_total = pt_realized p + open_pnl, ps_long = pt_long p\<rparr>)"

text \<open>What both programs print of a state of the stream.\<close>

primrec state_name :: "stream_state \<Rightarrow> string" where
  "state_name connecting = ''connecting''"
| "state_name stream_state.connected = ''connected''"
| "state_name disconnected = ''disconnected''"
| "state_name stopped = ''stopped''"

definition state_line :: "stream_state \<Rightarrow> error option \<Rightarrow> string" where
  "state_line s e =
     ''[stream] '' @ state_name s @ (case e of None \<Rightarrow> [] | Some x \<Rightarrow> '': '' @ c_str (error_to_string x)) @ nl"

text \<open>The calls on a stream before the program sleeps; the requests go out as \<open>md_send\<close> decides.\<close>

definition started :: "handlers \<Rightarrow> md_stream" where
  "started h = snd (md_start (new_md_stream h True default_stream_options))"

definition paper_stream :: "string \<Rightarrow> md_stream" where
  "paper_stream instrument =
     snd (md_send (subscribe_trades_default [instrument]) True
       (snd (md_send (subscribe_last_prices [instrument]) True (started paper_handlers))))"

text \<open>The program up to the sleep: the object, the state of the handler, the seconds to sleep.\<close>

definition paper_setup :: "string list \<Rightarrow> (md_stream \<times> paper \<times> int) cpp" where
  "paper_setup args =
     cbind (int_arg args 1 60) (\<lambda>seconds. cbind (int_arg args 2 20) (\<lambda>fast_n. cbind (int_arg args 3 60) (\<lambda>slow_n.
       Inr (paper_stream (instrument_arg args), new_paper fast_n slow_n, seconds))))"

text \<open>A program refuses to run without a token.\<close>

datatype 'a program = Refused string | Runs 'a

definition with_token :: "string option \<Rightarrow> 'a cpp \<Rightarrow> 'a program cpp" where
  "with_token token body =
     (case token of
        None \<Rightarrow> Inr (Refused (''Set TINVEST_TOKEN environment variable'' @ nl))
      | Some t \<Rightarrow> cbind body (\<lambda>x. Inr (Runs x)))"

definition paper_main :: "string option \<Rightarrow> string list \<Rightarrow> (md_stream \<times> paper \<times> int) program cpp" where
  "paper_main token args = with_token token (paper_setup args)"

section \<open>Printing quotes\<close>

record last_price =
  lp_instrument_uid :: string
  lp_price :: quotation

record candle =
  cd_instrument_uid :: string
  cd_open :: quotation
  cd_high :: quotation
  cd_low :: quotation
  cd_close :: quotation
  cd_volume :: int

definition print_last_price :: "last_price \<Rightarrow> string cpp" where
  "print_last_price p = cbind (quotation_text (lp_price p)) (\<lambda>t.
     Inr (''last_price '' @ c_str (lp_instrument_uid p) @ '' = '' @ t @ nl))"

definition print_candle :: "candle \<Rightarrow> string cpp" where
  "print_candle c =
     cbind (quotation_text (cd_open c)) (\<lambda>o1. cbind (quotation_text (cd_high c)) (\<lambda>h.
     cbind (quotation_text (cd_low c)) (\<lambda>l. cbind (quotation_text (cd_close c)) (\<lambda>cl.
       Inr (''candle '' @ c_str (cd_instrument_uid c) @ '' o='' @ o1 @ '' h='' @ h @ '' l='' @ l @ '' c='' @ cl
            @ '' v='' @ show_int (cd_volume c) @ nl)))))"

definition quote_handlers :: handlers where
  "quote_handlers h \<longleftrightarrow> h = on_last_price \<or> h = on_candle"

definition quote_ids :: "string list \<Rightarrow> string list" where
  "quote_ids args = (if args = [] then [''BBG004730N88''] else args)"

definition quote_stream :: "string list \<Rightarrow> md_stream" where
  "quote_stream args =
     snd (md_send (subscribe_candles (quote_ids args) SUBSCRIPTION_INTERVAL_ONE_MINUTE False) True
       (snd (md_send (subscribe_last_prices (quote_ids args)) True (started quote_handlers))))"

definition quote_main :: "string option \<Rightarrow> string list \<Rightarrow> md_stream program cpp" where
  "quote_main token args = with_token token (Inr (quote_stream args))"

section \<open>Paper trading and backtesting agree\<close>

text \<open>The bar that stands for a tick: its price, and the number of the tick as its time.\<close>

definition tick_bar :: "int \<Rightarrow> f64 \<Rightarrow> bar" where
  "tick_bar n price = \<lparr>bar_time = n, bar_open = price, bar_high = price, bar_low = price, bar_close = price, bar_volume = 0\<rparr>"

fun tick_bars :: "int \<Rightarrow> f64 list \<Rightarrow> bar list" where
  "tick_bars n [] = []"
| "tick_bars n (x # xs) = tick_bar (narrow 32 (n + 1)) x # tick_bars (narrow 32 (n + 1)) xs"

fun paper_ticks :: "f64 list \<Rightarrow> paper \<Rightarrow> paper_event list \<times> paper" where
  "paper_ticks [] p = ([], p)"
| "paper_ticks (x # xs) p =
     (fst (paper_tick x p) @ fst (paper_ticks xs (snd (paper_tick x p))), snd (paper_ticks xs (snd (paper_tick x p))))"

fun buys :: "paper_event list \<Rightarrow> (int \<times> f64) list" where
  "buys [] = []"
| "buys (PaperBuy x n # evs) = (n, x) # buys evs"
| "buys (PaperSell x r # evs) = buys evs"

fun sells :: "paper_event list \<Rightarrow> (f64 \<times> f64) list" where
  "sells [] = []"
| "sells (PaperBuy x n # evs) = sells evs"
| "sells (PaperSell x r # evs) = (x, r) # sells evs"

lemma buys_sells_append [simp]: "buys (xs @ ys) = buys xs @ buys ys" "sells (xs @ ys) = sells xs @ sells ys"
  by (induction xs rule: buys.induct) simp_all

lemma length_tick_bars [simp]: "length (tick_bars n xs) = length xs"
  by (induction xs arbitrary: n) simp_all

lemma closes_tick_bars [simp]: "map bar_close (tick_bars n xs) = xs"
  by (induction xs arbitrary: n) (simp_all add: tick_bar_def)

lemma fmul_one: "double_ok a \<Longrightarrow> a * 1 = a"
  by (cases a) (auto simp: f64_ops double_ok_def fl_def Let_def signed_inf_def abs_less_iff)

lemma return_without_fee: "(c / e * (1 - Fin 0) * (1 - Fin 0) - 1) * Fin 100 = (c / e - 1) * Fin 100"
proof -
  have "1 - Fin 0 = 1" by (simp add: f64_ops)
  then show ?thesis by (simp add: fmul_one)
qed

text \<open>The paper trader follows the strategy and the backtester's position.\<close>

definition paper_sim :: "paper \<Rightarrow> ema_cross \<Rightarrow> bt_state \<Rightarrow> bool" where
  "paper_sim p s t \<longleftrightarrow> ec_fast s = pt_fast p \<and> ec_slow s = pt_slow p \<and> ec_prev_above s = pt_prev_above p
     \<and> ec_has_prev s = pt_has_prev p \<and> bt_long t = pt_long p \<and> (pt_long p \<longrightarrow> bt_entry_price t = pt_entry p)"

definition open_buy :: "bt_state \<Rightarrow> (int \<times> f64) list" where
  "open_buy t = (if bt_long t then [(bt_entry_time t, bt_entry_price t)] else [])"

text \<open>What a run of the backtester adds to the log is what the paper trader prints.\<close>

definition same_trades :: "paper \<Rightarrow> bt_state \<Rightarrow> paper_event list \<Rightarrow> paper \<Rightarrow> bt_state \<Rightarrow> bool" where
  "same_trades p t evs p' t' \<longleftrightarrow> (\<exists>new. bt_log t' = bt_log t @ new
     \<and> map (\<lambda>r. (exit_price r, return_pct r)) new = sells evs
     \<and> map (\<lambda>r. (entry_time r, entry_price r)) new @ open_buy t' = open_buy t @ buys evs
     \<and> pt_realized p' = foldl (+) (pt_realized p) (map snd (sells evs)))"

lemma same_trades_refl [simp]: "same_trades p t [] p t"
  by (simp add: same_trades_def)

lemma same_trades_trans:
  assumes "same_trades p t evs p1 t1" "same_trades p1 t1 evs' p2 t2"
  shows "same_trades p t (evs @ evs') p2 t2"
proof -
  obtain n1 n2 where h: "bt_log t1 = bt_log t @ n1" "bt_log t2 = bt_log t1 @ n2"
    "map (\<lambda>r. (exit_price r, return_pct r)) n1 = sells evs" "map (\<lambda>r. (exit_price r, return_pct r)) n2 = sells evs'"
    "map (\<lambda>r. (entry_time r, entry_price r)) n1 @ open_buy t1 = open_buy t @ buys evs"
    "map (\<lambda>r. (entry_time r, entry_price r)) n2 @ open_buy t2 = open_buy t1 @ buys evs'"
    "pt_realized p1 = foldl (+) (pt_realized p) (map snd (sells evs))"
    "pt_realized p2 = foldl (+) (pt_realized p1) (map snd (sells evs'))"
    using assms by (auto simp: same_trades_def)
  have "map (\<lambda>r. (entry_time r, entry_price r)) (n1 @ n2) @ open_buy t2
      = (map (\<lambda>r. (entry_time r, entry_price r)) n1 @ open_buy t1) @ buys evs'"
    using h(6) by simp
  also have "\<dots> = open_buy t @ buys (evs @ evs')" by (simp add: h(5))
  finally show ?thesis unfolding same_trades_def
    by (intro exI [of _ "n1 @ n2"]) (simp add: h)
qed

lemma paper_step:
  assumes "paper_sim p s t" "bar_close b = x" "bar_time b = narrow 32 (pt_ticks p + 1)"
  shows "paper_sim (snd (paper_tick x p)) (snd (ema_cross_on_bar b s)) (bt_bar (Fin 0) b (fst (ema_cross_on_bar b s)) t)
    \<and> same_trades p t (fst (paper_tick x p)) (snd (paper_tick x p)) (bt_bar (Fin 0) b (fst (ema_cross_on_bar b s)) t)
    \<and> pt_ticks (snd (paper_tick x p)) = narrow 32 (pt_ticks p + 1) \<and> pt_last (snd (paper_tick x p)) = x"
  using assms
  by (auto simp: paper_sim_def same_trades_def open_buy_def paper_tick_def paper_cross_def ema_cross_on_bar_def Let_def
      bt_bar_view closing_trade_def return_without_fee)

lemma paper_run:
  assumes "paper_sim p s t" "bs = tick_bars (pt_ticks p) xs" "as = fst (run_bars ema_cross_on_bar bs s)"
  shows "paper_sim (snd (paper_ticks xs p)) (snd (run_bars ema_cross_on_bar bs s)) (bt_trace (Fin 0) (zip bs as) t)
    \<and> same_trades p t (fst (paper_ticks xs p)) (snd (paper_ticks xs p)) (bt_trace (Fin 0) (zip bs as) t)
    \<and> pt_last (snd (paper_ticks xs p)) = last (pt_last p # xs)"
  using assms
proof (induction xs arbitrary: p s t bs as)
  case (Cons x xs)
  let ?b = "tick_bar (narrow 32 (pt_ticks p + 1)) x"
  let ?p = "snd (paper_tick x p)" and ?s = "snd (ema_cross_on_bar ?b s)"
  let ?t = "bt_bar (Fin 0) ?b (fst (ema_cross_on_bar ?b s)) t"
  have step: "paper_sim ?p ?s ?t" "same_trades p t (fst (paper_tick x p)) ?p ?t"
    "pt_ticks ?p = narrow 32 (pt_ticks p + 1)" "pt_last ?p = x"
    using paper_step [OF Cons.prems(1), of ?b x] by (simp_all add: tick_bar_def)
  note IH = Cons.IH [OF step(1) refl refl, unfolded step(3)]
  show ?case
    using IH step(4) same_trades_trans [OF step(2)] Cons.prems(2,3) by auto
qed simp

text \<open>The strategy of the library on the same prices.\<close>

lemma ema_strategy_run:
  "run_strategy (\<lambda>b s. on_bar s b) bs (EmaCross s)
   = Inr (fst (run_bars ema_cross_on_bar bs s), EmaCross (snd (run_bars ema_cross_on_bar bs s)))"
  by (induction bs arbitrary: s) simp_all

lemma paper_start_sim: "paper_sim (new_paper f n) (mk_ema_cross f n) (bt_init b)"
  by (simp add: paper_sim_def new_paper_def mk_ema_cross_def bt_init_def)

text \<open>The prices that reach the handler.\<close>

definition last_prices :: "(payload_case \<times> quotation) list \<Rightarrow> quotation list" where
  "last_prices rs = map snd (filter (\<lambda>r. fst r = kLastPrice) rs)"

lemma paper_handlers_dispatch: "on_last_price \<in> set (dispatch paper_handlers pc) \<longleftrightarrow> pc = kLastPrice"
  by (cases pc) (simp_all add: dispatch_def call_handler_def paper_handlers_def)

lemma paper_feed_ticks:
  "map decimal_of_quotation (last_prices rs) = map Inr ds \<Longrightarrow> paper_feed rs p = Inr (paper_ticks (map to_double ds) p)"
proof (induction rs p arbitrary: ds rule: paper_feed.induct)
  case (2 pc q rs p)
  show ?case
  proof (cases "pc = kLastPrice")
    case True
    then obtain d ds' where "ds = d # ds'" "decimal_of_quotation q = Inr d"
      "map decimal_of_quotation (last_prices rs) = map Inr ds'"
      using 2(3) by (auto simp: last_prices_def)
    then show ?thesis
      using 2(1) True by (cases "paper_tick (to_double d) p") (simp add: paper_handlers_dispatch paper_on_last_price_def split: prod.splits)
  qed (use 2(2,3) in \<open>simp add: paper_handlers_dispatch last_prices_def\<close>)
qed (simp add: last_prices_def)

text \<open>The report of the final state, in terms of what was printed.\<close>

lemma paper_report_agrees:
  assumes "paper_sim p s t" "same_trades (new_paper f n) (bt_init b) evs p t" "bar_close (last bars) = pt_last p"
    "rep = bt_report nm (Fin 0) annualization bars t"
  shows "map (\<lambda>t. (entry_time t, entry_price t)) (trade_log rep) = buys evs
    \<and> map (\<lambda>t. (exit_price t, return_pct t)) (trade_log rep)
        = sells evs @ (if pt_long p then [(pt_last p, (pt_last p / pt_entry p - 1) * Fin 100)] else [])
    \<and> ps_realized (paper_report p) = foldl (+) 0 (map snd (sells evs))
    \<and> (pt_long p \<and> 0 < pt_entry p \<and> 0 < pt_last p \<longrightarrow> ps_open (paper_report p) = return_pct (last (trade_log rep)))"
proof -
  obtain new where new: "bt_log t = new" "map (\<lambda>r. (exit_price r, return_pct r)) new = sells evs"
      "map (\<lambda>r. (entry_time r, entry_price r)) new @ open_buy t = buys evs"
      "pt_realized p = foldl (+) 0 (map snd (sells evs))"
    using assms(2) by (auto simp: same_trades_def bt_init_def open_buy_def new_paper_def)
  let ?c = "closing_trade (Fin 0) (last bars) t"
  have log: "trade_log rep = new @ (if pt_long p then [?c] else [])"
    using new(1) assms(1,4) by (simp add: bt_report_def close_open_def Let_def paper_sim_def)
  have closing: "entry_price ?c = bt_entry_price t" "entry_time ?c = bt_entry_time t" "exit_price ?c = pt_last p"
      "pt_long p \<Longrightarrow> return_pct ?c = (pt_last p / pt_entry p - 1) * Fin 100"
    using assms(1) by (simp_all add: closing_trade_def assms(3) return_without_fee paper_sim_def)
  have long: "bt_long t = pt_long p" using assms(1) by (simp add: paper_sim_def)
  have "map (\<lambda>t. (entry_time t, entry_price t)) (trade_log rep) = buys evs"
    using new(3) closing(1,2) long by (cases "pt_long p") (simp_all add: log open_buy_def)
  moreover have "map (\<lambda>t. (exit_price t, return_pct t)) (trade_log rep)
      = sells evs @ (if pt_long p then [(pt_last p, (pt_last p / pt_entry p - 1) * Fin 100)] else [])"
    using new(2) closing(3,4) by (cases "pt_long p") (simp_all add: log)
  moreover have "ps_realized (paper_report p) = foldl (+) 0 (map snd (sells evs))"
    using new(4) by (simp add: paper_report_def Let_def)
  moreover have "pt_long p \<and> 0 < pt_entry p \<and> 0 < pt_last p
      \<longrightarrow> ps_open (paper_report p) = return_pct (last (trade_log rep))"
    using closing(4) by (simp add: log paper_report_def Let_def)
  ultimately show ?thesis by blast
qed

text \<open>
  C11: paper trading does what the backtester predicts, double for double. On any sequence of
  stream responses, of which only the last prices count, the fills that are printed are the trades
  of EmaCross with the same periods, run by the backtester without commission on bars that close at
  these prices: the same entries at the same ticks, the same exits and the same profits; a
  position that is open at the end is the trade the backtester closes on the last bar, with the profit
  that the summary calls open, and the realised profit is the sum of those of the sells.
\<close>

theorem paper_matches_backtest:
  assumes "map decimal_of_quotation (last_prices rs) = map Inr ds" "2 \<le> length ds" "bars = tick_bars 0 (map to_double ds)"
  shows "\<exists>evs p rep s'. paper_feed rs (new_paper fast_n slow_n) = Inr (evs, p)
    \<and> run_backtest strategy_name (\<lambda>b s. on_bar s b) (EmaCross (mk_ema_cross fast_n slow_n)) bars (Fin 0) annualization
        = Inr (rep, s')
    \<and> map (\<lambda>t. (entry_time t, entry_price t)) (trade_log rep) = buys evs
    \<and> map (\<lambda>t. (exit_price t, return_pct t)) (trade_log rep)
        = sells evs @ (if pt_long p then [(pt_last p, (pt_last p / pt_entry p - 1) * Fin 100)] else [])
    \<and> ps_realized (paper_report p) = foldl (+) 0 (map snd (sells evs))
    \<and> (pt_long p \<and> 0 < pt_entry p \<and> 0 < pt_last p \<longrightarrow> ps_open (paper_report p) = return_pct (last (trade_log rep)))"
proof -
  let ?xs = "map to_double ds" and ?s = "mk_ema_cross fast_n slow_n" and ?start = "new_paper fast_n slow_n"
  let ?as = "fst (run_bars ema_cross_on_bar bars ?s)" and ?s' = "snd (run_bars ema_cross_on_bar bars ?s)"
  let ?t = "bt_trace (Fin 0) (zip bars ?as) (bt_init (hd bars))"
  let ?evs = "fst (paper_ticks ?xs ?start)" and ?p = "snd (paper_ticks ?xs ?start)"
  have feed: "paper_feed rs ?start = Inr (?evs, ?p)" using paper_feed_ticks [OF assms(1), of ?start] by simp
  have len: "2 \<le> length bars" using assms(2,3) by simp
  have fee: "Fin 0 / Fin 100 = Fin 0" by (simp add: f64_ops)
  have bt: "run_backtest strategy_name (\<lambda>b s. on_bar s b) (EmaCross ?s) bars (Fin 0) annualization
      = Inr (bt_report (strategy_name (EmaCross ?s)) (Fin 0) annualization bars ?t, EmaCross ?s')"
    using run_backtest_trace [OF ema_strategy_run len, where nm = strategy_name and commission_pct = "Fin 0"] by (simp only: fee)
  have bars: "bars = tick_bars (pt_ticks ?start) ?xs" using assms(3) by (simp add: new_paper_def)
  from paper_run [OF paper_start_sim bars refl, of "hd bars"]
  have run: "paper_sim ?p ?s' ?t" "same_trades ?start (bt_init (hd bars)) ?evs ?p ?t" "pt_last ?p = last (pt_last ?start # ?xs)"
    by blast+
  have ne: "bars \<noteq> []" "ds \<noteq> []" using len assms(2) by auto
  have last: "bar_close (last bars) = pt_last ?p"
    using last_map [OF ne(1), of bar_close] assms(3) ne(2) run(3) by simp
  from paper_report_agrees [OF run(1,2) last refl, of "strategy_name (EmaCross ?s)" annualization] show ?thesis
    using feed bt by blast
qed

theorem paper_matches_backtest_witness:
  "\<exists>evs p rep s'. paper_feed [(kTrade, \<lparr>q_units = 9, q_nano = 0\<rparr>), (kLastPrice, \<lparr>q_units = 3, q_nano = 0\<rparr>),
        (kPing, \<lparr>q_units = 0, q_nano = 0\<rparr>), (kLastPrice, \<lparr>q_units = 4, q_nano = 0\<rparr>)] (new_paper 1 2) = Inr (evs, p)
    \<and> run_backtest strategy_name (\<lambda>b s. on_bar s b) (EmaCross (mk_ema_cross 1 2))
        (tick_bars 0 [to_double \<lparr>units = 3, nano = 0\<rparr>, to_double \<lparr>units = 4, nano = 0\<rparr>]) (Fin 0) (Fin 252) = Inr (rep, s')
    \<and> map (\<lambda>t. (entry_time t, entry_price t)) (trade_log rep) = buys evs"
proof -
  let ?rs = "[(kTrade, \<lparr>q_units = 9, q_nano = 0\<rparr>), (kLastPrice, \<lparr>q_units = 3, q_nano = 0\<rparr>),
        (kPing, \<lparr>q_units = 0, q_nano = 0\<rparr>), (kLastPrice, \<lparr>q_units = 4, q_nano = 0\<rparr>)]"
  let ?ds = "[\<lparr>units = 3, nano = 0\<rparr>, \<lparr>units = 4, nano = 0\<rparr>]"
  have h: "map decimal_of_quotation (last_prices ?rs) = map Inr ?ds"
    using mk_decimal_id [of "\<lparr>units = 3, nano = 0\<rparr>"] mk_decimal_id [of "\<lparr>units = 4, nano = 0\<rparr>"]
    by (simp add: last_prices_def decimal_of_quotation_def dec_inv_def fits_def kNano_def)
  have l: "2 \<le> length ?ds" by simp
  from paper_matches_backtest [OF h l refl, of 1 2 "Fin 252", unfolded list.map] show ?thesis
    by (elim exE conjE) (intro exI conjI)
qed

section \<open>What the programs subscribe to\<close>

lemma send_before_connection:
  assumes "\<not> md_stopping m" "\<not> md_reactor m" "action_of r = Subscribe"
  shows "md_send r True m = (None, m\<lparr>md_subs := remember_locked r (md_subs m)\<rparr>)"
  using assms by (simp add: md_send_def Let_def)

lemma started_flags [simp]:
  "\<not> md_stopping (started h)" "\<not> md_reactor (started h)" "md_subs (started h) = []" "md_joinable (started h)"
  by (simp_all add: started_def md_start_def new_md_stream_def)

lemma requests_subscribe [simp]:
  "action_of (subscribe_last_prices ids) = Subscribe" "action_of (subscribe_candles ids n b) = Subscribe"
  "action_of (subscribe_trades ids b) = Subscribe"
  by (simp_all add: subscribe_last_prices_def subscribe_candles_def subscribe_trades_def)

lemma show_one [simp]: "show_int 1 = ''1''"
  by code_simp

lemma request_keys:
  "set (keys_of (subscribe_last_prices ids)) = (\<lambda>i. ''last_price|'' @ i) ` set ids"
  "set (keys_of (subscribe_candles ids 1 b)) = (\<lambda>i. ''candles|'' @ i @ ''|1'') ` set ids"
  "set (keys_of (subscribe_trades ids b)) = (\<lambda>i. ''trades|'' @ i) ` set ids"
  by (simp_all add: subscribe_last_prices_def subscribe_candles_def subscribe_trades_def plain_instruments_def
      candle_instruments_def plain_key_def candle_key_def id_of_def image_image comp_def)

lemma remember_keys:
  assumes "registry_ok subs"
  shows "map_of (remember_locked r subs) k \<noteq> None \<longleftrightarrow> k \<in> set (keys_of r) \<or> map_of subs k \<noteq> None"
proof -
  have "map_of (rev (entries_of r)) k = None \<longleftrightarrow> k \<notin> set (keys_of r)"
    by (simp add: map_of_eq_None_iff entries_of_keys [symmetric])
  then show ?thesis using remember_look [OF assms, of r k] by auto
qed

text \<open>
  The subscriptions that the stream examples make right after start are remembered for the
  first connection: the registry then holds exactly the last price of every requested instrument
  and, for the quotes, its one minute candles, for the paper trader its trades, so that a worker
  that connects later asks for all of them. The paper trader, though, sets no handler for the trades
  it subscribes to: no trade ever reaches its strategy.
\<close>

lemma examples_subscribe:
  "md_joinable (quote_stream args) \<and> md_joinable (paper_stream i)
   \<and> dom (map_of (md_subs (quote_stream args)))
      = (\<Union>id\<in>set (quote_ids args). {''last_price|'' @ id, ''candles|'' @ id @ ''|1''})
   \<and> dom (map_of (md_subs (paper_stream i))) = {''last_price|'' @ i, ''trades|'' @ i}
   \<and> paper_feed ((kTrade, q) # rs) p = paper_feed rs p"
proof -
  have empty: "registry_ok []" by (simp add: registry_ok_def map_sorted_def)
  have subs: "md_subs (quote_stream args) = remember_locked (subscribe_candles (quote_ids args) 1 False)
      (remember_locked (subscribe_last_prices (quote_ids args)) [])"
    "md_subs (paper_stream i) = remember_locked (subscribe_trades [i] False) (remember_locked (subscribe_last_prices [i]) [])"
    by (simp_all add: quote_stream_def paper_stream_def subscribe_trades_default_def SUBSCRIPTION_INTERVAL_ONE_MINUTE_def send_before_connection)
  have joinable: "md_joinable (quote_stream args)" "md_joinable (paper_stream i)"
    by (simp_all add: quote_stream_def paper_stream_def subscribe_trades_default_def send_before_connection)
  have ok: "registry_ok (remember_locked (subscribe_last_prices ids) [])" for ids
    by (simp add: registry_ok_remember empty)
  have "dom (map_of (md_subs (quote_stream args)))
      = (\<Union>id\<in>set (quote_ids args). {''last_price|'' @ id, ''candles|'' @ id @ ''|1''})"
    unfolding dom_def subs remember_keys [OF ok] remember_keys [OF empty] request_keys by auto
  moreover have "dom (map_of (md_subs (paper_stream i))) = {''last_price|'' @ i, ''trades|'' @ i}"
    unfolding dom_def subs remember_keys [OF ok] remember_keys [OF empty] request_keys by auto
  ultimately show ?thesis using joinable by (simp add: paper_handlers_dispatch)
qed

end
