(* ===== verification/Market_Data_Runs.thy ===== *)
theory Market_Data_Runs
  imports Market_Data_Stream
begin

text \<open>
  Runs of a market data stream as its users see them: construction, \<^verbatim>\<open>start\<close>, \<^verbatim>\<open>send\<close> and \<^verbatim>\<open>stop\<close>
  as functions on the machine of \<open>Market_Data_Stream\<close>, and the run in which a subscription is lost on
  a healthy connection.
\<close>

section \<open>User operations on a stream\<close>

definition fresh_sys :: "handlers \<Rightarrow> bool \<Rightarrow> stream_options \<Rightarrow> md_sys" where
  "fresh_sys h on_state opts =
     \<lparr>my_obj = new_md_stream h on_state opts, my_pc = MDetached, my_attempt = 0, my_log = [], my_calls = [],
      my_bound = False, my_holds = 0, my_reading = False, my_writing = False, my_written = [],
      my_pending = 0, my_misuse = False, my_snapshot = [], my_queued = [], my_cancelled = False\<rparr>"

definition sys_start :: "md_sys \<Rightarrow> md_sys" where
  "sys_start y = (case md_start (my_obj y) of (launched, m) \<Rightarrow>
     if launched then y\<lparr>my_obj := m, my_pc := MLoopTop, my_attempt := 0\<rparr> else y)"

definition sys_send :: "md_request \<Rightarrow> md_sys \<Rightarrow> md_sys" where
  "sys_send r y = (case md_send r True (my_obj y) of (w, m) \<Rightarrow>
     reactor_write w (y\<lparr>my_queued := (if can_queue (my_obj y) then my_queued y @ [r] else my_queued y), my_obj := m\<rparr>))"

text \<open>\<^verbatim>\<open>stop\<close> up to its join; the release of the hold is a step of the machine.\<close>

definition sys_stop :: "md_sys \<Rightarrow> md_sys" where
  "sys_stop y = (case md_stop (my_obj y) of (release, cancel, m) \<Rightarrow>
     add_release release (y\<lparr>my_obj := m, my_cancelled := my_cancelled y \<or> cancel\<rparr>))"

lemma fresh_reach: "md.reach (fresh_sys h n opts)"
  by (rule md.reach_init) (auto simp: md_initial_def fresh_sys_def)

lemma sys_start_reach:
  assumes "md.reach y" "my_pc y = MDetached \<or> my_pc y = MFinished"
  shows "md.reach (sys_start y)"
proof (cases "fst (md_start (my_obj y))")
  case True
  then obtain m where m: "md_start (my_obj y) = (True, m)" by (metis prod.collapse)
  then have "sys_start y = y\<lparr>my_obj := m, my_pc := MLoopTop, my_attempt := 0\<rparr>"
    by (simp add: sys_start_def)
  then show ?thesis using md.reach_step [OF assms(1)] m_start [OF m assms(2)] by auto
next
  case False
  then have "sys_start y = y" by (cases "md_start (my_obj y)") (simp add: sys_start_def)
  then show ?thesis using assms(1) by simp
qed

lemma sys_send_reach: "md.reach y \<Longrightarrow> md.reach (sys_send r y)"
proof -
  assume "md.reach y"
  obtain w m where m: "md_send r True (my_obj y) = (w, m)" by (metis surj_pair)
  have "md_step MUser y (sys_send r y)"
    using m_send [OF m] m by (simp add: sys_send_def can_queue_def)
  then show ?thesis using md.reach_step [OF \<open>md.reach y\<close>] by blast
qed

lemma sys_stop_reach: "md.reach y \<Longrightarrow> md.reach (sys_stop y)"
proof -
  assume "md.reach y"
  obtain release cancel m where m: "md_stop (my_obj y) = (release, cancel, m)" by (metis prod_cases3)
  have "md_step MUser y (sys_stop y)" using m_stop [OF m] m by (simp add: sys_stop_def)
  then show ?thesis using md.reach_step [OF \<open>md.reach y\<close>] by blast
qed

text \<open>What the operations do to the position of the worker and to the stop request.\<close>

lemma reactor_write_view [simp]: "my_pc (reactor_write w y) = my_pc y" "my_obj (reactor_write w y) = my_obj y"
  by (simp_all add: reactor_write_def split: option.splits)

lemma add_release_view [simp]: "my_pc (add_release b y) = my_pc y" "my_obj (add_release b y) = my_obj y"
  by (simp_all add: add_release_def)

lemma sys_view [simp]:
  "my_pc (sys_send r y) = my_pc y"
  "my_pc (sys_stop y) = my_pc y"
  "md_stopping (my_obj (sys_stop y))"
  by (simp_all add: sys_send_def sys_stop_def md_stop_def Let_def split: prod.splits)

lemma started_fresh: "my_pc (sys_start (fresh_sys h n opts)) = MLoopTop" "md.reach (sys_start (fresh_sys h n opts))"
proof -
  show "my_pc (sys_start (fresh_sys h n opts)) = MLoopTop"
    by (simp add: sys_start_def fresh_sys_def md_start_def new_md_stream_def)
  show "md.reach (sys_start (fresh_sys h n opts))"
    by (rule sys_start_reach [OF fresh_reach]) (simp add: fresh_sys_def)
qed

lemma md_step_attached: "md_step a y y' \<Longrightarrow> my_pc y \<noteq> MDetached \<Longrightarrow> my_pc y' \<noteq> MDetached"
  by (erule md_stepE)
    (auto simp: md_run_top_def md_snapshot_def md_run_once_end_def md_run_after_def md_run_wake_def Let_def
      reactor_begin_def reactor_remove_hold_def split: if_splits)

lemma fresh_no_step: "a \<noteq> MUser \<Longrightarrow> \<not> md_step a (fresh_sys h n opts) y"
  by (auto simp: fresh_sys_def elim!: md_stepE)

lemma md_step_keeps_stopping: "md_step a y y' \<Longrightarrow> a \<noteq> MUser \<Longrightarrow> md_stopping (my_obj y') = md_stopping (my_obj y)"
  by (erule md_stepE)
    (auto simp: md_snapshot_def md_publish_def md_run_once_end_def md_handle_response_def md_handle_read_closed_def
      md_handle_write_done_def md_handle_done_def maybe_write_locked_def reactor_begin_def reactor_remove_hold_def
      Let_def split: if_splits prod.splits)

section \<open>A lost subscription\<close>

text \<open>The stream whose worker has copied its empty registry, and the same stream connected, after a
  subscription in between.\<close>

definition copied_sys :: "handlers \<Rightarrow> bool \<Rightarrow> stream_options \<Rightarrow> md_sys" where
  "copied_sys h n opts =
     (fresh_sys h n opts)\<lparr>my_obj := (new_md_stream h n opts)\<lparr>md_joinable := True, md_ctx := True\<rparr>,
        my_pc := MSnapshot, my_log := (if n then [(connecting, None)] else [])\<rparr>"

definition lost_sys :: "handlers \<Rightarrow> bool \<Rightarrow> stream_options \<Rightarrow> md_request \<Rightarrow> md_sys" where
  "lost_sys h n opts r =
     (copied_sys h n opts)\<lparr>my_obj := (my_obj (copied_sys h n opts))\<lparr>md_reactor := True, md_subs := remember_locked r []\<rparr>,
        my_pc := MStreaming, my_bound := True, my_holds := 1, my_reading := True\<rparr>"

lemma copied_run: "(md_step MWorker)\<^sup>*\<^sup>* (sys_start (fresh_sys h n opts)) (copied_sys h n opts)"
proof -
  let ?y1 = "sys_start (fresh_sys h n opts)"
  let ?y2 = "?y1\<lparr>my_pc := MConnecting, my_log := md_notify connecting None (my_obj ?y1)\<rparr>"
  note [simp] = fresh_sys_def new_md_stream_def sys_start_def md_start_def md_notify_def copied_sys_def
  have 1: "md_step MWorker ?y1 ?y2"
    using m_top [of ?y1 "md_notify connecting None (my_obj ?y1)" MConnecting] by (simp add: md_run_top_def)
  have 2: "md_step MWorker ?y2 (copied_sys h n opts)"
    using m_snapshot [of ?y2 "my_obj (copied_sys h n opts)" MSnapshot] by (simp add: md_snapshot_def)
  from 1 2 show ?thesis by (meson converse_rtranclp_into_rtranclp rtranclp.rtrancl_refl)
qed

lemma lost_run:
  assumes "action_of r = Subscribe"
  shows "(md_step MWorker)\<^sup>*\<^sup>* (sys_send r (copied_sys h n opts)) (lost_sys h n opts r)"
proof -
  let ?y = "sys_send r (copied_sys h n opts)"
  let ?z = "?y\<lparr>my_pc := MBegun, my_bound := True, my_holds := 1, my_reading := True\<rparr>"
  have y: "?y = (copied_sys h n opts)\<lparr>my_obj := (my_obj (copied_sys h n opts))\<lparr>md_subs := remember_locked r []\<rparr>\<rparr>"
    by (simp add: sys_send_def md_send_def assms reactor_write_def can_queue_def Let_def copied_sys_def
        fresh_sys_def new_md_stream_def)
  note [simp] = copied_sys_def fresh_sys_def new_md_stream_def
  have 1: "md_step MWorker ?y ?z" unfolding y
    using m_begin [of "(copied_sys h n opts)\<lparr>my_obj := (my_obj (copied_sys h n opts))\<lparr>md_subs := remember_locked r []\<rparr>\<rparr>"]
    by (simp add: reactor_begin_def)
  have 2: "md_step MWorker ?z (lost_sys h n opts r)"
    using m_publish [of ?z False None "my_obj (lost_sys h n opts r)"] unfolding y
    by (simp add: md_publish_def maybe_write_locked_def reactor_write_def add_release_def lost_sys_def)
  from 1 2 show ?thesis by (meson converse_rtranclp_into_rtranclp rtranclp.rtrancl_refl)
qed

lemma worker_run_reach: "(md_step MWorker)\<^sup>*\<^sup>* y y' \<Longrightarrow> md.reach y \<Longrightarrow> md.reach y'"
  by (induction rule: rtranclp_induct) (auto intro: md.reach_step)

lemma lost_sys_reach: "action_of r = Subscribe \<Longrightarrow> md.reach (lost_sys h n opts r)"
  using worker_run_reach [OF lost_run sys_send_reach [OF worker_run_reach [OF copied_run started_fresh(2)]]] .

text \<open>Connected, with nothing written, nothing to write and no reason to reconnect.\<close>

definition idle_connection :: "md_sys \<Rightarrow> bool" where
  "idle_connection y \<longleftrightarrow> my_pc y = MStreaming \<and> md_reactor (my_obj y) \<and> \<not> md_broken (my_obj y)
     \<and> \<not> md_hold_released (my_obj y) \<and> \<not> my_writing y \<and> my_written y = [] \<and> md_queue (my_obj y) = []"

text \<open>A step of the stream or of gRPC that leaves the connection intact.\<close>

definition intact_step :: "md_sys \<Rightarrow> md_sys \<Rightarrow> bool" where
  "intact_step y y' \<longleftrightarrow> (\<exists>a. a \<noteq> MUser \<and> md_step a y y' \<and> \<not> md_broken (my_obj y'))"

lemma idle_intact:
  assumes "md.reach y" "idle_connection y" "intact_step y y'"
  shows "idle_connection y'"
proof -
  have c: "call_live y"
    using md.reach_inv [OF assms(1)] assms(2) call_ok_published
    by (auto simp: md_inv_def md_control_def idle_connection_def)
  from assms(3) obtain a where a: "a \<noteq> MUser" "md_step a y y'" "\<not> md_broken (my_obj y')"
    by (auto simp: intact_step_def)
  from a(2) show ?thesis
    using a(1,3) assms(2) c
    by cases (auto simp: idle_connection_def call_live_def md_handle_response_def md_handle_read_closed_def Let_def
        split: if_splits)
qed

text \<open>
  C22: a subscription can be lost on a healthy connection, whatever the handlers, the options and
  the subscription: one that is made after \<^verbatim>\<open>run_once\<close> has copied the registry and before it publishes
  the reactor is registered, but neither copied nor queued. The stream is then connected with
  nothing written and nothing to write, and stays so, whatever the worker and gRPC do, until the
  connection breaks or the user sends something else.
\<close>

theorem subscription_lost:
  assumes "action_of r = Subscribe"
  shows "\<exists>s. md.reach s \<and> md_handlers (my_obj s) = h \<and> md_opts (my_obj s) = opts
     \<and> md_subs (my_obj s) = remember_locked r []
     \<and> (\<forall>s'. intact_step\<^sup>*\<^sup>* s s' \<longrightarrow> idle_connection s')"
proof (intro exI conjI allI impI)
  let ?s = "lost_sys h True opts r"
  show "md.reach ?s" by (rule lost_sys_reach [OF assms])
  show "md_handlers (my_obj ?s) = h" "md_opts (my_obj ?s) = opts" "md_subs (my_obj ?s) = remember_locked r []"
    by (simp_all add: lost_sys_def copied_sys_def new_md_stream_def)
  have idle: "idle_connection ?s"
    by (simp add: lost_sys_def copied_sys_def new_md_stream_def fresh_sys_def idle_connection_def)
  fix s' assume "intact_step\<^sup>*\<^sup>* ?s s'"
  then have "md.reach s' \<and> idle_connection s'"
  proof (induction rule: rtranclp_induct)
    case base
    then show ?case using lost_sys_reach [OF assms] idle by simp
  next
    case (step y z)
    then have "md.reach z" by (auto simp: intact_step_def intro: md.reach_step)
    then show ?case using step idle_intact by blast
  qed
  then show "idle_connection s'" ..
qed

theorem subscription_lost_witness:
  "\<exists>s. md.reach s \<and> md_subs (my_obj s) = [(''trades|A'', subscribe_trades [''A''] False)] \<and> idle_connection s"
proof -
  have "action_of demo_early = Subscribe" by (rule demo_actions)
  from subscription_lost [OF this, of "\<lambda>_. True" default_stream_options] demo_early_remembered show ?thesis
    by (auto simp: demo_early_def)
qed

end
