(* ===== verification/Stream_Restart.thy ===== *)
theory Stream_Restart
  imports Market_Data_Runs
begin

text \<open>
  \<^verbatim>\<open>MarketDataStream\<close> with any number of workers. \<^verbatim>\<open>stop\<close> moves the thread out of the object under
  the lock and joins it afterwards, so a \<^verbatim>\<open>start\<close> by another thread in between launches a second
  worker on the same object. Each worker has its own reactor, a local variable of \<^verbatim>\<open>run_once\<close>, and its
  own call; the fields of the object, among them the pointers to the reactor and to the context, are shared.

  The locked regions are the functions of \<open>Market_Data_Stream\<close>; here the machine is a function of the
  sequence of actions, so that runs can be evaluated. A \<^verbatim>\<open>start\<close> is possible whenever the code lets it
  through.

  Shown: as long as every \<^verbatim>\<open>start\<close> finds the earlier workers finished, the machine is the one with
  one worker: the reactors are used correctly, the reports conform and a stop cancels what is open;
  without that, the reactor of a worker can be destroyed while gRPC still uses it, and the reports
  of two workers mix.
\<close>

section \<open>The machine\<close>

record rs_worker =
  rw_pc :: md_pc
  rw_attempt :: nat
  rw_bound :: bool
  rw_holds :: int
  rw_reading :: bool
  rw_writing :: bool
  rw_cancelled :: bool

definition no_worker :: rs_worker where
  "no_worker = \<lparr>rw_pc = MDetached, rw_attempt = 0, rw_bound = False, rw_holds = 0, rw_reading = False, rw_writing = False,
     rw_cancelled = False\<rparr>"

text \<open>
  \<open>rs_target\<close> and \<open>rs_ctx\<close> are the workers to whose reactor and context \<^verbatim>\<open>reactor_\<close> and \<^verbatim>\<open>ctx_\<close> point;
  \<open>rs_pending\<close> are the holds that some thread owes; \<open>rs_log\<close> are the reports, newest first.
\<close>

record rs_sys =
  rs_obj :: md_stream
  rs_target :: "nat option"
  rs_work :: "nat \<Rightarrow> rs_worker"
  rs_count :: nat
  rs_pending :: "nat list"
  rs_misuse :: bool
  rs_ctx :: "nat option"
  rs_log :: "(stream_state \<times> error option) list"

definition rs_init :: "handlers \<Rightarrow> bool \<Rightarrow> stream_options \<Rightarrow> rs_sys" where
  "rs_init h n opts = \<lparr>rs_obj = new_md_stream h n opts, rs_target = None, rs_work = (\<lambda>_. no_worker), rs_count = 0,
     rs_pending = [], rs_misuse = False, rs_ctx = None, rs_log = []\<rparr>"

definition rs_set :: "nat \<Rightarrow> rs_worker \<Rightarrow> rs_sys \<Rightarrow> rs_sys" where
  "rs_set i w s = s\<lparr>rs_work := (rs_work s)(i := w)\<rparr>"

definition rs_write :: "md_request option \<Rightarrow> rs_sys \<Rightarrow> rs_sys" where
  "rs_write w s = (case w of
     None \<Rightarrow> s
   | Some r \<Rightarrow> (case rs_target s of
        None \<Rightarrow> s\<lparr>rs_misuse := True\<rparr>
      | Some j \<Rightarrow> let k = rs_work s j in
          rs_set j (k\<lparr>rw_writing := True\<rparr>)
            (s\<lparr>rs_misuse := rs_misuse s \<or> \<not> rw_bound k \<or> rw_writing k \<or> rw_holds k \<le> 0\<rparr>)))"

definition rs_owe :: "bool \<Rightarrow> rs_sys \<Rightarrow> rs_sys" where
  "rs_owe release s = (case (release, rs_target s) of
     (True, Some j) \<Rightarrow> s\<lparr>rs_pending := rs_pending s @ [j]\<rparr>
   | _ \<Rightarrow> s)"

definition rs_cancel :: "bool \<Rightarrow> rs_sys \<Rightarrow> rs_sys" where
  "rs_cancel cancel s = (case (cancel, rs_ctx s) of
     (True, Some j) \<Rightarrow> rs_set j ((rs_work s j)\<lparr>rw_cancelled := True\<rparr>) s
   | _ \<Rightarrow> s)"

definition rs_report :: "(stream_state \<times> error option) list \<Rightarrow> rs_sys \<Rightarrow> rs_sys" where
  "rs_report ev s = s\<lparr>rs_log := ev @ rs_log s\<rparr>"

definition rs_remove_hold :: "nat \<Rightarrow> rs_sys \<Rightarrow> rs_sys" where
  "rs_remove_hold i s = (let k = rs_work s i in
     rs_set i (k\<lparr>rw_holds := rw_holds k - 1\<rparr>)
       (s\<lparr>rs_misuse := rs_misuse s \<or> \<not> rw_bound k \<or> rw_holds k \<le> 0\<rparr>))"

datatype rs_action =
    RStart | RStop | RSend md_request bool
  | RTop nat | RSnapshot nat | RBegin nat | RPublish nat | ROnceEnd nat | RAfter nat | RWake nat | RLeave nat
  | RReadOk nat payload_case | RReadClosed nat | RWriteDone nat bool | RRelease | RDone nat "status_code \<times> string"

fun rs_exec :: "rs_action \<Rightarrow> rs_sys \<Rightarrow> rs_sys option" where
  "rs_exec RStart s = (case md_start (rs_obj s) of (launched, m) \<Rightarrow>
     if launched
     then Some ((rs_set (rs_count s) (no_worker\<lparr>rw_pc := MLoopTop\<rparr>) s)\<lparr>rs_obj := m, rs_count := Suc (rs_count s)\<rparr>)
     else Some s)"
| "rs_exec RStop s = (case md_stop (rs_obj s) of (release, cancel, m) \<Rightarrow>
     Some (rs_owe release (rs_cancel cancel (s\<lparr>rs_obj := m\<rparr>))))"
| "rs_exec (RSend r remember) s = (case md_send r remember (rs_obj s) of (w, m) \<Rightarrow> Some (rs_write w (s\<lparr>rs_obj := m\<rparr>)))"
| "rs_exec (RTop i) s = (let k = rs_work s i in
     if rw_pc k = MLoopTop
     then (case md_run_top (rs_obj s) of (ev, pc) \<Rightarrow> Some (rs_report ev (rs_set i (k\<lparr>rw_pc := pc\<rparr>) s))) else None)"
| "rs_exec (RSnapshot i) s = (let k = rs_work s i in
     if rw_pc k = MConnecting
     then (case md_snapshot (rs_obj s) of (m, pc) \<Rightarrow>
       Some (rs_set i (k\<lparr>rw_pc := pc, rw_cancelled := (pc \<noteq> MSnapshot \<and> rw_cancelled k)\<rparr>)
         (s\<lparr>rs_obj := m, rs_ctx := (if pc = MSnapshot then Some i else rs_ctx s)\<rparr>)))
     else None)"
| "rs_exec (RBegin i) s = (let k = rs_work s i in
     if rw_pc k = MSnapshot
     then Some (rs_set i (k\<lparr>rw_pc := MBegun, rw_bound := True, rw_holds := 1, rw_reading := True, rw_writing := False\<rparr>) s)
     else None)"
| "rs_exec (RPublish i) s = (let k = rs_work s i in
     if rw_pc k = MBegun
     then (case md_publish (rs_obj s) of (release, w, m) \<Rightarrow>
       Some (rs_owe release (rs_write w (rs_set i (k\<lparr>rw_pc := MStreaming\<rparr>)
         (s\<lparr>rs_obj := m, rs_target := (if md_done (rs_obj s) then rs_target s else Some i)\<rparr>)))))
     else None)"
| "rs_exec (ROnceEnd i) s = (let k = rs_work s i in
     if rw_pc k = MStreaming \<and> md_done (rs_obj s)
     then (case md_run_once_end (rs_obj s) of (m, pc) \<Rightarrow>
       Some (rs_set i (k\<lparr>rw_pc := pc\<rparr>) (s\<lparr>rs_obj := m, rs_ctx := None\<rparr>)))
     else None)"
| "rs_exec (RAfter i) s = (let k = rs_work s i in
     case rw_pc k of
       MReturned st \<Rightarrow> (case md_run_after (rw_attempt k) st (rs_obj s) of (ev, att, pc) \<Rightarrow>
         Some (rs_report ev (rs_set i (k\<lparr>rw_pc := pc, rw_attempt := att\<rparr>) s)))
     | _ \<Rightarrow> None)"
| "rs_exec (RWake i) s = (let k = rs_work s i in
     case rw_pc k of MBackoff d \<Rightarrow> Some (rs_set i (k\<lparr>rw_pc := md_run_wake (rs_obj s)\<rparr>) s) | _ \<Rightarrow> None)"
| "rs_exec (RLeave i) s = (let k = rs_work s i in
     if rw_pc k = MLeaving
     then Some (rs_report (md_notify stopped None (rs_obj s)) (rs_set i (k\<lparr>rw_pc := MFinished\<rparr>) s)) else None)"
| "rs_exec (RReadOk i p) s =
     (if rw_reading (rs_work s i)
      then (case md_handle_response p (rs_obj s) of (ev, hs, m) \<Rightarrow> Some (rs_report ev (s\<lparr>rs_obj := m\<rparr>))) else None)"
| "rs_exec (RReadClosed i) s = (let k = rs_work s i in
     if rw_reading k
     then (case md_handle_read_closed (rs_obj s) of (release, m) \<Rightarrow>
       Some (rs_owe release (rs_set i (k\<lparr>rw_reading := False\<rparr>) (s\<lparr>rs_obj := m\<rparr>))))
     else None)"
| "rs_exec (RWriteDone i ok) s = (let k = rs_work s i in
     if rw_writing k
     then (case md_handle_write_done ok (rs_obj s) of (release, w, m) \<Rightarrow>
       Some (rs_owe release (rs_write w (rs_set i (k\<lparr>rw_writing := False\<rparr>) (s\<lparr>rs_obj := m\<rparr>)))))
     else None)"
| "rs_exec RRelease s = (case rs_pending s of
     [] \<Rightarrow> None
   | i # is \<Rightarrow> Some (rs_remove_hold i (s\<lparr>rs_pending := is\<rparr>)))"
| "rs_exec (RDone i st) s = (let k = rs_work s i in
     if rw_bound k \<and> rw_holds k = 0 \<and> \<not> rw_reading k \<and> \<not> rw_writing k
     then Some (rs_set i (k\<lparr>rw_bound := False\<rparr>) (s\<lparr>rs_obj := md_handle_done st (rs_obj s), rs_target := None\<rparr>))
     else None)"

text \<open>A start that launches a worker finds all earlier ones finished.\<close>

definition rs_joined :: "rs_sys \<Rightarrow> bool" where
  "rs_joined s \<longleftrightarrow> list_all (\<lambda>i. rw_pc (rs_work s i) = MFinished) [0..<rs_count s]"

definition rs_start_ok :: "rs_action \<Rightarrow> rs_sys \<Rightarrow> bool" where
  "rs_start_ok a s \<longleftrightarrow> (case a of RStart \<Rightarrow> md_joinable (rs_obj s) \<or> rs_joined s | _ \<Rightarrow> True)"

text \<open>The reactor of a worker lives while the worker is in \<^verbatim>\<open>run_once\<close>.\<close>

definition dangling :: "rs_sys \<Rightarrow> nat \<Rightarrow> bool" where
  "dangling s i \<longleftrightarrow> rw_bound (rs_work s i) \<and> rw_pc (rs_work s i) \<notin> {MBegun, MStreaming}"

definition restart_run :: "rs_action list" where
  "restart_run =
     [RStart, RTop 0, RSnapshot 0, RBegin 0, RPublish 0, RStop, RReadClosed 0, RRelease,
      RStart, RTop 1, RSnapshot 1, RBegin 1, RPublish 1, RDone 0 (CANCELLED, []), ROnceEnd 1]"

lemmas rs_ops = rs_set_def rs_cancel_def rs_report_def rs_write_def rs_owe_def rs_remove_hold_def no_worker_def md_start_def md_stop_def md_run_top_def
  md_snapshot_def md_publish_def maybe_write_locked_def md_run_once_end_def md_handle_read_closed_def md_handle_done_def
  new_md_stream_def

section \<open>Starting only after the join\<close>

text \<open>The worker that was launched last, and the machine with one worker that it makes up.\<close>

definition rs_cur :: "rs_sys \<Rightarrow> nat" where
  "rs_cur s = rs_count s - 1"

definition rs_gone :: "rs_worker \<Rightarrow> bool" where
  "rs_gone k \<longleftrightarrow> rw_pc k \<in> {MDetached, MFinished} \<and> \<not> rw_bound k \<and> \<not> rw_reading k \<and> \<not> rw_writing k"

definition same_worker :: "rs_worker \<Rightarrow> md_sys \<Rightarrow> bool" where
  "same_worker k y \<longleftrightarrow> rw_pc k = my_pc y \<and> rw_attempt k = my_attempt y \<and> rw_bound k = my_bound y
     \<and> (my_bound y \<longrightarrow> rw_holds k = my_holds y) \<and> rw_reading k = my_reading y \<and> rw_writing k = my_writing y
     \<and> (in_run_once (my_pc y) \<longrightarrow> rw_cancelled k = my_cancelled y)"

definition rs_sim :: "rs_sys \<Rightarrow> md_sys \<Rightarrow> bool" where
  "rs_sim s y \<longleftrightarrow> rs_obj s = my_obj y \<and> rs_misuse s = my_misuse y \<and> rs_log s = my_log y
     \<and> (md_ctx (my_obj y) \<longrightarrow> rs_ctx s = Some (rs_cur s))
     \<and> same_worker (rs_work s (rs_cur s)) y \<and> (\<forall>i. i \<noteq> rs_cur s \<longrightarrow> rs_gone (rs_work s i))
     \<and> rs_pending s = replicate (my_pending y) (rs_cur s)
     \<and> (md_reactor (my_obj y) \<longrightarrow> rs_target s = Some (rs_cur s))
     \<and> (rs_count s = 0 \<longrightarrow> my_pc y = MDetached)"

lemma rs_sim_init: "rs_sim (rs_init h n opts) ((fresh_sys h n opts))"
  by (simp add: rs_sim_def rs_init_def fresh_sys_def same_worker_def rs_gone_def no_worker_def rs_cur_def new_md_stream_def in_run_once_def)

lemma rs_simD:
  assumes "rs_sim s y"
  shows "rs_obj s = my_obj y" "same_worker (rs_work s (rs_cur s)) y"
    and "i \<noteq> rs_cur s \<Longrightarrow> rs_gone (rs_work s i)" and "rs_log s = my_log y"
    and "md_ctx (my_obj y) \<Longrightarrow> rs_ctx s = Some (rs_cur s)"
  using assms by (simp_all add: rs_sim_def)

text \<open>Updates of the object and of the current worker, writes and releases on both sides.\<close>

lemma rs_sim_set:
  assumes "rs_sim s y" "same_worker k y'" "my_obj y' = m" "my_misuse y' = my_misuse y" "my_pending y' = my_pending y"
    and "md_reactor m \<Longrightarrow> t = Some (rs_cur s)" and "rs_count s = 0 \<Longrightarrow> my_pc y' = MDetached"
    and "md_ctx m \<Longrightarrow> c = Some (rs_cur s)" and "my_log y' = ev @ my_log y"
  shows "rs_sim (rs_report ev (rs_set (rs_cur s) k (s\<lparr>rs_obj := m, rs_target := t, rs_ctx := c\<rparr>))) y'"
  using assms by (simp add: rs_sim_def rs_set_def rs_report_def rs_cur_def)

lemma rs_sim_write:
  assumes "rs_sim s y" "w = None \<or> md_reactor (my_obj y)"
  shows "rs_sim (rs_write w s) (reactor_write w y)"
proof (cases w)
  case None
  then show ?thesis using assms(1) by (simp add: rs_write_def reactor_write_def)
next
  case (Some r)
  then have "rs_target s = Some (rs_cur s)" using assms by (simp add: rs_sim_def)
  with assms(1) Some show ?thesis
    by (auto simp: rs_sim_def rs_write_def reactor_write_def Let_def rs_set_def same_worker_def rs_cur_def)
qed

lemma rs_sim_owe:
  assumes "rs_sim s y" "release \<Longrightarrow> md_reactor (my_obj y)"
  shows "rs_sim (rs_owe release s) (add_release release y)"
proof (cases release)
  case True
  then have "rs_target s = Some (rs_cur s)" using assms by (simp add: rs_sim_def)
  with assms(1) True show ?thesis
    by (simp add: rs_sim_def rs_owe_def add_release_def rs_cur_def replicate_append_same same_worker_def)
qed (use assms(1) in \<open>simp add: rs_owe_def add_release_def\<close>)

text \<open>A region releases the hold or writes only when the pointer to the reactor is set.\<close>

lemma region_reactor:
  "md_stop m = (release, cancel, m') \<Longrightarrow> md_reactor m' = md_reactor m \<and> (release \<longrightarrow> md_reactor m')"
  "md_handle_read_closed m = (release, m') \<Longrightarrow> md_reactor m' = md_reactor m \<and> (release \<longrightarrow> md_reactor m')"
  "maybe_write_locked m = (w, m') \<Longrightarrow> md_reactor m' = md_reactor m \<and> (w = None \<or> md_reactor m')"
  "md_send r b m = (w, m') \<Longrightarrow> md_reactor m' = md_reactor m \<and> (w = None \<or> md_reactor m')"
  "md_handle_write_done ok m = (release, w, m') \<Longrightarrow> md_reactor m' = md_reactor m \<and> (w = None \<or> md_reactor m') \<and> (release \<longrightarrow> md_reactor m')"
  "md_publish m = (release, w, m') \<Longrightarrow> md_reactor m' = (md_reactor m \<or> \<not> md_done m) \<and> (w = None \<or> md_reactor m') \<and> (release \<longrightarrow> md_reactor m')"
  by (auto simp: md_stop_def md_handle_read_closed_def maybe_write_locked_def md_send_def md_handle_write_done_def
      md_publish_def Let_def split: if_splits)

lemma rs_sim_current:
  assumes "rs_sim s y" "\<not> rs_gone (rs_work s i)"
  shows "i = rs_cur s" "same_worker (rs_work s i) y"
proof -
  show "i = rs_cur s" using assms rs_simD(3) by blast
  then show "same_worker (rs_work s i) y" using rs_simD(2) [OF assms(1)] by simp
qed

lemma rs_sim_pc:
  assumes "rs_sim s y" "rw_pc (rs_work s i) \<notin> {MDetached, MFinished}"
  shows "i = rs_cur s" "my_pc y = rw_pc (rs_work s i)" "rs_count s \<noteq> 0" "same_worker (rs_work s i) y"
proof -
  have gone: "\<not> rs_gone (rs_work s i)" using assms(2) by (simp add: rs_gone_def)
  show i: "i = rs_cur s" "same_worker (rs_work s i) y" by (rule rs_sim_current [OF assms(1) gone])+
  then show pc: "my_pc y = rw_pc (rs_work s i)" by (simp add: same_worker_def)
  show "rs_count s \<noteq> 0" using assms pc by (auto simp: rs_sim_def)
qed

text \<open>Worker steps that change the position of the worker and the object.\<close>

lemma rs_sim_worker:
  assumes "rs_sim s y" "rw_pc (rs_work s i) \<notin> {MDetached, MFinished}"
    and "md_step MWorker y y'" "same_worker k y'" "my_obj y' = m" "my_misuse y' = my_misuse y"
      "my_pending y' = my_pending y" "my_log y' = ev @ my_log y" "md_reactor m = md_reactor (rs_obj s)"
      "md_ctx m \<Longrightarrow> c = Some i"
  shows "\<exists>y'. (y' = y \<or> (\<exists>b. md_step b y y')) \<and> rs_sim (rs_report ev (rs_set i k (s\<lparr>rs_obj := m, rs_ctx := c\<rparr>))) y'"
proof -
  have t: "rs_target s = Some (rs_cur s)" if "md_reactor m" using that assms(1,9) by (simp add: rs_sim_def)
  have "rs_sim (rs_report ev (rs_set (rs_cur s) k (s\<lparr>rs_obj := m, rs_target := rs_target s, rs_ctx := c\<rparr>))) y'"
    by (rule rs_sim_set [OF assms(1,4-7)]) (use t rs_sim_pc(1,3) [OF assms(1,2)] assms(8,10) in simp_all)
  then show ?thesis using rs_sim_pc(1) [OF assms(1,2)] assms(3) by auto
qed

lemma rs_sim_start:
  assumes sim: "rs_sim s y" and reach: "md.reach y" and exec: "rs_exec RStart s = Some s'"
    and joined: "md_joinable (rs_obj s) \<or> rs_joined s"
  shows "\<exists>y'. (y' = y \<or> (\<exists>b. md_step b y y')) \<and> rs_sim s' y'"
proof (cases "md_joinable (rs_obj s)")
  case True
  then show ?thesis using exec sim by (intro exI [of _ y]) (simp add: md_start_def)
next
  case False
  let ?m = "(rs_obj s)\<lparr>md_stopping := False, md_joinable := True\<rparr>"
  let ?y = "y\<lparr>my_obj := ?m, my_pc := MLoopTop, my_attempt := 0\<rparr>"
  have pc: "my_pc y = MDetached \<or> my_pc y = MFinished"
    using sim joined False by (cases "rs_count s") (auto simp: rs_sim_def rs_joined_def rs_cur_def same_worker_def list_all_iff)
  then have idle: "call_idle y" "\<not> md_ctx (my_obj y)"
    using md.reach_inv [OF reach] by (auto simp: md_inv_def md_control_def call_ok_def md_cancels_def in_run_once_def)
  have gone: "rs_gone (rs_work s i)" for i
    using sim idle pc by (cases "i = rs_cur s") (auto simp: rs_sim_def same_worker_def rs_gone_def call_idle_def)
  have obj: "rs_obj s = my_obj y" by (rule rs_simD(1) [OF sim])
  have "md_step MUser y ?y" using m_start [of y ?m] False pc obj by (simp add: md_start_def)
  moreover have s': "s' = (rs_set (rs_count s) (no_worker\<lparr>rw_pc := MLoopTop\<rparr>) s)\<lparr>rs_obj := ?m, rs_count := Suc (rs_count s)\<rparr>"
    using exec False by (simp add: md_start_def)
  have "rs_misuse s = my_misuse y" "rs_log s = my_log y" "rs_pending s = replicate (my_pending y) (rs_cur s)"
    using sim by (simp_all add: rs_sim_def)
  then have "rs_sim s' ?y"
    using gone idle obj unfolding s'
    by (simp add: rs_sim_def rs_set_def rs_cur_def same_worker_def no_worker_def call_idle_def in_run_once_def)
  ultimately show ?thesis by blast
qed

lemma rs_sim_RTop:
  assumes sim: "rs_sim s y" and exec: "rs_exec (RTop i) s = Some s'"
  shows "\<exists>y'. (y' = y \<or> (\<exists>b. md_step b y y')) \<and> rs_sim s' y'"
proof -
  let ?k = "rs_work s i"
  note obj = rs_simD(1) [OF sim] and view = rs_sim_pc [OF sim, of i]
  obtain ev pc where r: "md_run_top (rs_obj s) = (ev, pc)" by (metis surj_pair)
  have k: "rw_pc ?k = MLoopTop" "s' = rs_report ev (rs_set i (?k\<lparr>rw_pc := pc\<rparr>) (s\<lparr>rs_obj := rs_obj s, rs_ctx := rs_ctx s\<rparr>))"
    using exec r by (auto simp: Let_def split: if_splits)
  moreover have "\<not> in_run_once pc" using r by (auto simp: md_run_top_def in_run_once_def split: if_splits)
  ultimately show ?thesis
    using view m_top [of y ev pc] r obj rs_simD(5) [OF sim] unfolding k(2)
    by (intro rs_sim_worker [OF sim, where y' = "y\<lparr>my_pc := pc, my_log := ev @ my_log y\<rparr>"]) (simp_all add: same_worker_def)
qed

lemma rs_sim_RSnapshot:
  assumes sim: "rs_sim s y" and exec: "rs_exec (RSnapshot i) s = Some s'"
  shows "\<exists>y'. (y' = y \<or> (\<exists>b. md_step b y y')) \<and> rs_sim s' y'"
proof -
  let ?k = "rs_work s i"
  note obj = rs_simD(1) [OF sim] and view = rs_sim_pc [OF sim, of i]
  obtain m pc where r: "md_snapshot (rs_obj s) = (m, pc)" by (metis surj_pair)
  have k: "rw_pc ?k = MConnecting" "s' = rs_report [] (rs_set i (?k\<lparr>rw_pc := pc, rw_cancelled := (pc \<noteq> MSnapshot \<and> rw_cancelled ?k)\<rparr>)
      (s\<lparr>rs_obj := m, rs_ctx := (if pc = MSnapshot then Some i else rs_ctx s)\<rparr>))"
    using exec r by (auto simp: Let_def rs_report_def rs_set_def split: if_splits)
  moreover have "md_reactor m = md_reactor (rs_obj s)" "pc = MSnapshot \<or> m = rs_obj s \<and> \<not> in_run_once pc"
    using r by (auto simp: md_snapshot_def in_run_once_def split: if_splits)
  ultimately show ?thesis
    using view m_snapshot [of y m pc] r obj rs_simD(5) [OF sim] unfolding k(2)
    by (intro rs_sim_worker [OF sim, where y' = "y\<lparr>my_obj := m, my_pc := pc,
        my_snapshot := (if pc = MSnapshot then map snd (md_subs m) else my_snapshot y),
        my_queued := (if pc = MSnapshot then [] else my_queued y),
        my_cancelled := (pc \<noteq> MSnapshot \<and> my_cancelled y)\<rparr>"]) (auto simp: same_worker_def)
qed

lemma rs_sim_RBegin:
  assumes sim: "rs_sim s y" and exec: "rs_exec (RBegin i) s = Some s'"
  shows "\<exists>y'. (y' = y \<or> (\<exists>b. md_step b y y')) \<and> rs_sim s' y'"
proof -
  let ?k = "rs_work s i"
  note obj = rs_simD(1) [OF sim] and view = rs_sim_pc [OF sim, of i]
  have k: "rw_pc ?k = MSnapshot" "s' = rs_report [] (rs_set i (?k\<lparr>rw_pc := MBegun, rw_bound := True, rw_holds := 1, rw_reading := True,
      rw_writing := False\<rparr>) (s\<lparr>rs_obj := rs_obj s, rs_ctx := rs_ctx s\<rparr>))"
    using exec by (auto simp: Let_def rs_report_def rs_set_def split: if_splits)
  then show ?thesis
    using view m_begin [of y] obj rs_simD(5) [OF sim] unfolding k(2)
    by (intro rs_sim_worker [OF sim, where y' = "reactor_begin (y\<lparr>my_pc := MBegun\<rparr>)"])
      (simp_all add: same_worker_def reactor_begin_def in_run_once_def)
qed

lemma rs_sim_ROnceEnd:
  assumes sim: "rs_sim s y" and exec: "rs_exec (ROnceEnd i) s = Some s'"
  shows "\<exists>y'. (y' = y \<or> (\<exists>b. md_step b y y')) \<and> rs_sim s' y'"
proof -
  let ?k = "rs_work s i"
  note obj = rs_simD(1) [OF sim] and view = rs_sim_pc [OF sim, of i]
  obtain m pc where r: "md_run_once_end (rs_obj s) = (m, pc)" by (metis surj_pair)
  have k: "rw_pc ?k = MStreaming" "md_done (rs_obj s)"
    "s' = rs_report [] (rs_set i (?k\<lparr>rw_pc := pc\<rparr>) (s\<lparr>rs_obj := m, rs_ctx := None\<rparr>))"
    using exec r by (auto simp: Let_def rs_report_def rs_set_def split: if_splits)
  moreover have "md_reactor m = md_reactor (rs_obj s)" "\<not> md_ctx m" "\<not> in_run_once pc"
    using r by (auto simp: md_run_once_end_def in_run_once_def)
  ultimately show ?thesis
    using view m_once_end [of y m pc] r obj unfolding k(3)
    by (intro rs_sim_worker [OF sim, where y' = "y\<lparr>my_obj := m, my_pc := pc\<rparr>"]) (simp_all add: same_worker_def)
qed

lemma rs_sim_RAfter:
  assumes sim: "rs_sim s y" and exec: "rs_exec (RAfter i) s = Some s'"
  shows "\<exists>y'. (y' = y \<or> (\<exists>b. md_step b y y')) \<and> rs_sim s' y'"
proof -
  let ?k = "rs_work s i"
  note obj = rs_simD(1) [OF sim] and view = rs_sim_pc [OF sim, of i]
  obtain st where st: "rw_pc ?k = MReturned st" using exec by (auto simp: Let_def split: md_pc.splits)
  obtain ev att pc where r: "md_run_after (rw_attempt ?k) st (rs_obj s) = (ev, att, pc)" by (metis prod_cases3)
  have k: "s' = rs_report ev (rs_set i (?k\<lparr>rw_pc := pc, rw_attempt := att\<rparr>) (s\<lparr>rs_obj := rs_obj s, rs_ctx := rs_ctx s\<rparr>))"
    using exec r st by (simp add: Let_def)
  have "\<not> in_run_once pc" using r by (auto simp: md_run_after_def in_run_once_def Let_def split: if_splits)
  then show ?thesis
    using view m_after [of y st ev att pc] r obj st rs_simD(5) [OF sim] unfolding k
    by (intro rs_sim_worker [OF sim, where y' = "y\<lparr>my_pc := pc, my_attempt := att, my_log := ev @ my_log y\<rparr>"])
      (simp_all add: same_worker_def)
qed

lemma rs_sim_RWake:
  assumes sim: "rs_sim s y" and exec: "rs_exec (RWake i) s = Some s'"
  shows "\<exists>y'. (y' = y \<or> (\<exists>b. md_step b y y')) \<and> rs_sim s' y'"
proof -
  let ?k = "rs_work s i"
  note obj = rs_simD(1) [OF sim] and view = rs_sim_pc [OF sim, of i]
  obtain d where d: "rw_pc ?k = MBackoff d" using exec by (auto simp: Let_def split: md_pc.splits)
  have k: "s' = rs_report [] (rs_set i (?k\<lparr>rw_pc := md_run_wake (rs_obj s)\<rparr>) (s\<lparr>rs_obj := rs_obj s, rs_ctx := rs_ctx s\<rparr>))"
    using exec d by (simp add: Let_def rs_report_def rs_set_def)
  have "\<not> in_run_once (md_run_wake (rs_obj s))" by (simp add: md_run_wake_def in_run_once_def)
  then show ?thesis
    using view m_wake [of y d] obj d rs_simD(5) [OF sim] unfolding k
    by (intro rs_sim_worker [OF sim, where y' = "y\<lparr>my_pc := md_run_wake (my_obj y)\<rparr>"]) (simp_all add: same_worker_def)
qed

lemma rs_sim_RLeave:
  assumes sim: "rs_sim s y" and exec: "rs_exec (RLeave i) s = Some s'"
  shows "\<exists>y'. (y' = y \<or> (\<exists>b. md_step b y y')) \<and> rs_sim s' y'"
proof -
  let ?k = "rs_work s i"
  note obj = rs_simD(1) [OF sim] and view = rs_sim_pc [OF sim, of i]
  have k: "rw_pc ?k = MLeaving" "s' = rs_report (md_notify stopped None (rs_obj s))
      (rs_set i (?k\<lparr>rw_pc := MFinished\<rparr>) (s\<lparr>rs_obj := rs_obj s, rs_ctx := rs_ctx s\<rparr>))"
    using exec by (auto simp: Let_def split: if_splits)
  then show ?thesis
    using view m_leave [of y] obj rs_simD(5) [OF sim] unfolding k(2)
    by (intro rs_sim_worker [OF sim, where y' = "y\<lparr>my_pc := MFinished, my_log := md_notify stopped None (my_obj y) @ my_log y\<rparr>"])
      (simp_all add: same_worker_def in_run_once_def)
qed

text \<open>User operations and reactions.\<close>

lemma rs_sim_obj:
  assumes "rs_sim s y" "md_reactor m = md_reactor (rs_obj s)" "my_obj y' = m" "my_misuse y' = my_misuse y"
    "my_pending y' = my_pending y" "same_worker (rs_work s (rs_cur s)) y'" "my_pc y' = my_pc y"
    "my_log y' = my_log y" "md_ctx m = md_ctx (rs_obj s)"
  shows "rs_sim (s\<lparr>rs_obj := m\<rparr>) y'"
  using assms by (simp add: rs_sim_def rs_cur_def)

lemma rs_sim_cancel:
  assumes "rs_sim s y" "cancel \<Longrightarrow> md_ctx (my_obj y)"
  shows "rs_sim (rs_cancel cancel s) (y\<lparr>my_cancelled := my_cancelled y \<or> cancel\<rparr>)"
proof (cases cancel)
  case True
  then have "rs_ctx s = Some (rs_cur s)" using assms by (simp add: rs_sim_def)
  with assms(1) True show ?thesis by (simp add: rs_sim_def rs_cancel_def rs_set_def rs_cur_def same_worker_def)
qed (use assms(1) in \<open>simp add: rs_cancel_def\<close>)

lemma rs_sim_user:
  assumes sim: "rs_sim s y"
  shows "rs_exec RStop s = Some s' \<Longrightarrow> \<exists>y'. md_step MUser y y' \<and> rs_sim s' y'"
    and "rs_exec (RSend r b) s = Some s' \<Longrightarrow> \<exists>y'. md_step MUser y y' \<and> rs_sim s' y'"
proof -
  note obj = rs_simD(1) [OF sim] and wk = rs_simD(2) [OF sim]
  { assume exec: "rs_exec RStop s = Some s'"
    obtain release cancel m where r: "md_stop (rs_obj s) = (release, cancel, m)" by (metis prod_cases3)
    let ?y = "y\<lparr>my_obj := m, my_cancelled := my_cancelled y \<or> cancel\<rparr>"
    have c: "md_ctx m = md_ctx (rs_obj s)" "cancel = md_ctx m" using r by (auto simp: md_stop_def Let_def)
    have "rs_sim (s\<lparr>rs_obj := m\<rparr>) (y\<lparr>my_obj := m\<rparr>)"
      using region_reactor(1) [OF r] wk c by (intro rs_sim_obj [OF sim]) (simp_all add: same_worker_def)
    from rs_sim_cancel [OF this, of cancel] c have "rs_sim (rs_cancel cancel (s\<lparr>rs_obj := m\<rparr>)) ?y" by simp
    moreover have "s' = rs_owe release (rs_cancel cancel (s\<lparr>rs_obj := m\<rparr>))" using exec r by simp
    ultimately have "rs_sim s' (add_release release ?y)"
      using region_reactor(1) [OF r] by (auto intro: rs_sim_owe)
    then show "\<exists>y'. md_step MUser y y' \<and> rs_sim s' y'" using m_stop [of y] r obj by metis }
  { assume exec: "rs_exec (RSend r b) s = Some s'"
    obtain w m where r: "md_send r b (rs_obj s) = (w, m)" by (metis surj_pair)
    let ?y = "y\<lparr>my_queued := (if can_queue (my_obj y) then my_queued y @ [r] else my_queued y), my_obj := m\<rparr>"
    have "rs_sim (s\<lparr>rs_obj := m\<rparr>) ?y"
      using region_reactor(4) [OF r] ctx_view(2) [OF r] wk by (intro rs_sim_obj [OF sim]) (simp_all add: same_worker_def)
    then have "rs_sim (rs_write w (s\<lparr>rs_obj := m\<rparr>)) (reactor_write w ?y)"
      by (rule rs_sim_write) (use region_reactor(4) [OF r] in auto)
    moreover have "s' = rs_write w (s\<lparr>rs_obj := m\<rparr>)" using exec r by simp
    ultimately have "rs_sim s' (reactor_write w ?y)" by (simp only:)
    moreover have "md_step MUser y (reactor_write w ?y)"
      using m_send [of r b y w m "can_queue (my_obj y)"] r obj by (simp add: can_queue_def)
    ultimately show "\<exists>y'. md_step MUser y y' \<and> rs_sim s' y'" by blast }
qed

lemma rs_sim_RPublish:
  assumes sim: "rs_sim s y" and exec: "rs_exec (RPublish i) s = Some s'"
  shows "\<exists>y'. (y' = y \<or> (\<exists>b. md_step b y y')) \<and> rs_sim s' y'"
proof -
  let ?k = "rs_work s i"
  note obj = rs_simD(1) [OF sim] and view = rs_sim_pc [OF sim, of i]
  obtain release w m where r: "md_publish (rs_obj s) = (release, w, m)" by (metis prod_cases3)
  let ?t = "if md_done (rs_obj s) then rs_target s else Some i"
  let ?s = "rs_set i (?k\<lparr>rw_pc := MStreaming\<rparr>) (s\<lparr>rs_obj := m, rs_target := ?t\<rparr>)"
  let ?y = "y\<lparr>my_pc := MStreaming, my_obj := m\<rparr>"
  have k: "rw_pc ?k = MBegun" "s' = rs_owe release (rs_write w ?s)"
    using exec r by (auto simp: Let_def split: if_splits)
  then have i: "i = rs_cur s" and pc: "my_pc y = MBegun" "rs_count s \<noteq> 0" "same_worker ?k y" using view by simp_all
  note re = region_reactor(6) [OF r]
  have t: "?t = Some (rs_cur s)" if "md_reactor m" using that re sim i obj by (auto simp: rs_sim_def)
  have "rs_sim (rs_report [] (rs_set (rs_cur s) (?k\<lparr>rw_pc := MStreaming\<rparr>)
      (s\<lparr>rs_obj := m, rs_target := ?t, rs_ctx := rs_ctx s\<rparr>))) ?y"
    by (rule rs_sim_set [OF sim _ _ _ _ t])
      (use pc rs_simD(5) [OF sim] ctx_view(5) [OF r] obj in \<open>simp_all add: same_worker_def in_run_once_def\<close>)
  then have "rs_sim ?s ?y" using i by (simp add: rs_report_def rs_set_def)
  then have "rs_sim (rs_write w ?s) (reactor_write w ?y)" using re by (intro rs_sim_write) auto
  then have "rs_sim s' (add_release release (reactor_write w ?y))"
    unfolding k(2) using re by (intro rs_sim_owe) auto
  moreover have "md_step MWorker y (add_release release (reactor_write w ?y))"
    using m_publish [OF pc(1)] r obj by simp
  ultimately show ?thesis by blast
qed

lemma rs_sim_RReadOk:
  assumes sim: "rs_sim s y" and exec: "rs_exec (RReadOk i p) s = Some s'"
  shows "\<exists>y'. (y' = y \<or> (\<exists>b. md_step b y y')) \<and> rs_sim s' y'"
proof -
  obtain ev hs m where r: "md_handle_response p (rs_obj s) = (ev, hs, m)" by (metis prod_cases3)
  have k: "rw_reading (rs_work s i)" "s' = rs_report ev (s\<lparr>rs_obj := m\<rparr>)" using exec r by (auto split: if_splits)
  then have "my_reading y" using rs_sim_current [OF sim, of i] by (simp add: rs_gone_def same_worker_def)
  let ?y = "y\<lparr>my_obj := m, my_log := ev @ my_log y, my_calls := rev hs @ my_calls y\<rparr>"
  have "md_step MDelivery y ?y" using m_read_ok [OF \<open>my_reading y\<close>] r rs_simD(1) [OF sim] by simp
  moreover have "md_reactor m = md_reactor (rs_obj s)" "md_ctx m = md_ctx (rs_obj s)"
    using r by (auto simp: md_handle_response_def)
  then have "rs_sim (s\<lparr>rs_obj := m\<rparr>) (y\<lparr>my_obj := m\<rparr>)"
    using rs_simD(2) [OF sim] by (intro rs_sim_obj [OF sim]) (simp_all add: same_worker_def)
  then have "rs_sim s' ?y" unfolding k(2) by (simp add: rs_sim_def rs_report_def rs_cur_def same_worker_def)
  ultimately show ?thesis by blast
qed

lemma rs_sim_reaction:
  assumes sim: "rs_sim s y" and gone: "\<not> rs_gone (rs_work s i)" and m: "md_reactor m = md_reactor (rs_obj s)"
      "md_ctx m = md_ctx (rs_obj s)"
    and log: "my_log y' = my_log y" and y': "same_worker k y'" "my_obj y' = m" "my_misuse y' = my_misuse y" "my_pending y' = my_pending y" "my_pc y' = my_pc y"
  shows "rs_sim (rs_set i k (s\<lparr>rs_obj := m\<rparr>)) y'"
proof -
  have "rs_sim (rs_report [] (rs_set (rs_cur s) k (s\<lparr>rs_obj := m, rs_target := rs_target s, rs_ctx := rs_ctx s\<rparr>))) y'"
    using sim m y' log by (intro rs_sim_set [OF sim]) (simp_all add: rs_sim_def)
  then show ?thesis using rs_sim_current(1) [OF sim gone] by (simp add: rs_report_def rs_set_def)
qed

lemma rs_sim_RReadClosed:
  assumes sim: "rs_sim s y" and exec: "rs_exec (RReadClosed i) s = Some s'"
  shows "\<exists>y'. (y' = y \<or> (\<exists>b. md_step b y y')) \<and> rs_sim s' y'"
proof -
  let ?k = "rs_work s i"
  obtain release m where r: "md_handle_read_closed (rs_obj s) = (release, m)" by (metis surj_pair)
  let ?s = "rs_set i (?k\<lparr>rw_reading := False\<rparr>) (s\<lparr>rs_obj := m\<rparr>)" and ?y = "y\<lparr>my_reading := False, my_obj := m\<rparr>"
  have k: "rw_reading ?k" "s' = rs_owe release ?s" using exec r by (auto simp: Let_def split: if_splits)
  then have gone: "\<not> rs_gone ?k" by (simp add: rs_gone_def)
  have wk: "same_worker ?k y" by (rule rs_sim_current(2) [OF sim gone])
  then have "md_step MCompletion y (add_release release ?y)"
    using m_read_closed [of y release m] r rs_simD(1) [OF sim] k(1) by (simp add: same_worker_def)
  moreover have "rs_sim ?s ?y"
    using wk region_reactor(2) [OF r] ctx_view(3) [OF r] by (intro rs_sim_reaction [OF sim gone]) (simp_all add: same_worker_def)
  then have "rs_sim s' (add_release release ?y)"
    unfolding k(2) using region_reactor(2) [OF r] by (intro rs_sim_owe) auto
  ultimately show ?thesis by blast
qed

lemma rs_sim_RWriteDone:
  assumes sim: "rs_sim s y" and exec: "rs_exec (RWriteDone i ok) s = Some s'"
  shows "\<exists>y'. (y' = y \<or> (\<exists>b. md_step b y y')) \<and> rs_sim s' y'"
proof -
  let ?k = "rs_work s i"
  obtain release w m where r: "md_handle_write_done ok (rs_obj s) = (release, w, m)" by (metis prod_cases3)
  let ?s = "rs_set i (?k\<lparr>rw_writing := False\<rparr>) (s\<lparr>rs_obj := m\<rparr>)" and ?y = "y\<lparr>my_writing := False, my_obj := m\<rparr>"
  have k: "rw_writing ?k" "s' = rs_owe release (rs_write w ?s)" using exec r by (auto simp: Let_def split: if_splits)
  then have gone: "\<not> rs_gone ?k" by (simp add: rs_gone_def)
  note re = region_reactor(5) [OF r]
  have wk: "same_worker ?k y" by (rule rs_sim_current(2) [OF sim gone])
  then have "md_step MCompletion y (add_release release (reactor_write w ?y))"
    using m_write_done [of y ok release w m] r rs_simD(1) [OF sim] k(1) by (simp add: same_worker_def)
  moreover have "rs_sim ?s ?y"
    using wk re ctx_view(4) [OF r] by (intro rs_sim_reaction [OF sim gone]) (simp_all add: same_worker_def)
  then have "rs_sim (rs_write w ?s) (reactor_write w ?y)" using re by (intro rs_sim_write) auto
  then have "rs_sim s' (add_release release (reactor_write w ?y))"
    unfolding k(2) using re by (intro rs_sim_owe) auto
  ultimately show ?thesis by blast
qed

lemma rs_sim_RRelease:
  assumes sim: "rs_sim s y" and exec: "rs_exec RRelease s = Some s'"
  shows "\<exists>y'. (y' = y \<or> (\<exists>b. md_step b y y')) \<and> rs_sim s' y'"
proof -
  from exec obtain i "is" where p: "rs_pending s = i # is" by (cases "rs_pending s") auto
  then obtain n where n: "my_pending y = Suc n" using sim by (cases "my_pending y") (simp_all add: rs_sim_def)
  then have i: "i = rs_cur s" "is = replicate n (rs_cur s)" using sim p by (simp_all add: rs_sim_def)
  have s': "s' = rs_remove_hold (rs_cur s) (s\<lparr>rs_pending := replicate n (rs_cur s)\<rparr>)" using exec p i by simp
  have "rs_sim s' (reactor_remove_hold (y\<lparr>my_pending := n\<rparr>))"
    using sim unfolding s'
    by (auto simp: rs_sim_def rs_remove_hold_def reactor_remove_hold_def Let_def rs_set_def same_worker_def rs_cur_def)
  then show ?thesis using m_release [of y] n by auto
qed

lemma rs_sim_RDone:
  assumes sim: "rs_sim s y" and exec: "rs_exec (RDone i st) s = Some s'"
  shows "\<exists>y'. (y' = y \<or> (\<exists>b. md_step b y y')) \<and> rs_sim s' y'"
proof -
  let ?k = "rs_work s i" and ?m = "md_handle_done st (rs_obj s)"
  let ?y = "y\<lparr>my_bound := False, my_obj := md_handle_done st (my_obj y)\<rparr>"
  have k: "rw_bound ?k" "rw_holds ?k = 0" "\<not> rw_reading ?k" "\<not> rw_writing ?k"
    "s' = rs_set i (?k\<lparr>rw_bound := False\<rparr>) (s\<lparr>rs_obj := ?m, rs_target := None\<rparr>)"
    using exec by (auto simp: Let_def split: if_splits)
  then have gone: "\<not> rs_gone ?k" by (simp add: rs_gone_def)
  note cur = rs_sim_current [OF sim gone]
  have "md_step MCompletion y ?y" using m_done [of y st] k cur(2) by (simp add: same_worker_def)
  moreover have "rs_sim (rs_report [] (rs_set (rs_cur s) (?k\<lparr>rw_bound := False\<rparr>)
      (s\<lparr>rs_obj := ?m, rs_target := None, rs_ctx := rs_ctx s\<rparr>))) ?y"
    by (rule rs_sim_set [OF sim])
      (use sim cur k rs_simD(1) [OF sim] in \<open>simp_all add: same_worker_def md_handle_done_def rs_sim_def\<close>)
  then have "rs_sim s' ?y" unfolding k(5) using cur(1) by (simp add: rs_report_def rs_set_def)
  ultimately show ?thesis by blast
qed

lemmas rs_sim_exec_cases = rs_sim_RTop rs_sim_RSnapshot rs_sim_RBegin rs_sim_RPublish rs_sim_ROnceEnd rs_sim_RAfter
  rs_sim_RWake rs_sim_RLeave rs_sim_RReadOk rs_sim_RReadClosed rs_sim_RWriteDone rs_sim_RRelease rs_sim_RDone

interpretation rs: action_simulation rs_exec rs_start_ok "\<lambda>y y'. \<exists>b. md_step b y y'" md.reach rs_sim
proof
  show "md.reach y'" if "md.reach y" "\<exists>b. md_step b y y'" for y y'
    using that by (rule md.reach_step)
  fix s s' y a
  assume sim: "rs_sim s y" and reach: "md.reach y" and ok: "rs_start_ok a s" and exec: "rs_exec a s = Some s'"
  show "\<exists>y'. (y' = y \<or> (\<exists>b. md_step b y y')) \<and> rs_sim s' y'"
  proof (cases a)
    case RStart
    then show ?thesis using rs_sim_start [OF sim reach] exec ok by (simp add: rs_start_ok_def)
  next
    case RStop
    then show ?thesis using rs_sim_user(1) [OF sim] exec by blast
  next
    case (RSend r b)
    then show ?thesis using rs_sim_user(2) [OF sim] exec by blast
  qed (insert exec, simp only:, erule rs_sim_exec_cases [OF sim])+
qed

lemma rs_sim_safe:
  assumes "md.reach y" "rs_sim s y"
  shows "\<not> rs_misuse s \<and> \<not> dangling s i"
proof -
  have c: "md_control y" using md.reach_inv [OF assms(1)] by (simp add: md_inv_def)
  have "\<not> dangling s i"
  proof (cases "i = rs_cur s")
    case True
    then have "rw_bound (rs_work s i) = my_bound y" "rw_pc (rs_work s i) = my_pc y"
      using rs_simD(2) [OF assms(2)] by (simp_all add: same_worker_def)
    then show ?thesis using c by (cases "my_pc y") (auto simp: dangling_def md_control_def call_ok_def call_idle_def)
  next
    case False
    then show ?thesis using rs_simD(3) [OF assms(2)] by (simp add: dangling_def rs_gone_def)
  qed
  moreover have "\<not> rs_misuse s" using c assms(2) by (simp add: md_control_def rs_sim_def)
  ultimately show ?thesis by simp
qed

text \<open>
  C1: restarting a stream is safe when every \<^verbatim>\<open>start\<close> that launches a worker comes after the earlier
  workers have finished, whatever else is interleaved: no reactor is destroyed while its call
  is bound, and none is written to or released out of turn.
\<close>

theorem restart_after_join_safe:
  assumes "run_actions rs_exec as (rs_init h n opts) = Some s" "disciplined rs_exec rs_start_ok as (rs_init h n opts)"
  shows "\<not> rs_misuse s \<and> \<not> dangling s i"
  using rs.run_sim [OF assms rs_sim_init fresh_reach] rs_sim_safe by blast

lemma md_reach_errors: "md.reach y \<Longrightarrow> \<forall>(st, e)\<in>set (my_log y). e \<noteq> None \<longleftrightarrow> st = disconnected"
proof (induction rule: md.reach.induct)
  case (reach_step y y')
  then show ?case using md_step_errors by blast
qed (simp add: md_initial_def)

lemma rs_sim_cancelled:
  assumes "md.reach y" "rs_sim s y" "rw_bound (rs_work s i)" "md_stopping (rs_obj s)"
  shows "rw_cancelled (rs_work s i)"
proof -
  have inv: "md_control y" "md_cancels y" using md.reach_inv [OF assms(1)] by (simp_all add: md_inv_def)
  have wk: "same_worker (rs_work s i) y"
    using rs_sim_current(2) [OF assms(2)] assms(3) by (simp add: rs_gone_def)
  then have "in_run_once (my_pc y)"
    using inv(1) assms(3) by (cases "my_pc y") (simp_all add: same_worker_def md_control_def call_ok_def call_idle_def in_run_once_def)
  then show ?thesis using wk inv(2) assms(4) rs_simD(1) [OF assms(2)] by (simp add: same_worker_def md_cancels_def)
qed

text \<open>
  C19: under the same discipline, however often a market data stream is stopped and started again
  and whatever else is interleaved, its state callback sees a conforming sequence: \<^verbatim>\<open>connected\<close> only
  right after \<^verbatim>\<open>connecting\<close>, \<^verbatim>\<open>disconnected\<close> only after one of these, \<^verbatim>\<open>connecting\<close> only at the
  beginning or after \<^verbatim>\<open>disconnected\<close> or \<^verbatim>\<open>stopped\<close>; an error comes with \<^verbatim>\<open>disconnected\<close> and only then;
  and once the stream is told to stop, every call that is still open has been cancelled.
\<close>

theorem restart_reports_conform:
  assumes "run_actions rs_exec as (rs_init h n opts) = Some s" "disciplined rs_exec rs_start_ok as (rs_init h n opts)"
  shows "protocol (map fst (rs_log s))
    \<and> (\<forall>(st, e)\<in>set (rs_log s). e \<noteq> None \<longleftrightarrow> st = disconnected)
    \<and> (\<forall>i. rw_bound (rs_work s i) \<and> md_stopping (rs_obj s) \<longrightarrow> rw_cancelled (rs_work s i))"
proof -
  obtain y where y: "md.reach y" "rs_sim s y" using rs.run_sim [OF assms rs_sim_init fresh_reach] by blast
  then show ?thesis
    using md.reach_protocol [OF y(1)] md_reach_errors [OF y(1)] rs_simD(4) [OF y(2)] rs_sim_cancelled [OF y] by simp
qed

definition restarted_twice :: "rs_action list" where
  "restarted_twice =
     [RStart, RTop 0, RSnapshot 0, RBegin 0, RPublish 0, RReadOk 0 kPing, RReadClosed 0, RRelease, RDone 0 (UNAVAILABLE, ''x''),
      ROnceEnd 0, RAfter 0, RStop, RWake 0, RLeave 0, RStart, RTop 1, RSnapshot 1, RBegin 1, RStop]"

theorem restart_reports_conform_witness:
  "\<exists>s. run_actions rs_exec restarted_twice (rs_init (\<lambda>_. True) True default_stream_options) = Some s
     \<and> protocol (map fst (rs_log s)) \<and> rw_bound (rs_work s 1) \<and> rw_cancelled (rs_work s 1)
     \<and> rev (map fst (rs_log s)) = [connecting, connected, disconnected, stopped, connecting]"
proof -
  let ?i = "rs_init (\<lambda>_. True) True default_stream_options"
  note defs = restarted_twice_def rs_init_def rs_ops md_run_after_def md_run_wake_def md_handle_response_def md_notify_def
    default_stream_options_def Let_def
  have ok: "disciplined rs_exec rs_start_ok restarted_twice ?i" by (simp add: defs rs_joined_def rs_start_ok_def)
  obtain s where s: "run_actions rs_exec restarted_twice ?i = Some s" "rw_bound (rs_work s 1)" "md_stopping (rs_obj s)"
    "rev (map fst (rs_log s)) = [connecting, connected, disconnected, stopped, connecting]"
    by (simp add: defs)
  show ?thesis using restart_reports_conform [OF s(1) ok] s by blast
qed

text \<open>Without the discipline the reports of two workers mix.\<close>

lemma restart_during_stop_mixes_reports:
  "\<exists>s. run_actions rs_exec [RStart, RTop 0, RSnapshot 0, RBegin 0, RPublish 0, RReadOk 0 p, RStop, RStart, RTop 1]
      (rs_init h True opts) = Some s \<and> map fst (rs_log s) = [connecting, connected, connecting]
      \<and> \<not> protocol (map fst (rs_log s))"
  by (simp add: rs_init_def rs_ops md_handle_response_def md_notify_def Let_def)

text \<open>
  A \<^verbatim>\<open>start\<close> between the locked region of a concurrent \<^verbatim>\<open>stop\<close> and its join corrupts memory.
  The run \<open>restart_run\<close> has one \<^verbatim>\<open>stop\<close> and one such \<^verbatim>\<open>start\<close>: the end of the first
  worker's call sets the shared flag that the second worker waits for, which then leaves \<^verbatim>\<open>run_once\<close>
  and destroys its reactor while its own call is still bound and reading into it. So the
  contract that any thread may use a stream at any time does not hold for start and stop.
\<close>

lemma restart_during_stop_dangles:
  "\<exists>s. run_actions rs_exec restart_run (rs_init h n opts) = Some s \<and> dangling s 1 \<and> rw_reading (rs_work s 1)
     \<and> \<not> disciplined rs_exec rs_start_ok restart_run (rs_init h n opts)"
  by (simp add: restart_run_def rs_init_def rs_ops dangling_def rs_joined_def rs_start_ok_def Let_def)

theorem restart_after_join_safe_witness:
  "\<exists>s. run_actions rs_exec [RStart, RStop, RTop 0, RLeave 0, RStart, RTop 1] (rs_init (\<lambda>_. True) True default_stream_options) = Some s
     \<and> rs_count s = 2 \<and> \<not> dangling s 1"
proof -
  let ?as = "[RStart, RStop, RTop 0, RLeave 0, RStart, RTop 1]" and ?i = "rs_init (\<lambda>_. True) True default_stream_options"
  have "disciplined rs_exec rs_start_ok ?as ?i" by (simp add: rs_init_def rs_ops rs_joined_def rs_start_ok_def Let_def)
  moreover obtain s where s: "run_actions rs_exec ?as ?i = Some s" "rs_count s = 2" by (simp add: rs_init_def rs_ops Let_def)
  ultimately have "\<not> dangling s 1" using restart_after_join_safe [of ?as _ _ _ s 1] by blast
  with s show ?thesis by blast
qed

end
