(* ===== verification/Resubscription.thy ===== *)
theory Resubscription
  imports Market_Data_Runs
begin

text \<open>
  What a reconnection of \<^verbatim>\<open>MarketDataStream\<close> does: from the moment a connection has broken (or the
  stream is about to make its first one) through the backoff and \<^verbatim>\<open>run_once\<close> to the last
  acknowledged write. The steps are those of the worker and of gRPC on a connection that holds: it accepts
  the writes and does not close.

  Shown: such a reconnection always comes to the state in which every registered
  subscription has been sent again.
\<close>

section \<open>Steps of a connection that holds\<close>

definition md_reconnecting :: "md_sys \<Rightarrow> md_sys \<Rightarrow> bool" where
  "md_reconnecting s s' \<longleftrightarrow> md_step MWorker s s'
     \<or> (my_writing s \<and> (case md_handle_write_done True (my_obj s) of (release, w, m) \<Rightarrow>
          s' = add_release release (reactor_write w (s\<lparr>my_writing := False, my_obj := m\<rparr>))))"

lemma md_reconnecting_step: "md_reconnecting s s' \<Longrightarrow> \<exists>a. md_step a s s'"
  by (auto simp: md_reconnecting_def split: prod.splits intro: m_write_done)

text \<open>The worker is between two connections.\<close>

fun between_connections :: "md_pc \<Rightarrow> bool" where
  "between_connections MLoopTop = True"
| "between_connections MConnecting = True"
| "between_connections (MReturned st) = True"
| "between_connections (MBackoff d) = True"
| "between_connections _ = False"

definition replaying :: "registry \<Rightarrow> md_sys \<Rightarrow> bool" where
  "replaying subs s \<longleftrightarrow> my_snapshot s = map snd subs \<and> my_queued s = [] \<and> \<not> md_broken (my_obj s)"

definition resubscribing :: "registry \<Rightarrow> md_sys \<Rightarrow> bool" where
  "resubscribing subs s \<longleftrightarrow> md_subs (my_obj s) = subs \<and> \<not> md_stopping (my_obj s) \<and> so_reconnect (md_opts (my_obj s))
     \<and> (between_connections (my_pc s)
        \<or> my_pc s = MSnapshot \<and> replaying subs s
        \<or> my_pc s = MBegun \<and> replaying subs s
        \<or> my_pc s = MStreaming \<and> replaying subs s \<and> md_reactor (my_obj s) \<and> \<not> md_hold_released (my_obj s))"

fun connect_rank :: "md_pc \<Rightarrow> nat" where
  "connect_rank (MReturned st) = 6"
| "connect_rank (MBackoff d) = 5"
| "connect_rank MLoopTop = 4"
| "connect_rank MConnecting = 3"
| "connect_rank MSnapshot = 2"
| "connect_rank MBegun = 1"
| "connect_rank _ = 0"

definition writes_left :: "md_sys \<Rightarrow> nat" where
  "writes_left s = length (md_queue (my_obj s)) + (if my_writing s then 1 else 0)"

lemma maybe_write_keeps:
  assumes "maybe_write_locked m = (w, m')"
  shows "md_subs m' = md_subs m" "md_stopping m' = md_stopping m" "md_opts m' = md_opts m" "md_broken m' = md_broken m"
    "md_reactor m' = md_reactor m" "md_hold_released m' = md_hold_released m"
    "length (md_queue m') + (if w = None then 0 else 1) = length (md_queue m)"
  using assms by (auto simp: maybe_write_locked_def split: if_splits)

lemma reconnecting_write:
  assumes inv: "md_control s" and r: "resubscribing subs s" and w: "my_writing s"
    and run: "md_handle_write_done True (my_obj s) = (release, w', m)"
    and s': "s' = add_release release (reactor_write w' (s\<lparr>my_writing := False, my_obj := m\<rparr>))"
  shows "resubscribing subs s' \<and> my_pc s' = my_pc s \<and> writes_left s' < writes_left s"
proof -
  have pc: "my_pc s = MStreaming" using writing_live [OF inv w] by simp
  have m: "maybe_write_locked ((my_obj s)\<lparr>md_in_flight := False\<rparr>) = (w', m)" "\<not> release"
    using run by (auto simp: md_handle_write_done_def split: prod.splits)
  show ?thesis using r w pc m(2) s' maybe_write_keeps [OF m(1)]
    by (cases w') (auto simp: resubscribing_def replaying_def writes_left_def reactor_write_def add_release_def)
qed

lemma reconnecting_worker:
  assumes inv: "md_control s" and r: "resubscribing subs s" and step: "md_step MWorker s s'"
  shows "resubscribing subs s' \<and> connect_rank (my_pc s') < connect_rank (my_pc s)"
  using step
proof cases
  case (m_publish release w m)
  have flags: "\<not> md_done (my_obj s)" "\<not> md_hold_released (my_obj s)" "\<not> md_broken (my_obj s)" "\<not> md_stopping (my_obj s)"
    using inv r m_publish(2) by (auto simp: md_control_def call_ok_def flags_fresh_def resubscribing_def replaying_def)
  then have m: "maybe_write_locked ((my_obj s)\<lparr>md_reactor := True\<rparr>) = (w, m)" "\<not> release"
    using m_publish(3) by (auto simp: md_publish_def Let_def split: prod.splits)
  show ?thesis using r flags m(2) m_publish(1,2) maybe_write_keeps [OF m(1)]
    by (cases w) (auto simp: resubscribing_def replaying_def reactor_write_def add_release_def)
next
  case (m_once_end m pc)
  then show ?thesis using inv r call_ok_published [of s]
    by (auto simp: resubscribing_def md_control_def call_live_def)
next
  case (m_snapshot m pc)
  then show ?thesis using r by (auto simp: resubscribing_def replaying_def md_snapshot_def split: if_splits)
next
  case (m_after st ev att pc)
  then show ?thesis using r by (auto simp: resubscribing_def md_run_after_def Let_def split: if_splits)
qed (use r in \<open>auto simp: resubscribing_def replaying_def reactor_begin_def md_run_top_def md_run_wake_def split: if_splits\<close>)

lemma resubscribing_can_step:
  assumes "md_control s" "resubscribing subs s" "\<not> (my_pc s = MStreaming \<and> \<not> my_writing s)"
  shows "\<exists>s'. md_reconnecting s s'"
proof (cases "my_writing s")
  case True
  moreover obtain release w m where "md_handle_write_done True (my_obj s) = (release, w, m)" by (metis prod_cases3)
  ultimately show ?thesis unfolding md_reconnecting_def by auto
next
  case False
  then have "\<exists>s'. md_step MWorker s s'"
    using assms(2,3)
    by (cases "my_pc s")
      (auto simp: resubscribing_def, (metis m_top m_snapshot m_begin m_publish m_after m_wake surj_pair prod_cases3)+)
  then show ?thesis by (auto simp: md_reconnecting_def)
qed

interpretation resub: stoppable md.reach md_reconnecting "resubscribing subs" "\<lambda>s. my_pc s = MStreaming \<and> \<not> my_writing s"
  "measures [\<lambda>s. connect_rank (my_pc s), writes_left]"
proof
  show "md.reach s'" if "md.reach s" "md_reconnecting s s'" for s s'
    using that md.reach_step md_reconnecting_step by blast
  fix s assume "md.reach s" and r: "resubscribing subs s"
  then have c: "md_control s" using md.reach_inv by (simp add: md_inv_def)
  show "resubscribing subs s' \<and> (s', s) \<in> measures [\<lambda>s. connect_rank (my_pc s), writes_left]"
    if "md_reconnecting s s'" for s'
    using that reconnecting_worker [OF c r] reconnecting_write [OF c r]
    by (auto simp: md_reconnecting_def split: prod.splits)
  show "\<exists>s'. md_reconnecting s s'" if "\<not> (my_pc s = MStreaming \<and> \<not> my_writing s)"
    using resubscribing_can_step [OF c r that] .
qed simp

text \<open>At the end everything of the registry is written, one subscription per key.\<close>

lemma resubscribed:
  assumes "md.reach s" "resubscribing subs s" "my_pc s = MStreaming" "\<not> my_writing s"
  shows "my_written s = map snd subs \<and> map keys_of (my_written s) = map (\<lambda>p. [fst p]) subs
    \<and> (\<forall>q\<in>set (my_written s). action_of q = Subscribe)"
proof -
  have inv: "md_fifo s" "md_flowing s" using md.reach_inv [OF assms(1)] by (simp_all add: md_inv_def)
  then have "my_written s = map snd subs" "registry_ok subs"
    using assms(2-4) by (auto simp: resubscribing_def replaying_def md_fifo_def md_flowing_def)
  then show ?thesis by (auto simp: registry_ok_def)
qed

section \<open>Properties\<close>

text \<open>
  C17: subscriptions survive a lost connection. From every state in which a stream that may reconnect
  is between two connections, the steps of its worker and the acknowledgements of its writes
  lead, in whatever order and after finitely many of them, to a connection on which exactly the
  registered subscriptions have been written: for each key of the registry, in order, one
  subscribe request for that target and nothing else.
\<close>

theorem resubscribes_after_reconnect:
  assumes "md.reach s" "between_connections (my_pc s)" "\<not> md_stopping (my_obj s)" "so_reconnect (md_opts (my_obj s))"
  shows "(\<nexists>f. f 0 = s \<and> (\<forall>i. md_reconnecting (f i) (f (Suc i))))
    \<and> (\<exists>s'. md_reconnecting\<^sup>*\<^sup>* s s' \<and> my_pc s' = MStreaming \<and> my_written s' = map snd (md_subs (my_obj s)))
    \<and> (\<forall>s'. md_reconnecting\<^sup>*\<^sup>* s s' \<longrightarrow> (\<nexists>t. md_reconnecting s' t) \<longrightarrow>
        my_pc s' = MStreaming \<and> my_written s' = map snd (md_subs (my_obj s))
        \<and> map keys_of (my_written s') = map (\<lambda>p. [fst p]) (md_subs (my_obj s))
        \<and> (\<forall>q\<in>set (my_written s'). action_of q = Subscribe))"
proof (intro conjI)
  let ?subs = "md_subs (my_obj s)"
  have r: "resubscribing ?subs s" using assms(2-4) by (simp add: resubscribing_def)
  show "\<nexists>f. f 0 = s \<and> (\<forall>i. md_reconnecting (f i) (f (Suc i)))" using resub.no_infinite_run assms(1) r by blast
  obtain e where "md_reconnecting\<^sup>*\<^sup>* s e" "my_pc e = MStreaming" "\<not> my_writing e"
    using resub.reaches_end [OF assms(1) r] by blast
  then show "\<exists>s'. md_reconnecting\<^sup>*\<^sup>* s s' \<and> my_pc s' = MStreaming \<and> my_written s' = map snd ?subs"
    using resubscribed resub.run_stopping [OF _ assms(1) r] by blast
  have "my_pc s' = MStreaming \<and> \<not> my_writing s' \<and> md.reach s' \<and> resubscribing ?subs s'"
    if "md_reconnecting\<^sup>*\<^sup>* s s'" "\<nexists>t. md_reconnecting s' t" for s'
    using resub.stuck_finished [OF assms(1) r that] resub.run_stopping [OF that(1) assms(1) r] by blast
  then show "\<forall>s'. md_reconnecting\<^sup>*\<^sup>* s s' \<longrightarrow> (\<nexists>t. md_reconnecting s' t) \<longrightarrow>
      my_pc s' = MStreaming \<and> my_written s' = map snd ?subs \<and> map keys_of (my_written s') = map (\<lambda>p. [fst p]) ?subs
      \<and> (\<forall>q\<in>set (my_written s'). action_of q = Subscribe)"
    using resubscribed by metis
qed

text \<open>A stream that was given a subscription before its first connection.\<close>

definition waiting_sys :: md_sys where
  "waiting_sys = sys_send demo_early (sys_start (fresh_sys (\<lambda>_. True) True default_stream_options))"

theorem resubscribes_after_reconnect_witness:
  "\<exists>s'. md_reconnecting\<^sup>*\<^sup>* waiting_sys s' \<and> my_pc s' = MStreaming \<and> my_written s' = [demo_early]"
proof -
  have reach: "md.reach waiting_sys" unfolding waiting_sys_def by (intro sys_send_reach started_fresh(2))
  have obj: "my_obj waiting_sys = (new_md_stream (\<lambda>_. True) True default_stream_options)\<lparr>md_joinable := True,
      md_subs := [(''trades|A'', demo_early)]\<rparr>"
    by (simp add: waiting_sys_def sys_send_def sys_start_def fresh_sys_def md_start_def md_send_def new_md_stream_def
        demo_early_remembered demo_actions Let_def)
  have "between_connections (my_pc waiting_sys)" by (simp add: waiting_sys_def started_fresh)
  from resubscribes_after_reconnect [OF reach this] show ?thesis
    by (auto simp: obj new_md_stream_def default_stream_options_def)
qed

end
