(* ===== verification/Backtest_Example.thy ===== *)
theory Backtest_Example
  imports Account_Examples Backtest
begin

text \<open>
  \<^verbatim>\<open>examples/backtest.cpp\<close>: the classic strategies on the daily history of an instrument. The API
  call and the clock are parameters; what is printed are events with the printed values.

  Shown: with well-formed candles the program either says that there are not enough of them or
  reports on all six strategies, each of which has left its warm-up.
\<close>

section \<open>The program\<close>

record get_candles_request =
  gc_instrument_id :: string
  gc_interval :: int
  gc_from :: int
  gc_to :: int

definition CANDLE_INTERVAL_DAY :: int where
  "CANDLE_INTERVAL_DAY = 5"

definition history_request :: "string \<Rightarrow> int \<Rightarrow> int \<Rightarrow> get_candles_request cpp" where
  "history_request instrument days now =
     cbind (checked 64 (days * 86400)) (\<lambda>span. cbind (checked 64 (now - span)) (\<lambda>from.
       Inr \<lparr>gc_instrument_id = instrument, gc_interval = CANDLE_INTERVAL_DAY, gc_from = from, gc_to = now\<rparr>))"

fun bars_of :: "historic_candle list \<Rightarrow> bar list cpp" where
  "bars_of [] = Inr []"
| "bars_of (c # cs) =
     (if hc_is_complete c then cbind (to_bar c) (\<lambda>b. cbind (bars_of cs) (\<lambda>bs. Inr (b # bs))) else bars_of cs)"

definition example_strategies :: "strategy list" where
  "example_strategies =
     [SmaCross (mk_sma_cross 20 50), EmaCross (mk_ema_cross 12 26),
      RsiReversion (mk_rsi_reversion 14 (Fin 30) (Fin 70)), BollingerReversion (mk_bollinger_reversion 20 (Fin 2)),
      MacdCross (mk_macd_cross 12 26 9), DonchianBreakout (mk_donchian_breakout 20 10)]"

text \<open>The reports, one after the other, with a commission of 0.05 and the default annualisation.\<close>

fun backtest_rows :: "strategy list \<Rightarrow> bar list \<Rightarrow> backtest_report list cpp" where
  "backtest_rows [] bars = Inr []"
| "backtest_rows (s # ss) bars =
     cbind (run_backtest strategy_name (\<lambda>b s. on_bar s b) s bars (fl (5 / 100)) (Fin 252)) (\<lambda>r.
       cbind (backtest_rows ss bars) (\<lambda>rs. Inr (fst r # rs)))"

datatype backtest_line =
    FailedLine string
  | TitleLine string nat f64 f64
  | ReportLine backtest_report

definition backtest_main ::
  "(get_candles_request \<Rightarrow> historic_candle list result) \<Rightarrow> int \<Rightarrow> string option \<Rightarrow> string list
     \<Rightarrow> (int \<times> backtest_line list) cpp" where
  "backtest_main get_candles now token args =
     (case token of
        None \<Rightarrow> Inr (1, [FailedLine (''Set TINVEST_TOKEN environment variable'' @ nl)])
      | Some t \<Rightarrow>
          cbind (int_arg args 1 365) (\<lambda>days.
          cbind (history_request (instrument_arg args) days now) (\<lambda>req.
            case get_candles req of
              Failure e \<Rightarrow> Inr (1, [FailedLine (''GetCandles failed: '' @ c_str (error_to_string e) @ nl)])
            | Value cs \<Rightarrow>
                cbind (bars_of cs) (\<lambda>bars.
                  if length bars < 60
                  then Inr (1, [FailedLine (''Not enough candles: '' @ show_nat (length bars) @ nl)])
                  else cbind (backtest_rows example_strategies bars) (\<lambda>rows.
                    Inr (0, TitleLine (c_str (instrument_arg args)) (length bars)
                              (bar_close (hd bars)) (bar_close (last bars)) # map ReportLine rows))))))"

section \<open>Well-formed candles\<close>

text \<open>A quotation as the API sends it: in normal form, below \<open>2^53\<close> units.\<close>

definition quotation_ok :: "quotation \<Rightarrow> bool" where
  "quotation_ok q \<longleftrightarrow> dec_inv \<lparr>units = q_units q, nano = q_nano q\<rparr> \<and> \<bar>q_units q\<bar> < 2 ^ 53"

definition candle_ok :: "historic_candle \<Rightarrow> bool" where
  "candle_ok c \<longleftrightarrow> quotation_ok (hc_open c) \<and> quotation_ok (hc_high c) \<and> quotation_ok (hc_low c)
     \<and> quotation_ok (hc_close c)"

text \<open>
  The bar that a candle stands for: each price is the double of units and nanos (the fraction rounded,
  then the sum rounded), in its own field.
\<close>

definition price_of :: "quotation \<Rightarrow> f64" where
  "price_of q = Fin (rnd64 (of_int (q_units q) + rnd64 (of_int (q_nano q) / 10 ^ 9)))"

definition candle_bar :: "historic_candle \<Rightarrow> bar" where
  "candle_bar c = \<lparr>bar_time = hc_time_seconds c, bar_open = price_of (hc_open c), bar_high = price_of (hc_high c),
     bar_low = price_of (hc_low c), bar_close = price_of (hc_close c), bar_volume = fl (of_int (hc_volume c))\<rparr>"

lemma decimal_of_quotation_ok:
  assumes "quotation_ok q"
  shows "decimal_of_quotation q = Inr \<lparr>units = q_units q, nano = q_nano q\<rparr>"
    "to_double \<lparr>units = q_units q, nano = q_nano q\<rparr> = price_of q"
  using assms mk_decimal_id [of "\<lparr>units = q_units q, nano = q_nano q\<rparr>"]
    to_double_value [of "\<lparr>units = q_units q, nano = q_nano q\<rparr>"]
  by (simp_all add: quotation_ok_def decimal_of_quotation_def price_of_def)

lemma bars_of_candles:
  assumes "\<forall>c\<in>set cs. candle_ok c"
  shows "bars_of cs = Inr (map candle_bar (filter hc_is_complete cs))"
  using assms
  by (induction cs) (simp_all add: to_bar_def candle_ok_def decimal_of_quotation_ok candle_bar_def f64_of_int_def)

lemma bars_of_ok:
  assumes "\<forall>c\<in>set cs. candle_ok c"
  shows "\<exists>bs. bars_of cs = Inr bs \<and> length bs = length (filter hc_is_complete cs)
    \<and> map bar_time bs = map hc_time_seconds (filter hc_is_complete cs)
    \<and> (\<forall>b\<in>set bs. bar_high b \<noteq> NaN \<and> bar_low b \<noteq> NaN)"
  using bars_of_candles [OF assms] by (auto simp: candle_bar_def price_of_def)

section \<open>The strategies run\<close>

lemma run_strategy_donchian:
  assumes "run_strategy donchian_breakout_on_bar bs s = Inr (as, s')"
  shows "run_strategy (\<lambda>b s. on_bar s b) bs (DonchianBreakout s) = Inr (as, DonchianBreakout s')"
  using assms by (induction bs arbitrary: s as) (auto simp: cbind_eq_Inr_iff)

lemma total_runs:
  "run_strategy (\<lambda>b s. on_bar s b) bs (SmaCross s1)
     = Inr (fst (run_bars sma_cross_on_bar bs s1), SmaCross (snd (run_bars sma_cross_on_bar bs s1)))"
  "run_strategy (\<lambda>b s. on_bar s b) bs (EmaCross s2)
     = Inr (fst (run_bars ema_cross_on_bar bs s2), EmaCross (snd (run_bars ema_cross_on_bar bs s2)))"
  "run_strategy (\<lambda>b s. on_bar s b) bs (RsiReversion s3)
     = Inr (fst (run_bars rsi_reversion_on_bar bs s3), RsiReversion (snd (run_bars rsi_reversion_on_bar bs s3)))"
  "run_strategy (\<lambda>b s. on_bar s b) bs (BollingerReversion s4)
     = Inr (fst (run_bars bollinger_reversion_on_bar bs s4), BollingerReversion (snd (run_bars bollinger_reversion_on_bar bs s4)))"
  "run_strategy (\<lambda>b s. on_bar s b) bs (MacdCross s5)
     = Inr (fst (run_bars macd_cross_on_bar bs s5), MacdCross (snd (run_bars macd_cross_on_bar bs s5)))"
  by (induction bs arbitrary: s1 s2 s3 s4 s5) simp_all

text \<open>The indicators of a strategy after a run are the indicators of the closing prices.\<close>

lemma reversion_cores:
  "rr_rsi (snd (run_bars rsi_reversion_on_bar bs s)) = fold rsi_push (map bar_close bs) (rr_rsi s)"
  "br_bb (snd (run_bars bollinger_reversion_on_bar bs t)) = fold bb_push (map bar_close bs) (br_bb t)"
proof -
  have "rr_rsi (snd (rsi_reversion_on_bar b s)) = rsi_push (bar_close b) (rr_rsi s)" for b s
    by (simp add: rsi_reversion_on_bar_def Let_def)
  then show "rr_rsi (snd (run_bars rsi_reversion_on_bar bs s)) = fold rsi_push (map bar_close bs) (rr_rsi s)"
    by (induction bs arbitrary: s) simp_all
  have "br_bb (snd (bollinger_reversion_on_bar b t)) = bb_push (bar_close b) (br_bb t)" for b t
    by (simp add: bollinger_reversion_on_bar_def Let_def)
  then show "br_bb (snd (run_bars bollinger_reversion_on_bar bs t)) = fold bb_push (map bar_close bs) (br_bb t)"
    by (induction bs arbitrary: t) simp_all
qed

lemma crossing_cores:
  "sc_slow (snd (run_bars sma_cross_on_bar bs s)) = fold sma_push (map bar_close bs) (sc_slow s)"
  "ec_fast (snd (run_bars ema_cross_on_bar bs t)) = fold ema_push (map bar_close bs) (ec_fast t)"
  "ec_slow (snd (run_bars ema_cross_on_bar bs t)) = fold ema_push (map bar_close bs) (ec_slow t)"
  "mc_macd (snd (run_bars macd_cross_on_bar bs u)) = fold macd_push (map bar_close bs) (mc_macd u)"
  using sma_x.run_core [of bs s] ema_x.run_core [of bs t] macd_x.run_core [of bs u]
  by (simp_all add: fold_map_prod fold_closes)

text \<open>A strategy has left its warm-up: the indicators that its rule asks for are ready.\<close>

primrec warmed_up :: "strategy \<Rightarrow> bool" where
  "warmed_up (SmaCross s) \<longleftrightarrow> sma_ready (sc_slow s)"
| "warmed_up (EmaCross s) \<longleftrightarrow> ema_ready (ec_slow s) \<and> ema_ready (ec_fast s)"
| "warmed_up (RsiReversion s) \<longleftrightarrow> rsi_ready (rr_rsi s)"
| "warmed_up (BollingerReversion s) \<longleftrightarrow> bb_ready (br_bb s)"
| "warmed_up (MacdCross s) \<longleftrightarrow> macd_ready (mc_macd s)"
| "warmed_up (DonchianBreakout s) \<longleftrightarrow> dc_ready (db_entry s) \<and> dc_ready (db_exit s)"

abbreviation runs_warm :: "bar list \<Rightarrow> strategy \<Rightarrow> bool" where
  "runs_warm bars s \<equiv> \<exists>as s'. run_strategy (\<lambda>b s. on_bar s b) bars s = Inr (as, s') \<and> warmed_up s'"

lemma examples_run_warm:
  assumes "60 \<le> length bars" "\<forall>b\<in>set bars. bar_high b \<noteq> NaN \<and> bar_low b \<noteq> NaN" "s \<in> set example_strategies"
  shows "runs_warm bars s"
proof -
  let ?xs = "map bar_close bars"
  have p: "\<forall>p\<in>{q, 12, 26, 9}. fits 32 p \<and> 0 < p" if "q \<in> {20, 50, 12, 26, 14, 10}" for q :: int
    using that by (auto simp: fits32_iff)
  note r = ready_counts [OF p, where xs = ?xs and hls = "map bar_range bars" and mult = "Fin 2"]
  have "runs_warm bars (SmaCross (mk_sma_cross 20 50))"
    using r [of 50] assms(1) by (simp add: total_runs crossing_cores mk_sma_cross_def)
  moreover have "runs_warm bars (EmaCross (mk_ema_cross 12 26))"
    using r [of 12] r [of 26] assms(1) by (simp add: total_runs crossing_cores mk_ema_cross_def)
  moreover have "runs_warm bars (RsiReversion (mk_rsi_reversion 14 (Fin 30) (Fin 70)))"
    using r [of 14] assms(1) by (simp add: total_runs reversion_cores mk_rsi_reversion_def)
  moreover have "runs_warm bars (BollingerReversion (mk_bollinger_reversion 20 (Fin 2)))"
    using r [of 20] assms(1) by (simp add: total_runs reversion_cores mk_bollinger_reversion_def)
  moreover have "runs_warm bars (MacdCross (mk_macd_cross 12 26 9))"
    using r [of 20] assms(1) by (simp add: total_runs crossing_cores mk_macd_cross_def)
  moreover have "runs_warm bars (DonchianBreakout (mk_donchian_breakout 20 10))"
  proof -
    have f: "fits 32 20" "fits 32 10" by (simp_all add: fits32_iff)
    obtain as where "run_strategy donchian_breakout_on_bar bars (mk_donchian_breakout 20 10)
        = Inr (as, (mk_donchian_breakout 20 10)\<lparr>db_entry := fold dc_push (map bar_range bars) (mk_donchian 20),
            db_exit := fold dc_push (map bar_range bars) (mk_donchian 10)\<rparr>)"
      using donchian_run [OF _ f(1) _ f(2) assms(2)] by auto
    from run_strategy_donchian [OF this] show ?thesis using r [of 20] r [of 10] assms(1) by auto
  qed
  ultimately show ?thesis using assms(3) by (auto simp: example_strategies_def)
qed

section \<open>The reports\<close>

text \<open>The report is that of the strategy, and its log the round trips of the strategy's actions.\<close>

definition reports_on :: "bar list \<Rightarrow> strategy \<Rightarrow> backtest_report \<Rightarrow> bool" where
  "reports_on bars s rep \<longleftrightarrow> rep_strategy rep = strategy_name s \<and> rep_bars rep = narrow 32 (int (length bars))
     \<and> (\<exists>as s' n ivs tail. run_strategy (\<lambda>b s. on_bar s b) bars s = Inr (as, s') \<and> warmed_up s'
         \<and> round_trips as n ivs \<and> (tail = [] \<and> n = length bars \<or> tail = [(n, length bars - 1)] \<and> held_from as n)
         \<and> trade_log rep = map (\<lambda>(i, j). trade_of (fl (5 / 100) / Fin 100) (bars ! i) (bars ! j)) (ivs @ tail))"

lemma backtest_reports_on:
  assumes "runs_warm bars s" "2 \<le> length bars"
  shows "\<exists>rep s'. run_backtest strategy_name (\<lambda>b s. on_bar s b) s bars (fl (5 / 100)) (Fin 252) = Inr (rep, s')
    \<and> reports_on bars s rep"
proof -
  obtain as s' where run: "run_strategy (\<lambda>b s. on_bar s b) bars s = Inr (as, s')" "warmed_up s'" using assms(1) by blast
  from backtest_log [OF run(1) assms(2), of strategy_name "fl (5 / 100)" "Fin 252"]
  obtain rep n ivs tail where rep:
    "run_backtest strategy_name (\<lambda>b s. on_bar s b) s bars (fl (5 / 100)) (Fin 252) = Inr (rep, s')"
    "round_trips as n ivs" "tail = [] \<and> n = length bars \<or> tail = [(n, length bars - 1)] \<and> held_from as n"
    "trade_log rep = map (\<lambda>(i, j). trade_of (fl (5 / 100) / Fin 100) (bars ! i) (bars ! j)) (ivs @ tail)" by blast
  have "rep_strategy rep = strategy_name s" "rep_bars rep = narrow 32 (int (length bars))"
    using rep(1) run_backtest_trace [OF run(1) assms(2), of strategy_name "fl (5 / 100)" "Fin 252"]
    by (auto simp: bt_report_def Let_def)
  then show ?thesis using run rep unfolding reports_on_def by blast
qed

lemma backtest_rows_on:
  assumes "\<forall>s\<in>set ss. runs_warm bars s" "2 \<le> length bars"
  shows "\<exists>rows. backtest_rows ss bars = Inr rows \<and> list_all2 (reports_on bars) ss rows"
  using assms(1)
proof (induction ss)
  case (Cons s ss)
  then obtain rows where "backtest_rows ss bars = Inr rows" "list_all2 (reports_on bars) ss rows" by auto
  moreover obtain rep s' where "run_backtest strategy_name (\<lambda>b s. on_bar s b) s bars (fl (5 / 100)) (Fin 252) = Inr (rep, s')"
    "reports_on bars s rep" using backtest_reports_on [OF _ assms(2), of s] Cons.prems by auto
  ultimately show ?case by simp
qed simp

text \<open>
  C29: on well-formed candles the backtest example never runs into undefined behaviour. With
  fewer than sixty complete candles it says so and exits with 1; otherwise it exits with 0 and
  reports on its six strategies in their order, on the bars of exactly the complete candles. Sixty bars
  are enough for all of them: each has left its warm-up, and its report lists the round trips of its
  signals.
\<close>

theorem backtest_example:
  assumes "get_candles req = Value cs" "\<forall>c\<in>set cs. candle_ok c" "n = length (filter hc_is_complete cs)"
    "int_arg args 1 365 = Inr days" "history_request (instrument_arg args) days now = Inr req"
  shows "\<exists>bars. bars_of cs = Inr bars \<and> map bar_time bars = map hc_time_seconds (filter hc_is_complete cs)
    \<and> (if n < 60
       then backtest_main get_candles now (Some token) args = Inr (1, [FailedLine (''Not enough candles: '' @ show_nat n @ nl)])
       else \<exists>title rows. backtest_main get_candles now (Some token) args = Inr (0, title # map ReportLine rows)
         \<and> list_all2 (reports_on bars) example_strategies rows)"
proof -
  obtain bars where b: "bars_of cs = Inr bars" "length bars = n"
      "map bar_time bars = map hc_time_seconds (filter hc_is_complete cs)"
      "\<forall>b\<in>set bars. bar_high b \<noteq> NaN \<and> bar_low b \<noteq> NaN"
    using bars_of_ok [OF assms(2)] assms(3) by blast
  show ?thesis
  proof (cases "n < 60")
    case True
    then show ?thesis using b assms(1,4,5) by (simp add: backtest_main_def)
  next
    case False
    then have long: "60 \<le> length bars" "2 \<le> length bars" using b(2) by simp_all
    obtain rows where "backtest_rows example_strategies bars = Inr rows" "list_all2 (reports_on bars) example_strategies rows"
      using backtest_rows_on [OF _ long(2)] examples_run_warm [OF long(1) b(4)] by blast
    then show ?thesis using b False assms(1,4,5) by (auto simp: backtest_main_def)
  qed
qed

definition flat_candle :: "int \<Rightarrow> historic_candle" where
  "flat_candle t = \<lparr>hc_time_seconds = t, hc_open = \<lparr>q_units = 5, q_nano = 0\<rparr>, hc_high = \<lparr>q_units = 5, q_nano = 0\<rparr>,
     hc_low = \<lparr>q_units = 5, q_nano = 0\<rparr>, hc_close = \<lparr>q_units = 5, q_nano = 0\<rparr>, hc_volume = 1, hc_is_complete = True\<rparr>"

theorem backtest_example_witness:
  "\<exists>title rows. backtest_main (\<lambda>req. Value (map flat_candle [1..60])) 1700000000 (Some ''t'') [''SBER'']
       = Inr (0, title # map ReportLine rows) \<and> length rows = 6"
proof -
  let ?cs = "map flat_candle [1..60]"
  have ok: "\<forall>c\<in>set ?cs. candle_ok c"
    by (simp add: flat_candle_def candle_ok_def quotation_ok_def dec_inv_def fits64_iff kNano_def)
  have all: "filter hc_is_complete ?cs = ?cs" by (rule filter_True) (auto simp: flat_candle_def)
  have n: "(60 :: nat) = length (filter hc_is_complete ?cs)" by (simp add: all)
  have arg: "int_arg [''SBER''] 1 365 = Inr 365" by (simp add: int_arg_def)
  obtain req where req: "history_request (instrument_arg [''SBER'']) 365 1700000000 = Inr req"
    by (simp add: history_request_def fits64_iff)
  from backtest_example [OF refl ok n arg req, of "''t''"] obtain bars title rows where
    m: "backtest_main (\<lambda>req. Value ?cs) 1700000000 (Some ''t'') [''SBER''] = Inr (0, title # map ReportLine rows)"
    and l: "list_all2 (reports_on bars) example_strategies rows" by auto
  show ?thesis
    using m list_all2_lengthD [OF l] by (intro exI [of _ title] exI [of _ rows]) (simp add: example_strategies_def)
qed

end
