(* ===== verification/Bench.thy ===== *)
theory Bench
  imports Backtest_Example "HOL-Library.Multiset"
begin

text \<open>
  The computations of \<^verbatim>\<open>bench/bench.cpp\<close>: the decimal loops with their checksum, the strategy
  run over a generated price curve, and the percentiles of the latencies. Times are not modelled:
  what is printed of a run is its checksum, its number of trades, and the percentile of whatever
  latencies were measured. \<^verbatim>\<open>std::sin\<close> is a parameter.

  Shown: the ten million additions and multiplications neither overflow nor accumulate a rounding
  error beyond what rounding each product to a nano gives, so that the checksum is a constant; a
  percentile is the order statistic it claims to be.
\<close>

section \<open>Decimal loops\<close>

fun repeat_op :: "nat \<Rightarrow> ('a \<Rightarrow> 'a cpp) \<Rightarrow> 'a \<Rightarrow> 'a cpp" where
  "repeat_op 0 f x = Inr x"
| "repeat_op (Suc n) f x = cbind (f x) (repeat_op n f)"

definition bench_kN :: nat where
  "bench_kN = 10000000"

definition bench_acc :: "nat \<Rightarrow> decimal cpp" where
  "bench_acc n =
     cbind (mk_decimal 0 0) (\<lambda>acc. cbind (mk_decimal 1 234567891) (\<lambda>step.
       repeat_op n (\<lambda>a. decimal_add_assign a step) acc))"

definition bench_prod :: "nat \<Rightarrow> decimal cpp" where
  "bench_prod n =
     cbind (mk_decimal 1 1) (\<lambda>prod. cbind (mk_decimal 1 1) (\<lambda>k.
       repeat_op n (\<lambda>p. decimal_mul p k) prod))"

definition bench_decimal :: "string cpp" where
  "bench_decimal =
     cbind (bench_acc bench_kN) (\<lambda>acc. cbind (bench_prod bench_kN) (\<lambda>prod.
     cbind (decimal_add acc prod) (\<lambda>s. Inr (take 6 (decimal_to_string s)))))"

section \<open>Backtest loop\<close>

definition bench_bar :: "(f64 \<Rightarrow> f64) \<Rightarrow> int \<Rightarrow> bar" where
  "bench_bar sin_fn i =
     (let base = Fin 100 + Fin 10 * sin_fn (f64_of_int i / Fin 50) in
      \<lparr>bar_time = i, bar_open = base, bar_high = base + 1, bar_low = base - 1, bar_close = base + fl (2 / 10),
       bar_volume = 0\<rparr>)"

definition bench_kBars :: nat where
  "bench_kBars = 1000000"

definition bench_backtest :: "(f64 \<Rightarrow> f64) \<Rightarrow> backtest_report cpp" where
  "bench_backtest sin_fn =
     cbind (run_backtest strategy_name (\<lambda>b s. on_bar s b) (SmaCross (mk_sma_cross 20 50))
         (map (\<lambda>i. bench_bar sin_fn (int i)) [0..<bench_kBars]) (fl (5 / 100)) (Fin 252))
       (\<lambda>r. Inr (fst r))"

section \<open>Percentiles\<close>

text \<open>Sorting doubles by \<^verbatim>\<open><\<close>.\<close>

fun insert_double :: "f64 \<Rightarrow> f64 list \<Rightarrow> f64 list" where
  "insert_double x [] = [x]"
| "insert_double x (y # ys) = (if y < x then y # insert_double x ys else x # y # ys)"

definition sort_doubles :: "f64 list \<Rightarrow> f64 list" where
  "sort_doubles v = foldr insert_double v []"

text \<open>The conversion of a double to \<^verbatim>\<open>std::size_t\<close>, undefined outside its range.\<close>

definition size_of_f64 :: "f64 \<Rightarrow> nat cpp" where
  "size_of_f64 a = (case a of
      Fin x \<Rightarrow> if 0 \<le> Decimal_Double.truncate x \<and> Decimal_Double.truncate x < 2 ^ 64 then Inr (nat (Decimal_Double.truncate x)) else Inl OutOfRange
    | _ \<Rightarrow> Inl OutOfRange)"

definition percentile :: "f64 list \<Rightarrow> f64 \<Rightarrow> f64 cpp" where
  "percentile v p =
     (let s = sort_doubles v in
      cbind (size_of_f64 (p / Fin 100 * f64_of_int ((int (length s) - 1) mod 2 ^ 64)))
        (\<lambda>idx. if idx < length s then Inr (s ! idx) else Inl OutOfRange))"

section \<open>Latencies of blocking calls\<close>

definition kWarmup :: nat where
  "kWarmup = 200"

definition kIters :: nat where
  "kIters = 3000"

text \<open>
  The timed loop from its index \<open>i\<close>, \<open>n\<close> rounds to go: \<open>results\<close> is what the calls return, in order,
  \<open>elapsed\<close> what \<^verbatim>\<open>seconds_since\<close> returns after each; \<open>None\<close> is \<^verbatim>\<open>std::abort\<close>.
\<close>

fun bench_samples :: "(nat \<Rightarrow> 'a result) \<Rightarrow> (nat \<Rightarrow> f64) \<Rightarrow> nat \<Rightarrow> nat \<Rightarrow> f64 list \<Rightarrow> f64 list option" where
  "bench_samples results elapsed i 0 us = Some us"
| "bench_samples results elapsed i (Suc n) us =
     (if \<not> result_ok (results i) then None
      else bench_samples results elapsed (i + 1) n (us @ [elapsed i * Fin 1000000]))"

text \<open>The results of the warm-up calls are dropped; the three percentiles are printed.\<close>

definition bench_latency :: "(nat \<Rightarrow> 'a result) \<Rightarrow> (nat \<Rightarrow> f64) \<Rightarrow> (f64 \<times> f64 \<times> f64) cpp option" where
  "bench_latency results elapsed =
     (case bench_samples (\<lambda>i. results (kWarmup + i)) elapsed 0 kIters [] of
        None \<Rightarrow> None
      | Some us \<Rightarrow> Some (cbind (percentile us (Fin 50)) (\<lambda>p50. cbind (percentile us (Fin 90)) (\<lambda>p90.
          cbind (percentile us (Fin 99)) (\<lambda>p99. Inr (p50, p90, p99))))))"

section \<open>The checksum\<close>

lemma repeat_op_invariant:
  assumes "\<And>i. i < n \<Longrightarrow> f (g i) = Inr (g (Suc i))"
  shows "repeat_op n f (g 0) = Inr (g n)"
  using assms
proof (induction n arbitrary: g)
  case (Suc n)
  have "repeat_op n f (g (Suc 0)) = Inr (g (Suc n))"
    using Suc.IH [of "\<lambda>i. g (Suc i)"] Suc.prems by simp
  then show ?case using Suc.prems [of 0] by simp
qed simp

lemma add_totals:
  assumes "total_in_range s" "total_in_range t"
  shows "decimal_add (from_total s) (from_total t) = Inr (from_total (s + t))"
  using fits128_total_sum(1) [OF dec_inv_from_total [OF assms(1)] dec_inv_from_total [OF assms(2)]]
  by (simp add: decimal_add_def total_from_total assms)

lemma mul_near_one:
  assumes "1000000000 \<le> t" "t < 1500000000"
  shows "decimal_mul (from_total t) (from_total 1000000001) = Inr (from_total (t + 1))"
proof -
  have r: "total_in_range t" "total_in_range 1000000001"
    using assms by (simp_all add: total_in_range_iff kNano_def)
  have "(t * 1000000001 + 500000000) div 1000000000 = t + 1"
    using assms by (intro int_div_pos_eq [where r = "t - 500000000"]) simp_all
  then have "round_half_away (t * 1000000001) kNano = t + 1"
    using assms by (simp add: round_half_away_def kNano_def)
  moreover have "fits 128 (t * 1000000001)" "fits 128 (\<bar>t * 1000000001\<bar> + \<bar>kNano\<bar> div 2)"
    using assms by (simp_all add: fits128_iff kNano_def abs_if)
  ultimately show ?thesis
    using div_round_eq [of kNano "t * 1000000001"] by (simp add: decimal_mul_def total_from_total r)
qed

lemma from_total_small:
  "0 \<le> u \<Longrightarrow> u < 9223372036854775808 \<Longrightarrow> 0 \<le> n \<Longrightarrow> n < kNano \<Longrightarrow> from_total (u * kNano + n) = \<lparr>units = u, nano = n\<rparr>"
  using from_total_total [of "\<lparr>units = u, nano = n\<rparr>"] by (simp add: dec_inv_def fits64_iff dec_total_def)

lemma bench_acc_value:
  assumes "n \<le> bench_kN"
  shows "bench_acc n = Inr (from_total (int n * 1234567891))"
proof -
  have mk: "mk_decimal 0 0 = Inr (from_total 0)" "mk_decimal 1 234567891 = Inr (from_total 1234567891)"
    using mk_decimal_id [of "\<lparr>units = 0, nano = 0\<rparr>"] mk_decimal_id [of "\<lparr>units = 1, nano = 234567891\<rparr>"]
      from_total_small [of 0 0] from_total_small [of 1 234567891]
    by (simp_all add: dec_inv_def fits64_iff kNano_def)
  have "repeat_op n (\<lambda>a. decimal_add_assign a (from_total 1234567891)) (from_total (int 0 * 1234567891))
      = Inr (from_total (int n * 1234567891))"
  proof (rule repeat_op_invariant)
    fix i assume "i < n"
    then have "int i * 1234567891 < 10000000 * 1234567891" using assms by (simp add: bench_kN_def)
    then have "total_in_range (int i * 1234567891)" "total_in_range 1234567891"
      by (simp_all add: total_in_range_iff kNano_def)
    from add_totals [OF this]
    show "decimal_add_assign (from_total (int i * 1234567891)) (from_total 1234567891) = Inr (from_total (int (Suc i) * 1234567891))"
      by (simp add: decimal_add_assign_def algebra_simps)
  qed
  then show ?thesis by (simp add: bench_acc_def mk)
qed

lemma bench_prod_value:
  assumes "n \<le> bench_kN"
  shows "bench_prod n = Inr (from_total (1000000001 + int n))"
proof -
  have mk: "mk_decimal 1 1 = Inr (from_total 1000000001)"
    using mk_decimal_id [of "\<lparr>units = 1, nano = 1\<rparr>"] from_total_small [of 1 1]
    by (simp add: dec_inv_def fits64_iff kNano_def)
  have "repeat_op n (\<lambda>p. decimal_mul p (from_total 1000000001)) (from_total (1000000001 + int 0))
      = Inr (from_total (1000000001 + int n))"
  proof (rule repeat_op_invariant)
    fix i assume "i < n"
    then show "decimal_mul (from_total (1000000001 + int i)) (from_total 1000000001)
        = Inr (from_total (1000000001 + int (Suc i)))"
      using mul_near_one [of "1000000001 + int i"] assms by (simp add: bench_kN_def algebra_simps)
  qed
  then show ?thesis by (simp add: bench_prod_def mk)
qed

text \<open>
  The decimal benchmark is exact: adding 1.234567891 to zero ten million times gives
  12345678.91, multiplying 1.000000001 by itself ten million times, each product rounded to a nano,
  gives 1.010000001, no step overflows, and the checksum it prints is always 123456.
\<close>

lemma bench_decimal_values:
  "bench_acc bench_kN = Inr \<lparr>units = 12345678, nano = 910000000\<rparr>
   \<and> bench_prod bench_kN = Inr \<lparr>units = 1, nano = 10000001\<rparr>
   \<and> bench_decimal = Inr ''123456''"
proof -
  have acc: "bench_acc bench_kN = Inr (from_total 12345678910000000)"
    and prod: "bench_prod bench_kN = Inr (from_total 1010000001)"
    using bench_acc_value [of bench_kN] bench_prod_value [of bench_kN] by (simp_all add: bench_kN_def)
  have vals: "from_total 12345678910000000 = \<lparr>units = 12345678, nano = 910000000\<rparr>"
    "from_total 1010000001 = \<lparr>units = 1, nano = 10000001\<rparr>"
    "from_total 12345679920000001 = \<lparr>units = 12345679, nano = 920000001\<rparr>"
    using from_total_small [of 12345678 910000000] from_total_small [of 1 10000001] from_total_small [of 12345679 920000001]
    by (simp_all add: kNano_def)
  have "decimal_add (from_total 12345678910000000) (from_total 1010000001) = Inr (from_total 12345679920000001)"
    using add_totals [of 12345678910000000 1010000001] by (simp add: total_in_range_iff kNano_def)
  moreover have "take 6 (decimal_to_string \<lparr>units = 12345679, nano = 920000001\<rparr>) = ''123456''"
    by (simp add: decimal_to_string_def abs_units_def show_nat.simps digit_chars)
  ultimately have "bench_decimal = Inr ''123456''" by (simp add: bench_decimal_def acc prod vals)
  then show ?thesis using acc prod vals by simp
qed

section \<open>The strategy run\<close>

lemma bench_bars_length: "2 \<le> length (map (\<lambda>i. bench_bar sin_fn (int i)) [0..<bench_kBars])"
  by (simp add: bench_kBars_def)

text \<open>Whatever the price curve, the run is defined and its report is that of the crosses of the averages.\<close>

lemma bench_backtest_runs:
  fixes sin_fn
  defines "bars \<equiv> map (\<lambda>i. bench_bar sin_fn (int i)) [0..<bench_kBars]"
  shows "\<exists>rep n ivs tail. bench_backtest sin_fn = Inr rep
    \<and> round_trips (fst (run_bars sma_cross_on_bar bars (mk_sma_cross 20 50))) n ivs
    \<and> (tail = [] \<and> n = length bars
       \<or> tail = [(n, length bars - 1)] \<and> held_from (fst (run_bars sma_cross_on_bar bars (mk_sma_cross 20 50))) n)
    \<and> trade_log rep = map (\<lambda>(i, j). trade_of (fl (5 / 100) / Fin 100) (bars ! i) (bars ! j)) (ivs @ tail)"
proof -
  have len: "2 \<le> length bars" unfolding bars_def by (rule bench_bars_length)
  obtain rep n ivs tail s' where
    "run_backtest strategy_name (\<lambda>b s. on_bar s b) (SmaCross (mk_sma_cross 20 50)) bars (fl (5 / 100)) (Fin 252) = Inr (rep, s')"
    "round_trips (fst (run_bars sma_cross_on_bar bars (mk_sma_cross 20 50))) n ivs"
    "tail = [] \<and> n = length bars
       \<or> tail = [(n, length bars - 1)] \<and> held_from (fst (run_bars sma_cross_on_bar bars (mk_sma_cross 20 50))) n"
    "trade_log rep = map (\<lambda>(i, j). trade_of (fl (5 / 100) / Fin 100) (bars ! i) (bars ! j)) (ivs @ tail)"
    using backtest_log [OF total_runs(1) len, where nm = strategy_name and commission_pct = "fl (5 / 100)" and annualization = "Fin 252"]
    by blast
  then show ?thesis unfolding bench_backtest_def bars_def [symmetric] by (intro exI conjI) (simp_all only: cbind_simps fst_conv)
qed

section \<open>Order statistics\<close>

definition not_above :: "f64 \<Rightarrow> f64 \<Rightarrow> bool" where
  "not_above a b \<longleftrightarrow> \<not> b < a"

lemma not_above_trans: "b \<noteq> NaN \<Longrightarrow> not_above a b \<Longrightarrow> not_above b c \<Longrightarrow> not_above a c"
  by (cases a; cases b; cases c) (auto simp: not_above_def f64_ops)

lemma less_not_above: "a < b \<Longrightarrow> not_above a b"
  using f64_less_asym by (auto simp: not_above_def)

lemma mset_insert_double [simp]: "mset (insert_double x ys) = add_mset x (mset ys)"
  by (induction ys) simp_all

lemma mset_sort_doubles [simp]: "mset (sort_doubles v) = mset v"
  by (induction v) (simp_all add: sort_doubles_def)

lemma set_insert_double [simp]: "set (insert_double x ys) = insert x (set ys)"
  by (induction ys) auto

lemma insert_double_sorted:
  assumes "sorted_wrt not_above ys" "NaN \<notin> set ys" "x \<noteq> NaN"
  shows "sorted_wrt not_above (insert_double x ys)"
  using assms
proof (induction ys)
  case (Cons y ys)
  show ?case
  proof (cases "y < x")
    case True
    then show ?thesis using Cons less_not_above [OF True] by auto
  next
    case False
    then have xy: "not_above x y" by (simp add: not_above_def)
    have "not_above x z" if "z \<in> set ys" for z
      using not_above_trans [OF _ xy, of z] Cons.prems that by auto
    then show ?thesis using Cons.prems xy False by auto
  qed
qed simp

lemma sort_doubles_sorted: "NaN \<notin> set v \<Longrightarrow> sorted_wrt not_above (sort_doubles v)"
proof (induction v)
  case (Cons x v)
  have "set (sort_doubles v) = set v" by (metis mset_sort_doubles set_mset_mset)
  then show ?case using Cons insert_double_sorted [of "sort_doubles v" x] by (auto simp: sort_doubles_def)
qed (simp add: sort_doubles_def)

lemma filter_count_mset: "mset xs = mset ys \<Longrightarrow> length (filter P xs) = length (filter P ys)"
  by (metis mset_filter size_mset)

lemma sorted_ranks:
  assumes "sorted_wrt not_above s" "i < length s"
  shows "i + 1 \<le> length (filter (\<lambda>y. \<not> s ! i < y) s)" "length s - i \<le> length (filter (\<lambda>y. \<not> y < s ! i) s)"
proof -
  have pre: "\<forall>y\<in>set (take (i + 1) s). \<not> s ! i < y"
    using assms by (auto simp: sorted_wrt_iff_nth_less in_set_conv_nth less_Suc_eq not_above_def)
  have suf: "\<forall>y\<in>set (drop i s). \<not> y < s ! i"
  proof
    fix y assume "y \<in> set (drop i s)"
    then obtain k where "k < length s - i" "y = s ! (i + k)" by (auto simp: in_set_conv_nth)
    then show "\<not> y < s ! i" using assms by (cases k) (auto simp: sorted_wrt_iff_nth_less not_above_def)
  qed
  have "filter (\<lambda>y. \<not> s ! i < y) s = filter (\<lambda>y. \<not> s ! i < y) (take (i + 1) s) @ filter (\<lambda>y. \<not> s ! i < y) (drop (i + 1) s)"
    by (metis append_take_drop_id filter_append)
  then show "i + 1 \<le> length (filter (\<lambda>y. \<not> s ! i < y) s)" using filter_True [OF pre] assms(2) by simp
  have "filter (\<lambda>y. \<not> y < s ! i) s = filter (\<lambda>y. \<not> y < s ! i) (take i s) @ filter (\<lambda>y. \<not> y < s ! i) (drop i s)"
    by (metis append_take_drop_id filter_append)
  then show "length s - i \<le> length (filter (\<lambda>y. \<not> y < s ! i) s)" using filter_True [OF suf] by simp
qed

text \<open>The index before it is truncated: the percentage of the last index, computed in doubles.\<close>

definition percentile_rank :: "real \<Rightarrow> nat \<Rightarrow> real" where
  "percentile_rank q n = rnd64 (rnd64 (q / 100) * (real n - 1))"

lemma percentile_rank_mono: "q \<le> q' \<Longrightarrow> 0 < n \<Longrightarrow> percentile_rank q n \<le> percentile_rank q' n"
  unfolding percentile_rank_def
  by (intro ieee.rnd_mono mult_right_mono) simp_all

lemma percentile_index:
  assumes "0 \<le> q" "q \<le> 100" "0 < n" "n \<le> 2 ^ 53"
  shows "Fin q / Fin 100 * f64_of_int ((int n - 1) mod 2 ^ 64) = Fin (percentile_rank q n)"
    and "0 \<le> percentile_rank q n" and "percentile_rank q n \<le> real n - 1"
proof -
  have m: "(int n - 1) mod 2 ^ 64 = int n - 1" using assms(3,4) by (intro mod_pos_pos_trivial) simp_all
  have N: "f64_of_int (int n - 1) = Fin (real n - 1)"
    using fl_int [of "int n - 1"] assms(3,4) by (simp add: f64_of_int_def)
  have q: "0 \<le> q / 100" "q / 100 \<le> 1" using assms(1,2) by simp_all
  have r1: "0 \<le> rnd64 (q / 100)" "rnd64 (q / 100) \<le> 1"
    using rnd64_nonneg [OF q(1)] ieee.rnd_le_exact [OF q(2) ieee.rnd_one] by simp_all
  let ?x = "rnd64 (q / 100) * (real n - 1)"
  have x: "0 \<le> ?x" "?x \<le> real n - 1" using r1 assms(3) by (simp_all add: mult_left_le_one_le)
  have ex: "rnd64 (real n - 1) = real n - 1" using ieee.rnd_nat [of "n - 1"] assms(3,4) by (simp add: of_nat_diff)
  have "\<bar>?x\<bar> \<le> 2 ^ 53" using x assms(4) by simp
  then show "Fin q / Fin 100 * f64_of_int ((int n - 1) mod 2 ^ 64) = Fin (percentile_rank q n)"
    using q m N by (simp add: f64_ops fl_small percentile_rank_def)
  show "0 \<le> percentile_rank q n" "percentile_rank q n \<le> real n - 1"
    using rnd64_nonneg [OF x(1)] ieee.rnd_le_exact [OF x(2) ex] by (simp_all add: percentile_rank_def)
qed

lemma length_sort_doubles [simp]: "length (sort_doubles v) = length v"
  by (metis mset_sort_doubles size_mset)

lemma set_sort_doubles [simp]: "set (sort_doubles v) = set v"
  by (metis mset_sort_doubles set_mset_mset)

lemma percentile_nth:
  assumes "v \<noteq> []" "0 \<le> q" "q \<le> 100" "length v \<le> 2 ^ 53"
  defines "i \<equiv> nat \<lfloor>percentile_rank q (length v)\<rfloor>"
  shows "i < length v" and "percentile v (Fin q) = Inr (sort_doubles v ! i)"
proof -
  have n: "0 < length v" using assms(1) by simp
  note r = percentile_index [OF assms(2,3) n assms(4)]
  show i: "i < length v" using r(2,3) n unfolding i_def by linarith
  have "Decimal_Double.truncate (percentile_rank q (length v)) = \<lfloor>percentile_rank q (length v)\<rfloor>"
    using r(2) by (simp add: Decimal_Double.truncate_def)
  moreover have "real (length v) \<le> 2 ^ 53" using assms(4) by (metis of_nat_le_iff of_nat_numeral of_nat_power)
  then have "\<lfloor>percentile_rank q (length v)\<rfloor> < 2 ^ 64" using r(3) by (simp add: floor_less_iff)
  ultimately show "percentile v (Fin q) = Inr (sort_doubles v ! i)"
    using r(1,2) i unfolding i_def by (simp add: percentile_def Let_def size_of_f64_def)
qed

text \<open>
  The percentile of at least one latency, none of them NaN, for a percentage between 0 and 100,
  never reads outside the vector: with \<open>i\<close> the percentage of the last index, computed in doubles and
  rounded down, the result is one of the latencies, at least \<open>i + 1\<close> of them are not greater and at
  least \<open>n - i\<close> not smaller. Of an empty vector it is undefined.
\<close>

lemma percentile_order_statistic:
  assumes "NaN \<notin> set v" "0 \<le> q" "q \<le> 100" "length v \<le> 2 ^ 53"
  shows "if v = [] then percentile v (Fin q) = Inl OutOfRange
    else \<exists>x r i. percentile v (Fin q) = Inr x \<and> Fin q / Fin 100 * f64_of_int (int (length v) - 1) = Fin r
      \<and> i = nat \<lfloor>r\<rfloor> \<and> i < length v \<and> x \<in> set v
      \<and> i + 1 \<le> length (filter (\<lambda>y. \<not> x < y) v) \<and> length v - i \<le> length (filter (\<lambda>y. \<not> y < x) v)"
proof (cases "v = []")
  case True
  then show ?thesis by (auto simp: percentile_def sort_doubles_def Let_def cbind_def size_of_f64_def
        split: sum.splits f64.splits if_splits)
next
  case False
  let ?s = "sort_doubles v" and ?i = "nat \<lfloor>percentile_rank q (length v)\<rfloor>"
  have n: "0 < length v" using False by simp
  have m: "(int (length v) - 1) mod 2 ^ 64 = int (length v) - 1"
    using n assms(4) by (intro mod_pos_pos_trivial) simp_all
  note p = percentile_nth [OF False assms(2,3,4)]
  have "?s ! ?i \<in> set v" using p(1) nth_mem [of ?i ?s] by simp
  moreover have "?i + 1 \<le> length (filter (\<lambda>y. \<not> ?s ! ?i < y) v)" "length v - ?i \<le> length (filter (\<lambda>y. \<not> y < ?s ! ?i) v)"
    using sorted_ranks [OF sort_doubles_sorted [OF assms(1)], of ?i] p(1)
      filter_count_mset [OF mset_sort_doubles, of "\<lambda>y. \<not> ?s ! ?i < y" v] filter_count_mset [OF mset_sort_doubles, of "\<lambda>y. \<not> y < ?s ! ?i" v]
    by simp_all
  ultimately show ?thesis
    using False p percentile_index(1) [OF assms(2,3) n assms(4)] m by auto
qed

lemma not_above_refl: "not_above x x"
  by (cases x) (simp_all add: not_above_def f64_ops)

lemma sorted_nth_not_above:
  "sorted_wrt not_above s \<Longrightarrow> i \<le> j \<Longrightarrow> j < length s \<Longrightarrow> not_above (s ! i) (s ! j)"
  using sorted_wrt_nth_less [of not_above s i j] not_above_refl by (cases "i = j") auto

lemma percentile_mono:
  assumes "NaN \<notin> set v" "v \<noteq> []" "length v \<le> 2 ^ 53" "0 \<le> q" "q \<le> q'" "q' \<le> 100"
  shows "\<exists>x y. percentile v (Fin q) = Inr x \<and> percentile v (Fin q') = Inr y
    \<and> not_above x y \<and> x \<in> set v \<and> y \<in> set v"
proof -
  let ?i = "nat \<lfloor>percentile_rank q (length v)\<rfloor>" and ?j = "nat \<lfloor>percentile_rank q' (length v)\<rfloor>"
  have p: "?i < length v" "percentile v (Fin q) = Inr (sort_doubles v ! ?i)"
    "?j < length v" "percentile v (Fin q') = Inr (sort_doubles v ! ?j)"
    using percentile_nth [of v q] percentile_nth [of v q'] assms by simp_all
  have "?i \<le> ?j"
    using assms(2,5) by (intro nat_mono floor_mono percentile_rank_mono) simp_all
  then have "not_above (sort_doubles v ! ?i) (sort_doubles v ! ?j)"
    using sorted_nth_not_above [OF sort_doubles_sorted [OF assms(1)]] p(3) by simp
  then show ?thesis using p nth_mem [of ?i "sort_doubles v"] nth_mem [of ?j "sort_doubles v"] by simp
qed

section \<open>The latency report\<close>

lemma bench_samples_value:
  "bench_samples results elapsed i n us =
     (if \<forall>k<n. result_ok (results (i + k))
      then Some (us @ map (\<lambda>k. elapsed (i + k) * Fin 1000000) [0..<n]) else None)"
proof (induction n arbitrary: i us)
  case (Suc n)
  have "(\<forall>k<Suc n. result_ok (results (i + k)))
      \<longleftrightarrow> result_ok (results i) \<and> (\<forall>k<n. result_ok (results (i + 1 + k)))"
    by (auto simp: less_Suc_eq_0_disj)
  then show ?case
    using Suc.IH [of "i + 1"]
    by (simp add: upt_conv_Cons map_Suc_upt [symmetric] comp_def del: upt_Suc)
qed simp

lemma fl_not_NaN: "fl x \<noteq> NaN"
  unfolding fl_def Let_def by (metis f64.distinct(3,5,7,9,11))

lemma times_million_not_NaN: "a \<noteq> NaN \<Longrightarrow> a * Fin 1000000 \<noteq> NaN"
  by (cases a) (simp_all add: f64_ops fl_not_NaN signed_inf_def)

text \<open>
  The latency report: the program aborts exactly when one of the 3000 timed calls fails, whatever
  the warm-up calls returned; otherwise the three numbers are measured latencies in microseconds
  and they are ordered, p50 before p90 before p99.
\<close>

lemma bench_latency_report:
  assumes "\<forall>k<kIters. elapsed k \<noteq> NaN"
  shows "if \<exists>k<kIters. \<not> result_ok (results (kWarmup + k)) then bench_latency results elapsed = None
    else \<exists>a b c. bench_latency results elapsed = Some (Inr (a, b, c)) \<and> not_above a b \<and> not_above b c
      \<and> {a, b, c} \<subseteq> (\<lambda>k. elapsed k * Fin 1000000) ` {..<kIters}"
proof (cases "\<exists>k<kIters. \<not> result_ok (results (kWarmup + k))")
  case True
  then show ?thesis by (auto simp: bench_latency_def bench_samples_value)
next
  case False
  define us where "us = map (\<lambda>k. elapsed k * Fin 1000000) [0..<kIters]"
  have run: "bench_samples (\<lambda>i. results (kWarmup + i)) elapsed 0 kIters [] = Some us"
    using False by (simp add: bench_samples_value us_def)
  have set_us: "set us = (\<lambda>k. elapsed k * Fin 1000000) ` {..<kIters}" by (auto simp: us_def)
  have len: "length us = kIters" by (simp add: us_def)
  have nan: "NaN \<notin> set us"
  proof
    assume "NaN \<in> set us"
    then obtain k where "k < kIters" "NaN = elapsed k * Fin 1000000" by (auto simp: set_us)
    then show False using times_million_not_NaN [of "elapsed k"] assms by simp
  qed
  have "0 < kIters" "kIters \<le> 2 ^ 53" by (simp_all add: kIters_def)
  then have us: "us \<noteq> []" "length us \<le> 2 ^ 53" using len by auto
  obtain a b where ab: "percentile us (Fin 50) = Inr a" "percentile us (Fin 90) = Inr b" "not_above a b" "a \<in> set us" "b \<in> set us"
    using percentile_mono [OF nan us, of 50 90] by auto
  obtain c where c: "percentile us (Fin 99) = Inr c" "not_above b c" "c \<in> set us"
    using percentile_mono [OF nan us, of 90 99] ab(2) by auto
  show ?thesis using False ab c set_us by (simp add: bench_latency_def run)
qed

end
