(* ===== verification/Mock_Servers.thy ===== *)
theory Mock_Servers
  imports Market_Data_Stream Unary Decimal
begin

text \<open>
  The in-process servers of \<^verbatim>\<open>bench/bench.cpp\<close> and \<^verbatim>\<open>bench/soak.cpp\<close> and what the two programs do
  with their answers: the stream handlers write candles after the first candle subscription that
  they read, the user services answer one call with data and one with an error; the programs count.

  A handler is a function of the requests that it reads before the client half-closes and of the
  success of its writes, in order; it yields the messages written. Responses are what the client
  dispatches: a message with its payload case.

  Shown: the counters reach the values that the programs wait for and check at their end.
\<close>

section \<open>Stream handlers\<close>

datatype server_msg = CandlesAck | CandleMsg string quotation

fun has_subscribe_candles_request :: "md_request \<Rightarrow> bool" where
  "has_subscribe_candles_request (SubscribeCandles p) = True"
| "has_subscribe_candles_request _ = False"

text \<open>The writing loop from its index \<open>i\<close>; \<open>w\<close> counts the writes. A failed write ends it.\<close>

fun push_candles :: "(nat \<Rightarrow> bool) \<Rightarrow> (int \<Rightarrow> server_msg) \<Rightarrow> nat \<Rightarrow> nat \<Rightarrow> int \<Rightarrow> server_msg list" where
  "push_candles ok mk w 0 i = []"
| "push_candles ok mk w (Suc n) i = (if ok w then mk i # push_candles ok mk (w + 1) n (i + 1) else [])"

definition bench_candle :: "int \<Rightarrow> server_msg" where
  "bench_candle i = CandleMsg ''uid'' \<lparr>q_units = i, q_nano = 123000000\<rparr>"

text \<open>The benchmark's handler ignores whether the acknowledgement was written.\<close>

fun bench_market_data :: "int \<Rightarrow> (nat \<Rightarrow> bool) \<Rightarrow> md_request list \<Rightarrow> server_msg list" where
  "bench_market_data messages ok [] = []"
| "bench_market_data messages ok (req # reqs) =
     (if \<not> has_subscribe_candles_request req then bench_market_data messages ok reqs
      else (if ok 0 then [CandlesAck] else []) @ push_candles ok bench_candle 1 (nat messages) 0)"

definition soak_candle :: "int \<Rightarrow> server_msg" where
  "soak_candle i = CandleMsg ''uid'' \<lparr>q_units = i, q_nano = 0\<rparr>"

definition kDropEvery :: nat where
  "kDropEvery = 500"

record soak_server =
  ss_connections :: int
  ss_pushed :: int

fun soak_writes :: "(nat \<Rightarrow> bool) \<Rightarrow> md_request list \<Rightarrow> server_msg list" where
  "soak_writes ok [] = []"
| "soak_writes ok (req # reqs) =
     (if \<not> has_subscribe_candles_request req then soak_writes ok reqs
      else if \<not> ok 0 then []
      else CandlesAck # push_candles ok soak_candle 1 kDropEvery 0)"

definition soak_market_data :: "(nat \<Rightarrow> bool) \<Rightarrow> md_request list \<Rightarrow> soak_server \<Rightarrow> server_msg list \<times> soak_server" where
  "soak_market_data ok reqs s =
     (let out = soak_writes ok reqs in
      (out, \<lparr>ss_connections = ss_connections s + 1,
             ss_pushed = ss_pushed s + int (length (filter (\<lambda>m. m \<noteq> CandlesAck) out))\<rparr>))"

section \<open>Counting what arrives\<close>

fun payload_of :: "server_msg \<Rightarrow> payload_case" where
  "payload_of CandlesAck = kSubscribeCandlesResponse"
| "payload_of (CandleMsg uid close) = kCandle"

definition candle_handlers :: handlers where
  "candle_handlers h \<longleftrightarrow> h = on_candle"

text \<open>The benchmark's \<^verbatim>\<open>on_candle\<close>: the count, and whether it notifies the waiting thread.\<close>

definition bench_on_candle :: "int \<Rightarrow> int \<Rightarrow> int \<times> bool" where
  "bench_on_candle messages received = (received + 1, received + 1 = messages)"

fun bench_receive :: "int \<Rightarrow> server_msg list \<Rightarrow> int \<Rightarrow> int \<times> bool list" where
  "bench_receive messages [] received = (received, [])"
| "bench_receive messages (m # ms) received =
     (if on_candle \<in> set (dispatch candle_handlers (payload_of m))
      then (case bench_on_candle messages received of (n, b) \<Rightarrow>
        (case bench_receive messages ms n of (r, bs) \<Rightarrow> (r, b # bs)))
      else bench_receive messages ms received)"

definition bench_stream_options :: stream_options where
  "bench_stream_options = default_stream_options\<lparr>so_reconnect := False\<rparr>"

text \<open>The soak program's counters of candles and of disconnections.\<close>

record soak_stream =
  sk_candles :: int
  sk_reconnects :: int

definition soak_on_candle :: "soak_stream \<Rightarrow> soak_stream" where
  "soak_on_candle s = s\<lparr>sk_candles := sk_candles s + 1\<rparr>"

definition soak_on_state :: "stream_state \<Rightarrow> soak_stream \<Rightarrow> soak_stream" where
  "soak_on_state st s = (if st = disconnected then s\<lparr>sk_reconnects := sk_reconnects s + 1\<rparr> else s)"

definition soak_response :: "server_msg \<Rightarrow> soak_stream \<Rightarrow> soak_stream" where
  "soak_response m s =
     (if on_candle \<in> set (dispatch candle_handlers (payload_of m)) then soak_on_candle s else s)"

definition fast_retry :: stream_options where
  "fast_retry = default_stream_options\<lparr>so_initial_backoff := 20\<rparr>"

section \<open>Users services\<close>

definition bench_accounts_reply :: "string list reply" where
  "bench_accounts_reply = \<lparr>rep_code = OK, rep_error_message = [], rep_trailing = [], rep_resp = [''bench'']\<rparr>"

definition soak_accounts_reply :: "string list reply" where
  "soak_accounts_reply = \<lparr>rep_code = OK, rep_error_message = [], rep_trailing = [], rep_resp = [''soak'']\<rparr>"

definition soak_margin_reply :: "unit reply" where
  "soak_margin_reply = \<lparr>rep_code = NOT_FOUND, rep_error_message = ''30042'',
     rep_trailing = [(''message'', ''soak error path''), (''x-tracking-id'', ''soak-trk'')], rep_resp = ()\<rparr>"

record sync_counts =
  sy_ok :: int
  sy_err :: int

text \<open>The two calls of one round of a blocking worker.\<close>

definition soak_accounts :: "string list result \<Rightarrow> sync_counts \<Rightarrow> sync_counts" where
  "soak_accounts accounts s =
     (if result_ok accounts then s\<lparr>sy_ok := sy_ok s + 1\<rparr> else s\<lparr>sy_err := sy_err s + 1\<rparr>)"

definition soak_margin :: "unit result \<Rightarrow> sync_counts \<Rightarrow> sync_counts" where
  "soak_margin margin s =
     (case margin of
        Failure e \<Rightarrow> if err_tracking_id e = ''soak-trk'' then s\<lparr>sy_ok := sy_ok s + 1\<rparr> else s
      | Value x \<Rightarrow> s)"

definition soak_round :: "string list result \<Rightarrow> unit result \<Rightarrow> sync_counts \<Rightarrow> sync_counts" where
  "soak_round accounts margin s = soak_margin margin (soak_accounts accounts s)"

section \<open>Memory and the verdict\<close>

text \<open>\<^verbatim>\<open>std::atol\<close>: a \<^verbatim>\<open>long\<close> has 64 bits.\<close>

definition atol :: "string \<Rightarrow> int cpp" where
  "atol s =
     (let s' = dropWhile is_space s in
      checked 64
        (if s' \<noteq> [] \<and> hd s' = CHR ''-'' then - atoi_digits (tl s')
         else if s' \<noteq> [] \<and> hd s' = CHR ''+'' then atoi_digits (tl s')
         else atoi_digits s'))"

text \<open>The lines of \<^verbatim>\<open>/proc/self/status\<close>, none when the file cannot be read.\<close>

fun rss_kb :: "string list \<Rightarrow> int cpp" where
  "rss_kb [] = Inr (- 1)"
| "rss_kb (line # lines) = (if take 6 line = ''VmRSS:'' then atol (drop 6 line) else rss_kb lines)"

text \<open>
  The reporting loop: every iteration has the clock at its head, in nanoseconds, and the lines of
  the status file after the sleep; the peak is what is printed at the end. \<open>None\<close>: still running.
\<close>

fun soak_watch :: "int \<Rightarrow> int \<Rightarrow> (int \<times> string list) list \<Rightarrow> int \<Rightarrow> int cpp option" where
  "soak_watch seconds t0 [] rss_mid_max = None"
| "soak_watch seconds t0 ((now, status) # rest) rss_mid_max =
     (if now - t0 < seconds * 1000000000
      then (case rss_kb status of
          Inl e \<Rightarrow> Some (Inl e)
        | Inr rss \<Rightarrow> soak_watch seconds t0 rest (max rss_mid_max rss))
      else Some (Inr rss_mid_max))"

definition soak_exit :: "sync_counts \<Rightarrow> soak_stream \<Rightarrow> int \<Rightarrow> int" where
  "soak_exit sy sk churn_cycles =
     (let sane = (sy_err sy = 0 \<and> 0 < sk_candles sk \<and> 0 < sk_reconnects sk \<and> 0 < churn_cycles) in
      if sane then 0 else 2)"

text \<open>The client of either program talks to its own server, without encryption.\<close>

definition local_endpoint :: "int \<Rightarrow> string" where
  "local_endpoint port = ''127.0.0.1:'' @ show_int port"

definition bench_config :: "int \<Rightarrow> config" where
  "bench_config port = default_config\<lparr>cfg_token := ''bench'', cfg_endpoint := local_endpoint port, cfg_use_tls := False\<rparr>"

definition soak_config :: "int \<Rightarrow> config" where
  "soak_config port = default_config\<lparr>cfg_token := ''soak'', cfg_endpoint := local_endpoint port, cfg_use_tls := False\<rparr>"

lemma local_channels_insecure:
  "credentials_of fs (bench_config port) = InsecureChannelCredentials"
  "credentials_of fs (soak_config port) = InsecureChannelCredentials"
  by (simp_all add: credentials_of_def bench_config_def soak_config_def)

section \<open>What the handlers write\<close>

lemma push_all:
  "\<forall>k<n. ok (w + k) \<Longrightarrow> push_candles ok mk w n i = map (\<lambda>k. mk (i + int k)) [0..<n]"
proof (induction n arbitrary: w i)
  case (Suc n)
  have "ok w" using Suc.prems by (metis add.right_neutral zero_less_Suc)
  moreover have "push_candles ok mk (w + 1) n (i + 1) = map (\<lambda>k. mk (i + 1 + int k)) [0..<n]"
    using Suc.prems by (intro Suc.IH) auto
  ultimately show ?case by (simp add: upt_conv_Cons map_Suc_upt [symmetric] comp_def add.assoc del: upt_Suc)
qed simp

lemma push_prefix: "length (push_candles ok mk w n i) \<le> n"
  by (induction ok mk w n i rule: push_candles.induct) simp_all

lemma bench_handler_writes:
  assumes "\<exists>r\<in>set reqs. has_subscribe_candles_request r" "\<forall>k. ok k"
  shows "bench_market_data messages ok reqs = CandlesAck # map (\<lambda>k. bench_candle (int k)) [0..<nat messages]"
  using assms by (induction messages ok reqs rule: bench_market_data.induct) (auto simp: push_all)

lemma soak_handler_writes:
  assumes "\<exists>r\<in>set reqs. has_subscribe_candles_request r" "\<forall>k. ok k"
  shows "soak_writes ok reqs = CandlesAck # map (\<lambda>k. soak_candle (int k)) [0..<kDropEvery]"
  using assms by (induction ok reqs rule: soak_writes.induct) (auto simp: push_all)

lemma counts_candles: "on_candle \<in> set (dispatch candle_handlers (payload_of m)) \<longleftrightarrow> m \<noteq> CandlesAck"
  by (cases m) (simp_all add: dispatch_def call_handler_def candle_handlers_def)

lemma bench_receive_candles:
  "\<forall>m\<in>set ms. m \<noteq> CandlesAck \<Longrightarrow> bench_receive messages ms n
   = (n + int (length ms), map (\<lambda>k. n + int k + 1 = messages) [0..<length ms])"
proof (induction ms arbitrary: n)
  case (Cons m ms)
  then have "bench_receive messages ms (n + 1)
      = (n + 1 + int (length ms), map (\<lambda>k. n + 1 + int k + 1 = messages) [0..<length ms])" by simp
  then show ?case
    using Cons.prems
    by (simp add: counts_candles bench_on_candle_def upt_conv_Cons map_Suc_upt [symmetric] comp_def add.assoc del: upt_Suc)
qed simp

text \<open>
  The stream benchmark always gets what it waits for: once the server has read a
  candle subscription and its writes succeed, it acknowledges and writes exactly the agreed number
  of candles, closing at 0.123, 1.123 and so on; the client counts all of them, not the
  acknowledgement, and notifies the waiting thread exactly once, on the last one.
\<close>

lemma bench_stream_counts:
  assumes "\<exists>r\<in>set reqs. has_subscribe_candles_request r" "\<forall>k. ok k" "0 < messages"
  shows "let ms = bench_market_data messages ok reqs in
    ms = CandlesAck # map (\<lambda>k. bench_candle (int k)) [0..<nat messages]
    \<and> fst (bench_receive messages ms 0) = messages
    \<and> (\<forall>i<nat messages. snd (bench_receive messages ms 0) ! i \<longleftrightarrow> i + 1 = nat messages)
    \<and> length (snd (bench_receive messages ms 0)) = nat messages"
proof -
  let ?cs = "map (\<lambda>k. bench_candle (int k)) [0..<nat messages]"
  have "\<forall>m\<in>set ?cs. m \<noteq> CandlesAck" by (auto simp: bench_candle_def)
  from bench_receive_candles [OF this, of messages 0] assms(3)
  have "bench_receive messages (CandlesAck # ?cs) 0 = (messages, map (\<lambda>k. int k + 1 = messages) [0..<nat messages])"
    using counts_candles [of CandlesAck] by simp
  then show ?thesis using bench_handler_writes [OF assms(1,2), of messages] assms(3) by (auto simp: Let_def)
qed

section \<open>The memory report\<close>

lemma soak_watch_peak:
  assumes "\<forall>(now, status)\<in>set pre. now - t0 < seconds * 1000000000"
    "map (\<lambda>(now, status). rss_kb status) pre = map Inr vals" "seconds * 1000000000 \<le> now - t0"
  shows "soak_watch seconds t0 (pre @ (now, status) # rest) m = Some (Inr (foldl max m vals))"
  using assms
proof (induction pre arbitrary: m vals)
  case (Cons p pre)
  obtain t st where p: "p = (t, st)" by (cases p)
  with Cons.prems(2) obtain v vs where "vals = v # vs" "rss_kb st = Inr v"
      "map (\<lambda>(now, status). rss_kb status) pre = map Inr vs" by (cases vals) auto
  then show ?case using Cons p by simp
qed simp

lemma foldl_max_Max: "foldl max (m :: int) vs = Max (insert m (set vs))"
proof (induction vs arbitrary: m)
  case (Cons v vs)
  have "Max (insert (max m v) (set vs)) = Max (insert m (insert v (set vs)))"
    by (cases "vs = []") (simp_all add: max.assoc)
  then show ?case using Cons by simp
qed simp

text \<open>
  The printed peak is the largest memory reading of the run, and 0 when there is none: readings that
  fail, which are -1, never show in it. The loop ends at the first clock reading past the duration.
\<close>

lemma soak_peak_reported:
  assumes "\<forall>(now, status)\<in>set pre. now - t0 < seconds * 1000000000"
    "map (\<lambda>(now, status). rss_kb status) pre = map Inr vals" "seconds * 1000000000 \<le> now - t0"
  shows "\<exists>peak. soak_watch seconds t0 (pre @ (now, status) # rest) 0 = Some (Inr peak)
    \<and> 0 \<le> peak \<and> (\<forall>v\<in>set vals. v \<le> peak) \<and> (peak = 0 \<or> peak \<in> set vals)"
proof (intro exI conjI)
  let ?p = "Max (insert 0 (set vals))"
  show "soak_watch seconds t0 (pre @ (now, status) # rest) 0 = Some (Inr ?p)"
    using soak_watch_peak [OF assms] by (simp only: foldl_max_Max)
  show "0 \<le> ?p" "\<forall>v\<in>set vals. v \<le> ?p" by simp_all
  show "?p = 0 \<or> ?p \<in> set vals" using Max_in [of "insert 0 (set vals)"] by auto
qed

section \<open>The soak verdict\<close>

text \<open>The life of the persistent stream: every session ends with a drop that the client reports.\<close>

fun soak_sessions :: "((nat \<Rightarrow> bool) \<times> md_request list) list \<Rightarrow> soak_server \<times> soak_stream \<Rightarrow> soak_server \<times> soak_stream" where
  "soak_sessions [] (sv, sk) = (sv, sk)"
| "soak_sessions ((ok, reqs) # rest) (sv, sk) =
     (case soak_market_data ok reqs sv of (out, sv1) \<Rightarrow>
        soak_sessions rest (sv1, soak_on_state disconnected (fold soak_response out sk)))"

lemma fold_soak_response:
  "fold soak_response out sk = sk\<lparr>sk_candles := sk_candles sk + int (length (filter (\<lambda>m. m \<noteq> CandlesAck) out))\<rparr>"
  by (induction out arbitrary: sk) (simp_all add: soak_response_def counts_candles soak_on_candle_def)

lemma soak_candle_no_ack: "filter (\<lambda>m. m \<noteq> CandlesAck) (map (\<lambda>k. soak_candle (int k)) ks) = map (\<lambda>k. soak_candle (int k)) ks"
  by (rule filter_True) (auto simp: soak_candle_def)

lemma soak_sessions_counts:
  assumes "\<forall>(ok, reqs)\<in>set ses. (\<forall>k. ok k) \<and> (\<exists>r\<in>set reqs. has_subscribe_candles_request r)"
  shows "soak_sessions ses (sv, sk) =
    (\<lparr>ss_connections = ss_connections sv + int (length ses), ss_pushed = ss_pushed sv + 500 * int (length ses)\<rparr>,
     \<lparr>sk_candles = sk_candles sk + 500 * int (length ses), sk_reconnects = sk_reconnects sk + int (length ses)\<rparr>)"
  using assms
proof (induction ses arbitrary: sv sk)
  case (Cons se ses)
  obtain ok reqs where se: "se = (ok, reqs)" by (cases se)
  have w: "soak_writes ok reqs = CandlesAck # map (\<lambda>k. soak_candle (int k)) [0..<kDropEvery]"
    using Cons.prems se by (intro soak_handler_writes) auto
  have out: "length (filter (\<lambda>m. m \<noteq> CandlesAck) (soak_writes ok reqs)) = 500"
    unfolding w by (simp add: soak_candle_no_ack kDropEvery_def)
  show ?case
    using Cons.IH Cons.prems
    by (simp add: se soak_market_data_def Let_def fold_soak_response out soak_on_state_def)
qed simp

lemma soak_margin_error:
  "make_error soak_margin_reply = Inr \<lparr>err_code = NOT_FOUND, err_message = ''soak error path'', err_api_code = ''30042'',
     err_tracking_id = ''soak-trk'', err_ratelimit = \<lparr>rli_limit = - 1, rli_remaining = - 1, rli_reset_seconds = - 1\<rparr>\<rparr>"
  by (simp add: make_error_def soak_margin_reply_def get_metadata_def get_int_metadata_def Let_def is_digit_def)

lemma soak_accounts_counts:
  "returns_for soak_accounts_reply accounts \<Longrightarrow> soak_accounts accounts s = s\<lparr>sy_ok := sy_ok s + 1\<rparr>"
  by (auto simp: returns_for_def soak_accounts_def soak_accounts_reply_def split: result.splits)

lemma soak_margin_counts:
  "returns_for soak_margin_reply margin \<Longrightarrow> soak_margin margin s = s\<lparr>sy_ok := sy_ok s + 1\<rparr>"
  using soak_margin_error
  by (auto simp: returns_for_def soak_margin_def soak_margin_reply_def split: result.splits)

lemma soak_round_counts:
  assumes "returns_for soak_accounts_reply accounts" "returns_for soak_margin_reply margin"
  shows "soak_round accounts margin s = s\<lparr>sy_ok := sy_ok s + 2\<rparr>"
  using assms by (simp add: soak_round_def soak_accounts_counts soak_margin_counts)

text \<open>
  Against its own servers the soak test passes. Every round of a blocking worker, whatever
  it returns being the classification of the servers' replies, counts two successes and no error:
  the deliberate failure arrives as an error value with its tracking id. Every session of the
  persistent stream brings 500 candles and one drop. So after at least one session and one churn cycle
  the exit code is 0, however many rounds and sessions there were.
\<close>

lemma soak_passes:
  assumes "\<forall>(accounts, margin)\<in>set rounds. returns_for soak_accounts_reply accounts \<and> returns_for soak_margin_reply margin"
    "\<forall>(ok, reqs)\<in>set ses. (\<forall>k. ok k) \<and> (\<exists>r\<in>set reqs. has_subscribe_candles_request r)" "ses \<noteq> []" "0 < churn"
    "sy = fold (\<lambda>(accounts, margin). soak_round accounts margin) rounds \<lparr>sy_ok = 0, sy_err = 0\<rparr>"
    "(sv, sk) = soak_sessions ses (\<lparr>ss_connections = 0, ss_pushed = 0\<rparr>, \<lparr>sk_candles = 0, sk_reconnects = 0\<rparr>)"
  shows "sy = \<lparr>sy_ok = 2 * int (length rounds), sy_err = 0\<rparr>
    \<and> sk = \<lparr>sk_candles = 500 * int (length ses), sk_reconnects = int (length ses)\<rparr>
    \<and> ss_pushed sv = sk_candles sk \<and> ss_connections sv = int (length ses)
    \<and> soak_exit sy sk churn = 0"
proof -
  have "fold (\<lambda>(accounts, margin). soak_round accounts margin) rounds s = s\<lparr>sy_ok := sy_ok s + 2 * int (length rounds)\<rparr>" for s
    using assms(1) by (induction rounds arbitrary: s) (auto simp: soak_round_counts)
  then have sy: "sy = \<lparr>sy_ok = 2 * int (length rounds), sy_err = 0\<rparr>" using assms(5) by simp
  moreover have "sk = \<lparr>sk_candles = 500 * int (length ses), sk_reconnects = int (length ses)\<rparr>"
      "ss_pushed sv = 500 * int (length ses)" "ss_connections sv = int (length ses)"
    using assms(6) soak_sessions_counts [OF assms(2)] by simp_all
  moreover have "0 < int (length ses)" using assms(3) by simp
  ultimately show ?thesis using assms(4) by (simp add: soak_exit_def)
qed

end
