(* ===== verification/Load_Window.thy ===== *)
theory Load_Window
  imports Prelude
begin

text \<open>
  The loops of the load programs that keep a number of callback calls in flight:
  \<^verbatim>\<open>bench/bench.cpp\<close> (\<^verbatim>\<open>bench_rpc\<close>, a fixed number of calls) and \<^verbatim>\<open>bench/soak.cpp\<close> (the pump, until
  it is told to stop). A step is a region under the mutex or a call into the library; the
  callbacks run on other threads, in any order and at any time after the call. A thread that waits
  on the condition variable is asleep until a callback notifies it (or, for \<^verbatim>\<open>wait_for\<close>, the time is
  over), so that a lost notification would show as a state without steps.

  What both have in common is the locale \<open>window_pump\<close>: calls are counted before they are made and
  uncounted in their callback.
\<close>

section \<open>Windows\<close>

locale window_pump =
  fixes init :: "'s \<Rightarrow> bool"
    and step :: "'s \<Rightarrow> 's \<Rightarrow> bool"
    and flight :: "'s \<Rightarrow> int"
    and counted :: "'s \<Rightarrow> int"
    and issuing :: "'s \<Rightarrow> bool"
    and limit :: int
  assumes start: "init s \<Longrightarrow> flight s = 0 \<and> counted s = 0 \<and> \<not> issuing s"
    and pos_limit: "0 < limit"
    and steps: "step s s' \<Longrightarrow>
      \<not> issuing s \<and> issuing s' \<and> counted s < limit \<and> counted s' = counted s + 1 \<and> flight s' = flight s
      \<or> issuing s \<and> \<not> issuing s' \<and> counted s' = counted s \<and> flight s' = flight s + 1
      \<or> issuing s' = issuing s \<and> 0 < flight s \<and> counted s' = counted s - 1 \<and> flight s' = flight s - 1
      \<or> issuing s' = issuing s \<and> counted s' = counted s \<and> flight s' = flight s"
begin

inductive reach :: "'s \<Rightarrow> bool" where
  reach_init: "init s \<Longrightarrow> reach s"
| reach_step: "reach s \<Longrightarrow> step s s' \<Longrightarrow> reach s'"

lemma window_bound:
  assumes "reach s"
  shows "0 \<le> flight s \<and> counted s = flight s + (if issuing s then 1 else 0) \<and> counted s \<le> limit"
  using assms
proof (induction rule: reach.induct)
  case (reach_init s)
  then show ?case using start pos_limit by fastforce
next
  case (reach_step s s')
  then show ?case using steps [OF reach_step(2)] by (auto split: if_splits)
qed

lemma reach_induct_inv:
  assumes "reach s" "\<And>s. init s \<Longrightarrow> P s" "\<And>s s'. reach s \<Longrightarrow> P s \<Longrightarrow> step s s' \<Longrightarrow> P s'"
  shows "P s"
  using assms(1) by (induction rule: reach.induct) (use assms(2,3) in auto)

end

section \<open>A fixed number of calls\<close>

definition kTotal :: int where
  "kTotal = 50000"

definition kWindow :: int where
  "kWindow = 256"

text \<open>Where the calling thread is: before a wait, asleep in it, between counting and calling, done.\<close>

datatype bench_pc = BLoop | BAsleep | BIssue | BDrain | BDrainAsleep | BDone

record bench_run =
  br_pc :: bench_pc
  br_issued :: int
  br_outstanding :: int
  br_completed :: int
  br_failed :: int
  br_flight :: int

definition bench_init :: bench_run where
  "bench_init = \<lparr>br_pc = BLoop, br_issued = 0, br_outstanding = 0, br_completed = 0, br_failed = 0, br_flight = 0\<rparr>"

text \<open>The predicate of the wait that the thread is in.\<close>

definition bench_wait_over :: "bench_run \<Rightarrow> bool" where
  "bench_wait_over s = (case br_pc s of
     BLoop \<Rightarrow> br_outstanding s < kWindow
   | BAsleep \<Rightarrow> br_outstanding s < kWindow
   | BDrain \<Rightarrow> br_completed s = kTotal
   | BDrainAsleep \<Rightarrow> br_completed s = kTotal
   | _ \<Rightarrow> True)"

text \<open>The callback of a call: under the mutex, with \<^verbatim>\<open>notify_all\<close>.\<close>

definition bench_callback :: "bool \<Rightarrow> bench_run \<Rightarrow> bench_run" where
  "bench_callback ok s =
     s\<lparr>br_outstanding := br_outstanding s - 1, br_completed := br_completed s + 1,
       br_failed := (if ok then br_failed s else br_failed s + 1), br_flight := br_flight s - 1,
       br_pc := (case br_pc s of BAsleep \<Rightarrow> BLoop | BDrainAsleep \<Rightarrow> BDrain | pc \<Rightarrow> pc)\<rparr>"

inductive bench_step :: "bench_run \<Rightarrow> bench_run \<Rightarrow> bool" where
  bench_take: "br_pc s = BLoop \<Longrightarrow> br_issued s < kTotal \<Longrightarrow> bench_wait_over s
    \<Longrightarrow> bench_step s (s\<lparr>br_outstanding := br_outstanding s + 1, br_pc := BIssue\<rparr>)"
| bench_call: "br_pc s = BIssue
    \<Longrightarrow> bench_step s (s\<lparr>br_issued := br_issued s + 1, br_flight := br_flight s + 1, br_pc := BLoop\<rparr>)"
| bench_sleep: "br_pc s = BLoop \<Longrightarrow> br_issued s < kTotal \<Longrightarrow> \<not> bench_wait_over s \<Longrightarrow> bench_step s (s\<lparr>br_pc := BAsleep\<rparr>)"
| bench_last: "br_pc s = BLoop \<Longrightarrow> br_issued s = kTotal \<Longrightarrow> bench_step s (s\<lparr>br_pc := BDrain\<rparr>)"
| bench_drain_sleep: "br_pc s = BDrain \<Longrightarrow> \<not> bench_wait_over s \<Longrightarrow> bench_step s (s\<lparr>br_pc := BDrainAsleep\<rparr>)"
| bench_finish: "br_pc s = BDrain \<Longrightarrow> bench_wait_over s \<Longrightarrow> bench_step s (s\<lparr>br_pc := BDone\<rparr>)"
| bench_complete: "0 < br_flight s \<Longrightarrow> bench_step s (bench_callback ok s)"

inductive_cases bench_stepE: "bench_step s s'"

interpretation bench: window_pump "\<lambda>s. s = bench_init" bench_step br_flight br_outstanding "\<lambda>s. br_pc s = BIssue" kWindow
proof
  show "(0 :: int) < kWindow" by (simp add: kWindow_def)
  show "s = bench_init \<Longrightarrow> br_flight s = 0 \<and> br_outstanding s = 0 \<and> br_pc s \<noteq> BIssue" for s
    by (simp add: bench_init_def)
next
  fix s s' assume "bench_step s s'"
  then show "br_pc s \<noteq> BIssue \<and> br_pc s' = BIssue \<and> br_outstanding s < kWindow
        \<and> br_outstanding s' = br_outstanding s + 1 \<and> br_flight s' = br_flight s
      \<or> br_pc s = BIssue \<and> br_pc s' \<noteq> BIssue \<and> br_outstanding s' = br_outstanding s \<and> br_flight s' = br_flight s + 1
      \<or> (br_pc s' = BIssue) = (br_pc s = BIssue) \<and> 0 < br_flight s
        \<and> br_outstanding s' = br_outstanding s - 1 \<and> br_flight s' = br_flight s - 1
      \<or> (br_pc s' = BIssue) = (br_pc s = BIssue) \<and> br_outstanding s' = br_outstanding s \<and> br_flight s' = br_flight s"
    by (cases rule: bench_step.cases) (auto simp: bench_wait_over_def bench_callback_def split: bench_pc.splits)
qed

text \<open>The counters, and why a sleeping thread will be woken.\<close>

definition bench_counts :: "bench_run \<Rightarrow> bool" where
  "bench_counts s \<longleftrightarrow> br_completed s + br_flight s = br_issued s \<and> 0 \<le> br_failed s \<and> br_failed s \<le> br_completed s
     \<and> (case br_pc s of
          BLoop \<Rightarrow> br_issued s \<le> kTotal
        | BAsleep \<Rightarrow> br_issued s < kTotal \<and> \<not> bench_wait_over s
        | BIssue \<Rightarrow> br_issued s < kTotal
        | BDrain \<Rightarrow> br_issued s = kTotal
        | BDrainAsleep \<Rightarrow> br_issued s = kTotal \<and> \<not> bench_wait_over s
        | BDone \<Rightarrow> br_issued s = kTotal \<and> br_completed s = kTotal)"

lemma bench_counts_step:
  assumes "bench_counts s" "bench_step s s'"
  shows "bench_counts s'"
  using assms(2,1)
  by (cases rule: bench_step.cases)
    (auto simp: bench_counts_def bench_callback_def bench_wait_over_def split: bench_pc.splits)

lemma bench_counts_reach: "bench.reach s \<Longrightarrow> bench_counts s"
proof (erule bench.reach_induct_inv)
  show "s = bench_init \<Longrightarrow> bench_counts s" for s by (simp add: bench_counts_def bench_init_def kTotal_def)
qed (rule bench_counts_step)

fun bench_pc_rank :: "bench_pc \<Rightarrow> int" where
  "bench_pc_rank BLoop = 2"
| "bench_pc_rank BAsleep = 1"
| "bench_pc_rank BIssue = 1"
| "bench_pc_rank BDrain = 1"
| "bench_pc_rank BDrainAsleep = 0"
| "bench_pc_rank BDone = 0"

definition bench_rank :: "bench_run \<Rightarrow> nat" where
  "bench_rank s = nat (4 * (kTotal - br_issued s) + 2 * br_flight s + bench_pc_rank (br_pc s))"

lemma bench_rank_step:
  assumes "bench_counts s" "0 \<le> br_flight s" "bench_step s s'"
  shows "bench_rank s' < bench_rank s"
  using assms(3,1,2)
  by (cases rule: bench_step.cases)
    (auto simp: bench_rank_def bench_counts_def bench_callback_def kTotal_def split: bench_pc.splits)

lemma bench_can_step:
  assumes "bench_counts s" "0 \<le> br_flight s" "br_outstanding s = br_flight s + (if br_pc s = BIssue then 1 else 0)"
    "br_pc s \<noteq> BDone"
  shows "\<exists>s'. bench_step s s'"
proof (cases "br_pc s")
  case BLoop
  then show ?thesis
    using assms(1) bench_take [of s] bench_sleep [of s] bench_last [of s]
    by (cases "br_issued s = kTotal"; cases "bench_wait_over s") (auto simp: bench_counts_def)
next
  case BAsleep
  then have "0 < br_flight s" using assms by (simp add: bench_counts_def bench_wait_over_def kWindow_def)
  then show ?thesis using bench_complete by blast
next
  case BDrainAsleep
  then have "0 < br_flight s" using assms by (simp add: bench_counts_def bench_wait_over_def)
  then show ?thesis using bench_complete by blast
qed (use bench_call bench_drain_sleep bench_finish assms(4) in blast)+

text \<open>
  C28: the pipelined benchmark never has more than 256 calls outstanding and never waits for a
  notification that cannot come: as long as it is not done some step is possible, every step
  brings it closer to its end, whatever the order in which the callbacks run, and when it is done
  all 50000 calls have been made, each of them has reported once and none is in flight.
\<close>

theorem bench_window:
  assumes "bench.reach s"
  shows "0 \<le> br_outstanding s \<and> br_outstanding s \<le> 256
    \<and> (\<forall>s'. bench_step s s' \<longrightarrow> bench_rank s' < bench_rank s)
    \<and> (if br_pc s = BDone
       then br_issued s = 50000 \<and> br_completed s = 50000 \<and> br_outstanding s = 0 \<and> (\<nexists>s'. bench_step s s')
       else \<exists>s'. bench_step s s')"
proof -
  have w: "0 \<le> br_flight s" "br_outstanding s = br_flight s + (if br_pc s = BIssue then 1 else 0)" "br_outstanding s \<le> kWindow"
    using bench.window_bound [OF assms] by simp_all
  have c: "bench_counts s" by (rule bench_counts_reach [OF assms])
  have fin: "br_issued s = kTotal \<and> br_completed s = kTotal \<and> br_flight s = 0 \<and> (\<nexists>s'. bench_step s s')" if "br_pc s = BDone"
    using c that by (auto simp: bench_counts_def elim!: bench_stepE)
  have "if br_pc s = BDone
       then br_issued s = 50000 \<and> br_completed s = 50000 \<and> br_outstanding s = 0 \<and> (\<nexists>s'. bench_step s s')
       else \<exists>s'. bench_step s s'"
    using fin bench_can_step [OF c w(1,2)] w(2) by (simp add: kTotal_def)
  then show ?thesis using w bench_rank_step [OF c w(1)] by (auto simp: kWindow_def)
qed

theorem bench_window_witness:
  "bench.reach (bench_init\<lparr>br_outstanding := 1, br_pc := BIssue\<rparr>)
   \<and> (\<exists>s'. bench_step (bench_init\<lparr>br_outstanding := 1, br_pc := BIssue\<rparr>) s')"
proof -
  let ?s = "bench_init\<lparr>br_outstanding := 1, br_pc := BIssue\<rparr>"
  have "bench_step bench_init ?s"
    using bench_take [of bench_init] by (simp add: bench_init_def bench_wait_over_def kTotal_def kWindow_def)
  then have r: "bench.reach ?s" using bench.reach_step [OF bench.reach_init] by blast
  from bench_window [OF r] show ?thesis using r by simp
qed

section \<open>Calls until told to stop\<close>

datatype pump_pc = PTop | PWait | PIssue | PFinal | PEnded

record pump =
  pp_pc :: pump_pc
  pp_stop :: bool
  pp_outstanding :: int
  pp_async_done :: int
  pp_flight :: int
  pp_taken :: int

definition pump_init :: pump where
  "pump_init = \<lparr>pp_pc = PTop, pp_stop = False, pp_outstanding = 0, pp_async_done = 0, pp_flight = 0, pp_taken = 0\<rparr>"

text \<open>The region under the mutex once \<^verbatim>\<open>wait_for\<close> has returned, for either reason.\<close>

definition pump_locked :: "pump \<Rightarrow> pump" where
  "pump_locked s =
     (if pp_stop s then s\<lparr>pp_pc := PFinal\<rparr>
      else if 128 \<le> pp_outstanding s then s\<lparr>pp_pc := PTop\<rparr>
      else s\<lparr>pp_outstanding := pp_outstanding s + 1, pp_taken := pp_taken s + 1, pp_pc := PIssue\<rparr>)"

definition pump_callback :: "pump \<Rightarrow> pump" where
  "pump_callback s = s\<lparr>pp_outstanding := pp_outstanding s - 1, pp_async_done := pp_async_done s + 1,
     pp_flight := pp_flight s - 1\<rparr>"

inductive pump_step :: "pump \<Rightarrow> pump \<Rightarrow> bool" where
  pump_top: "pp_pc s = PTop \<Longrightarrow> pump_step s (s\<lparr>pp_pc := (if pp_stop s then PFinal else PWait)\<rparr>)"
| pump_wake: "pp_pc s = PWait \<Longrightarrow> pump_step s (pump_locked s)"
| pump_call: "pp_pc s = PIssue \<Longrightarrow> pump_step s (s\<lparr>pp_flight := pp_flight s + 1, pp_pc := PTop\<rparr>)"
| pump_final: "pp_pc s = PFinal \<Longrightarrow> pump_step s (s\<lparr>pp_pc := PEnded\<rparr>)"
| pump_complete: "0 < pp_flight s \<Longrightarrow> pump_step s (pump_callback s)"
| pump_told: "pump_step s (s\<lparr>pp_stop := True\<rparr>)"

inductive_cases pump_stepE: "pump_step s s'"

interpretation pump: window_pump "\<lambda>s. s = pump_init" pump_step pp_flight pp_outstanding "\<lambda>s. pp_pc s = PIssue" 128
proof
  show "s = pump_init \<Longrightarrow> pp_flight s = 0 \<and> pp_outstanding s = 0 \<and> pp_pc s \<noteq> PIssue" for s
    by (simp add: pump_init_def)
next
  fix s s' assume "pump_step s s'"
  then show "pp_pc s \<noteq> PIssue \<and> pp_pc s' = PIssue \<and> pp_outstanding s < 128
        \<and> pp_outstanding s' = pp_outstanding s + 1 \<and> pp_flight s' = pp_flight s
      \<or> pp_pc s = PIssue \<and> pp_pc s' \<noteq> PIssue \<and> pp_outstanding s' = pp_outstanding s \<and> pp_flight s' = pp_flight s + 1
      \<or> (pp_pc s' = PIssue) = (pp_pc s = PIssue) \<and> 0 < pp_flight s
        \<and> pp_outstanding s' = pp_outstanding s - 1 \<and> pp_flight s' = pp_flight s - 1
      \<or> (pp_pc s' = PIssue) = (pp_pc s = PIssue) \<and> pp_outstanding s' = pp_outstanding s \<and> pp_flight s' = pp_flight s"
    by (cases rule: pump_step.cases) (auto simp: pump_locked_def pump_callback_def)
qed simp

definition pump_counts :: "pump \<Rightarrow> bool" where
  "pump_counts s \<longleftrightarrow> pp_async_done s + pp_outstanding s = pp_taken s \<and> (pp_pc s \<in> {PFinal, PEnded} \<longrightarrow> pp_stop s)"

lemma pump_counts_reach: "pump.reach s \<Longrightarrow> pump_counts s"
proof (erule pump.reach_induct_inv)
  show "s = pump_init \<Longrightarrow> pump_counts s" for s by (simp add: pump_counts_def pump_init_def)
  show "pump_counts s'" if "pump_counts s" "pump_step s s'" for s s'
    using that(2,1) by (cases rule: pump_step.cases) (auto simp: pump_counts_def pump_locked_def pump_callback_def)
qed

lemma pump_may_abandon: "\<exists>s. pump.reach s \<and> pp_pc s = PEnded \<and> 0 < pp_flight s"
proof -
  let ?s = "\<lambda>pc st fl. pump_init\<lparr>pp_pc := pc, pp_stop := st, pp_outstanding := 1, pp_taken := 1, pp_flight := fl\<rparr>"
  have "pump.reach (pump_init\<lparr>pp_pc := PWait\<rparr>)"
    using pump.reach_step [OF pump.reach_init [OF refl] pump_top] by (simp add: pump_init_def)
  from pump.reach_step [OF this pump_wake] have "pump.reach (?s PIssue False 0)"
    by (simp add: pump_init_def pump_locked_def)
  from pump.reach_step [OF this pump_call] have "pump.reach (?s PTop False 1)" by (simp add: pump_init_def)
  from pump.reach_step [OF this pump_told] have "pump.reach (?s PTop True 1)" by (simp add: pump_init_def)
  from pump.reach_step [OF this pump_top] have "pump.reach (?s PFinal True 1)" by (simp add: pump_init_def)
  from pump.reach_step [OF this pump_final] have "pump.reach (?s PEnded True 1)" by (simp add: pump_init_def)
  then show ?thesis by (intro exI [of _ "?s PEnded True 1"]) (simp add: pump_init_def)
qed

text \<open>
  The pump of the soak test never has more than 128 calls outstanding, although its wait may
  end without its condition, counts every callback once, and starts no call after it was told to stop
  except one that it had already counted. It may end with calls still in flight, since its last
  wait is bounded in time.
\<close>

lemma pump_window:
  assumes "pump.reach s"
  shows "0 \<le> pp_outstanding s \<and> pp_outstanding s \<le> 128
    \<and> pp_async_done s + pp_outstanding s = pp_taken s
    \<and> (\<forall>s'. pump_step s s' \<and> pp_stop s \<longrightarrow> pp_taken s' = pp_taken s)
    \<and> (pp_pc s = PEnded \<longrightarrow> pp_stop s)
    \<and> (\<exists>s'. pump.reach s' \<and> pp_pc s' = PEnded \<and> 0 < pp_flight s')"
proof -
  have w: "0 \<le> pp_flight s" "pp_outstanding s = pp_flight s + (if pp_pc s = PIssue then 1 else 0)" "pp_outstanding s \<le> 128"
    using pump.window_bound [OF assms] by simp_all
  have c: "pump_counts s" by (rule pump_counts_reach [OF assms])
  have "pp_taken s' = pp_taken s" if "pump_step s s'" "pp_stop s" for s'
    using that by (auto simp: pump_locked_def pump_callback_def elim!: pump_stepE)
  then show ?thesis using w c pump_may_abandon by (auto simp: pump_counts_def)
qed

end
