(* ===== verification/Soak_Program.thy ===== *)
theory Soak_Program
  imports Mock_Servers Load_Window Market_Data_Runs
begin

text \<open>
  The threads of \<^verbatim>\<open>bench/soak.cpp\<close> together: four workers that make blocking calls, the pump, the
  thread that creates and tears down clients and streams, the persistent stream, and \<^verbatim>\<open>main\<close>, which
  waits, raises the stop flag, stops the stream and joins. The streams are machines of
  \<open>Market_Data_Stream\<close>, the pump is the machine of \<open>Load_Window\<close>; a step of the program is a step of
  one of its threads or of gRPC on behalf of one of the streams. A blocking call returns some result, a
  value or an error; the results of \<^verbatim>\<open>get_accounts\<close> in the four workers are recorded.

  Shown: once the flag is raised the program comes to its end, whatever the interleaving, and what
  its exit code says.
\<close>

section \<open>The program\<close>

datatype sync_pc = YTop | YAccounts | YMargin | YEnded

datatype churn_pc = CIdle | CTop | CConstructed | CStarted | CSubscribed | CStopping | CJoined | CAccounts | CCounted | CEnded

datatype soak_pc = KStart | KSubscribe | KSpawn | KWatch | KStop | KJoinStream | KJoinWorkers | KShutdown | KDone

record soak_program =
  sp_pc :: soak_pc
  sp_sync :: "sync_pc list"
  sp_counts :: sync_counts
  sp_pump :: pump
  sp_persistent :: md_sys
  sp_churn_pc :: churn_pc
  sp_churn :: md_sys
  sp_cycles :: int
  sp_answers :: "string list result list"

text \<open>The stop flag is the one that the pump reads.\<close>

abbreviation sp_stop :: "soak_program \<Rightarrow> bool" where
  "sp_stop s \<equiv> pp_stop (sp_pump s)"

definition soak_init :: soak_program where
  "soak_init =
     \<lparr>sp_pc = KStart, sp_sync = replicate 4 YTop, sp_counts = \<lparr>sy_ok = 0, sy_err = 0\<rparr>, sp_pump = pump_init,
      sp_persistent = fresh_sys candle_handlers True fast_retry, sp_churn_pc = CIdle,
      sp_churn = fresh_sys (\<lambda>_. False) False fast_retry, sp_cycles = 0, sp_answers = []\<rparr>"

datatype soak_actor = AMain | ASync | APump | AChurn | APersistent md_actor | AChurnStream md_actor

inductive soak_step :: "soak_actor \<Rightarrow> soak_program \<Rightarrow> soak_program \<Rightarrow> bool" where
  y_top: "i < length (sp_sync s) \<Longrightarrow> sp_sync s ! i = YTop \<Longrightarrow>
    soak_step ASync s (s\<lparr>sp_sync := (sp_sync s)[i := if sp_stop s then YEnded else YAccounts]\<rparr>)"
| y_accounts: "i < length (sp_sync s) \<Longrightarrow> sp_sync s ! i = YAccounts \<Longrightarrow>
    soak_step ASync s (s\<lparr>sp_counts := soak_accounts res (sp_counts s), sp_answers := res # sp_answers s,
      sp_sync := (sp_sync s)[i := YMargin]\<rparr>)"
| y_margin: "i < length (sp_sync s) \<Longrightarrow> sp_sync s ! i = YMargin \<Longrightarrow>
    soak_step ASync s (s\<lparr>sp_counts := soak_margin res (sp_counts s), sp_sync := (sp_sync s)[i := YTop]\<rparr>)"
| p_step: "pump_step (sp_pump s) p \<Longrightarrow> pp_stop p = sp_stop s \<Longrightarrow> p \<noteq> sp_pump s \<Longrightarrow>
    soak_step APump s (s\<lparr>sp_pump := p\<rparr>)"
| c_end: "sp_churn_pc s = CTop \<Longrightarrow> sp_stop s \<Longrightarrow> soak_step AChurn s (s\<lparr>sp_churn_pc := CEnded\<rparr>)"
| c_construct: "sp_churn_pc s = CTop \<Longrightarrow> \<not> sp_stop s \<Longrightarrow>
    soak_step AChurn s (s\<lparr>sp_churn := fresh_sys (\<lambda>_. False) False fast_retry, sp_churn_pc := CConstructed\<rparr>)"
| c_start: "sp_churn_pc s = CConstructed \<Longrightarrow>
    soak_step AChurn s (s\<lparr>sp_churn := sys_start (sp_churn s), sp_churn_pc := CStarted\<rparr>)"
| c_subscribe: "sp_churn_pc s = CStarted \<Longrightarrow>
    soak_step AChurn s (s\<lparr>sp_churn := sys_send (subscribe_last_prices [''uid'']) (sp_churn s), sp_churn_pc := CSubscribed\<rparr>)"
| c_stop: "sp_churn_pc s = CSubscribed \<Longrightarrow>
    soak_step AChurn s (s\<lparr>sp_churn := sys_stop (sp_churn s), sp_churn_pc := CStopping\<rparr>)"
| c_join: "sp_churn_pc s = CStopping \<Longrightarrow> my_pc (sp_churn s) = MFinished \<Longrightarrow> soak_step AChurn s (s\<lparr>sp_churn_pc := CJoined\<rparr>)"
| c_destroy: "sp_churn_pc s = CJoined \<Longrightarrow>
    soak_step AChurn s (s\<lparr>sp_churn := sys_stop (sp_churn s), sp_churn_pc := CAccounts\<rparr>)"
| c_count: "sp_churn_pc s = CAccounts \<Longrightarrow>
    soak_step AChurn s (s\<lparr>sp_cycles := sp_cycles s + 1, sp_churn_pc := CCounted\<rparr>)"
| c_again: "sp_churn_pc s = CCounted \<Longrightarrow> soak_step AChurn s (s\<lparr>sp_churn_pc := CTop\<rparr>)"
| d_step: "a \<noteq> MUser \<Longrightarrow> md_step a (sp_churn s) y \<Longrightarrow> soak_step (AChurnStream a) s (s\<lparr>sp_churn := y\<rparr>)"
| s_step: "a \<noteq> MUser \<Longrightarrow> md_step a (sp_persistent s) y \<Longrightarrow> soak_step (APersistent a) s (s\<lparr>sp_persistent := y\<rparr>)"
| k_start: "sp_pc s = KStart \<Longrightarrow>
    soak_step AMain s (s\<lparr>sp_persistent := sys_start (sp_persistent s), sp_pc := KSubscribe\<rparr>)"
| k_subscribe: "sp_pc s = KSubscribe \<Longrightarrow>
    soak_step AMain s (s\<lparr>sp_persistent := sys_send (subscribe_candles_default [''uid''])
      (sp_persistent s), sp_pc := KSpawn\<rparr>)"
| k_spawn: "sp_pc s = KSpawn \<Longrightarrow> soak_step AMain s (s\<lparr>sp_churn_pc := CTop, sp_pc := KWatch\<rparr>)"
| k_flag: "sp_pc s = KWatch \<Longrightarrow> soak_step AMain s (s\<lparr>sp_pump := (sp_pump s)\<lparr>pp_stop := True\<rparr>, sp_pc := KStop\<rparr>)"
| k_stop: "sp_pc s = KStop \<Longrightarrow>
    soak_step AMain s (s\<lparr>sp_persistent := sys_stop (sp_persistent s), sp_pc := KJoinStream\<rparr>)"
| k_join_stream: "sp_pc s = KJoinStream \<Longrightarrow> my_pc (sp_persistent s) = MFinished \<Longrightarrow>
    soak_step AMain s (s\<lparr>sp_pc := KJoinWorkers\<rparr>)"
| k_join: "sp_pc s = KJoinWorkers \<Longrightarrow> set (sp_sync s) \<subseteq> {YEnded} \<Longrightarrow> pp_pc (sp_pump s) = PEnded \<Longrightarrow>
    sp_churn_pc s = CEnded \<Longrightarrow> soak_step AMain s (s\<lparr>sp_pc := KShutdown\<rparr>)"
| k_shutdown: "sp_pc s = KShutdown \<Longrightarrow> soak_step AMain s (s\<lparr>sp_pc := KDone\<rparr>)"

inductive_cases soak_stepE: "soak_step a s s'"

inductive soak_reach :: "soak_program \<Rightarrow> bool" where
  soak_reach_init: "soak_reach soak_init"
| soak_reach_step: "soak_reach s \<Longrightarrow> soak_step a s s' \<Longrightarrow> soak_reach s'"

text \<open>What the handlers of the persistent stream have counted, and the exit code of \<^verbatim>\<open>main\<close>.\<close>

definition stream_counts :: "md_sys \<Rightarrow> soak_stream" where
  "stream_counts y = fold (\<lambda>(st, e). soak_on_state st) (my_log y)
     \<lparr>sk_candles = int (length (filter (\<lambda>h. h = on_candle) (my_calls y))), sk_reconnects = 0\<rparr>"

definition soak_main :: "int option \<Rightarrow> soak_program \<Rightarrow> int" where
  "soak_main server s = (case server of
     None \<Rightarrow> 1
   | Some port \<Rightarrow> if port = 0 then 1 else soak_exit (sp_counts s) (stream_counts (sp_persistent s)) (sp_cycles s))"

text \<open>The length of the run, from the command line, and the lines printed at the end; \<open>conns\<close> is the server's counter of streams.\<close>

definition soak_seconds :: "string list \<Rightarrow> int cpp" where
  "soak_seconds argv = (if 1 < length argv then atoi (argv ! 1) else Inr 60)"

definition show_signed :: "int \<Rightarrow> string" where
  "show_signed n = (if 0 \<le> n then ''+'' else []) @ show_int n"

definition soak_report :: "soak_program \<Rightarrow> int \<Rightarrow> int \<Rightarrow> int \<Rightarrow> int \<Rightarrow> string list cpp" where
  "soak_report s conns rss_start rss_mid_max rss_end =
     (let sk = stream_counts (sp_persistent s) in
      cbind (checked 64 (rss_end - rss_start)) (\<lambda>delta. Inr
        [''soak done: sync_ok='' @ show_int (sy_ok (sp_counts s)) @ '' sync_err='' @ show_int (sy_err (sp_counts s))
           @ '' async='' @ show_int (pp_async_done (sp_pump s)) @ '' candles='' @ show_int (sk_candles sk)
           @ '' reconnects='' @ show_int (sk_reconnects sk) @ '' churn='' @ show_int (sp_cycles s)
           @ '' server_conns='' @ show_int conns,
         ''RSS: start '' @ show_int rss_start @ '' KB, peak '' @ show_int rss_mid_max @ '' KB, end '' @ show_int rss_end
           @ '' KB (delta '' @ show_signed delta @ '' KB)'']))"

section \<open>The invariant\<close>

definition past_flag :: "soak_pc \<Rightarrow> bool" where
  "past_flag pc \<longleftrightarrow> pc \<in> {KStop, KJoinStream, KJoinWorkers, KShutdown, KDone}"

text \<open>The error counter counts the failures among the results of \<^verbatim>\<open>get_accounts\<close>.\<close>

definition soak_counted :: "soak_program \<Rightarrow> bool" where
  "soak_counted s \<longleftrightarrow> sy_err (sp_counts s) = int (length (filter (\<lambda>r. \<not> result_ok r) (sp_answers s)))"

lemma soak_counted_view [simp]:
  "soak_counted (s\<lparr>sp_pc := a\<rparr>) = soak_counted s" "soak_counted (s\<lparr>sp_sync := b\<rparr>) = soak_counted s"
  "soak_counted (s\<lparr>sp_pump := c\<rparr>) = soak_counted s" "soak_counted (s\<lparr>sp_persistent := d\<rparr>) = soak_counted s"
  "soak_counted (s\<lparr>sp_churn_pc := e\<rparr>) = soak_counted s" "soak_counted (s\<lparr>sp_churn := f\<rparr>) = soak_counted s"
  "soak_counted (s\<lparr>sp_cycles := g\<rparr>) = soak_counted s"
  by (simp_all add: soak_counted_def)

definition soak_inv :: "soak_program \<Rightarrow> bool" where
  "soak_inv s \<longleftrightarrow>
     soak_counted s \<and> 0 \<le> sp_cycles s \<and> pump.reach (sp_pump s)
     \<and> (sp_stop s \<longleftrightarrow> past_flag (sp_pc s))
     \<and> md.reach (sp_persistent s)
     \<and> (if sp_pc s = KStart then sp_persistent s = fresh_sys candle_handlers True fast_retry
        else my_pc (sp_persistent s) \<noteq> MDetached)
     \<and> (sp_pc s \<in> {KJoinStream, KJoinWorkers, KShutdown, KDone} \<longrightarrow> md_stopping (my_obj (sp_persistent s)))
     \<and> (sp_churn_pc s = CIdle \<longleftrightarrow> sp_pc s \<in> {KStart, KSubscribe, KSpawn})
     \<and> md.reach (sp_churn s)
     \<and> (sp_churn_pc s = CConstructed \<longrightarrow> sp_churn s = fresh_sys (\<lambda>_. False) False fast_retry)
     \<and> (sp_churn_pc s \<in> {CStarted, CSubscribed, CStopping} \<longrightarrow> my_pc (sp_churn s) \<noteq> MDetached)
     \<and> (sp_churn_pc s = CStopping \<longrightarrow> md_stopping (my_obj (sp_churn s)))"

lemma soak_inv_init: "soak_inv soak_init"
proof -
  have "pump.reach pump_init" by (rule pump.reach_init) (rule refl)
  moreover have "\<not> pp_stop pump_init" by (simp add: pump_init_def)
  ultimately show ?thesis by (simp add: soak_inv_def soak_init_def soak_counted_def past_flag_def fresh_reach)
qed

lemma soak_invD:
  assumes "soak_inv s"
  shows "pump.reach (sp_pump s)" "md.reach (sp_persistent s)" "md.reach (sp_churn s)"
    and "sp_stop s \<longleftrightarrow> past_flag (sp_pc s)"
    and "sp_pc s = KStart \<Longrightarrow> sp_persistent s = fresh_sys candle_handlers True fast_retry"
    and "sp_pc s \<noteq> KStart \<Longrightarrow> my_pc (sp_persistent s) \<noteq> MDetached"
    and "sp_churn_pc s = CConstructed \<Longrightarrow> sp_churn s = fresh_sys (\<lambda>_. False) False fast_retry"
    and "sp_churn_pc s = CIdle \<Longrightarrow> \<not> past_flag (sp_pc s)"
    and "sp_churn_pc s = CStopping \<Longrightarrow> md_stopping (my_obj (sp_churn s)) \<and> my_pc (sp_churn s) \<noteq> MDetached"
    and "sp_pc s = KJoinStream \<Longrightarrow> md_stopping (my_obj (sp_persistent s))"
  using assms by (auto simp: soak_inv_def past_flag_def)

lemma soak_inv_stream:
  assumes "soak_inv s" "b \<noteq> MUser" "md_step b y y'"
  shows "y = sp_churn s \<Longrightarrow> soak_inv (s\<lparr>sp_churn := y'\<rparr>)"
    and "y = sp_persistent s \<Longrightarrow> soak_inv (s\<lparr>sp_persistent := y'\<rparr>)"
proof -
  note keep = md_step_keeps_stopping [OF assms(3,2)] md_step_attached [OF assms(3)]
  { assume y: "y = sp_churn s"
    have "md.reach y'" using md.reach_step [OF soak_invD(3) [OF assms(1)]] assms(3) y by blast
    moreover have "sp_churn_pc s \<noteq> CConstructed"
      using soak_invD(7) [OF assms(1)] fresh_no_step [OF assms(2)] assms(3) y by metis
    ultimately show "soak_inv (s\<lparr>sp_churn := y'\<rparr>)" using assms(1) keep y by (simp add: soak_inv_def) }
  { assume y: "y = sp_persistent s"
    have "md.reach y'" using md.reach_step [OF soak_invD(2) [OF assms(1)]] assms(3) y by blast
    moreover have "sp_pc s \<noteq> KStart"
      using soak_invD(5) [OF assms(1)] fresh_no_step [OF assms(2)] assms(3) y by metis
    ultimately show "soak_inv (s\<lparr>sp_persistent := y'\<rparr>)" using assms(1) keep y by (simp add: soak_inv_def) }
qed

lemma soak_inv_step:
  assumes inv: "soak_inv s" and step: "soak_step a s s'"
  shows "soak_inv s'"
  using step
proof cases
  case (p_step p)
  have "pump.reach p" using pump.reach_step [OF soak_invD(1) [OF inv] p_step(3)] .
  then show ?thesis using inv p_step by (simp add: soak_inv_def)
next
  case k_flag
  have "pump.reach ((sp_pump s)\<lparr>pp_stop := True\<rparr>)"
    using pump.reach_step [OF soak_invD(1) [OF inv] pump_told] .
  then show ?thesis using inv k_flag by (simp add: soak_inv_def past_flag_def)
next
  case (d_step b y)
  then show ?thesis using soak_inv_stream(1) [OF inv] by blast
next
  case (s_step b y)
  then show ?thesis using soak_inv_stream(2) [OF inv] by blast
next
  case (y_accounts i res)
  then show ?thesis using inv by (simp add: soak_inv_def soak_counted_def soak_accounts_def)
next
  case (y_margin i res)
  then show ?thesis using inv by (cases res) (simp_all add: soak_inv_def soak_counted_def soak_margin_def)
next
  case c_start
  then show ?thesis using inv started_fresh by (simp add: soak_inv_def)
next
  case k_start
  then show ?thesis using inv started_fresh by (simp add: soak_inv_def past_flag_def)
qed (use inv in \<open>simp_all add: soak_inv_def past_flag_def fresh_reach
      sys_send_reach sys_stop_reach\<close>)

lemma soak_reach_inv: "soak_reach s \<Longrightarrow> soak_inv s"
  by (induction rule: soak_reach.induct) (auto intro: soak_inv_init soak_inv_step)

section \<open>The way to the end\<close>

fun sync_rank :: "sync_pc \<Rightarrow> nat" where
  "sync_rank YEnded = 0"
| "sync_rank YTop = 1"
| "sync_rank YMargin = 2"
| "sync_rank YAccounts = 3"

fun pump_pc_rank :: "pump_pc \<Rightarrow> nat" where
  "pump_pc_rank PEnded = 0"
| "pump_pc_rank PFinal = 1"
| "pump_pc_rank PTop = 2"
| "pump_pc_rank PWait = 2"
| "pump_pc_rank PIssue = 4"

definition pump_rank :: "pump \<Rightarrow> nat" where
  "pump_rank p = pump_pc_rank (pp_pc p) + nat (pp_flight p)"

fun churn_rank :: "churn_pc \<Rightarrow> nat" where
  "churn_rank CEnded = 0"
| "churn_rank CIdle = 0"
| "churn_rank CTop = 1"
| "churn_rank CCounted = 2"
| "churn_rank CAccounts = 3"
| "churn_rank CJoined = 4"
| "churn_rank CStopping = 5"
| "churn_rank CSubscribed = 6"
| "churn_rank CStarted = 7"
| "churn_rank CConstructed = 8"

fun main_rank :: "soak_pc \<Rightarrow> nat" where
  "main_rank KDone = 0"
| "main_rank KShutdown = 1"
| "main_rank KJoinWorkers = 2"
| "main_rank KJoinStream = 3"
| "main_rank KStop = 4"
| "main_rank _ = 5"

text \<open>A stream counts once it has been told to stop; before, it may reconnect for ever.\<close>

definition stream_rank :: "md_sys \<Rightarrow> nat" where
  "stream_rank y = (if md_stopping (my_obj y) then md_rank y else 0)"

definition soak_rest :: "soak_program \<Rightarrow> nat" where
  "soak_rest s = sum_list (map sync_rank (sp_sync s)) + pump_rank (sp_pump s) + stream_rank (sp_persistent s)
     + stream_rank (sp_churn s)"

definition soak_closer :: "(soak_program \<times> soak_program) set" where
  "soak_closer = inv_image (less_than <*lex*> less_than <*lex*> less_than)
     (\<lambda>s. (main_rank (sp_pc s), churn_rank (sp_churn_pc s), soak_rest s))"

text \<open>
  The steps that are bound to come after the flag is raised: those of the program's threads, whose
  blocking calls return, and those that a stream which has been told to stop is bound to take. Not among them:
  messages that arrive, callbacks of asynchronous calls, and whatever a stream does before it is stopped.
\<close>

definition soak_winding :: "soak_program \<Rightarrow> soak_program \<Rightarrow> bool" where
  "soak_winding s s' \<longleftrightarrow> (\<exists>a. soak_step a s s' \<and>
     (case a of
        APersistent b \<Rightarrow> md_stopping (my_obj (sp_persistent s)) \<and> md_winding (sp_persistent s) (sp_persistent s')
      | AChurnStream b \<Rightarrow> md_stopping (my_obj (sp_churn s)) \<and> md_winding (sp_churn s) (sp_churn s')
      | APump \<Rightarrow> pp_pc (sp_pump s') \<noteq> pp_pc (sp_pump s)
      | _ \<Rightarrow> True))"

lemma pump_winding:
  assumes "pump.reach p" "pp_stop p" "pump_step p p'" "p' \<noteq> p"
  shows "pump_rank p' < pump_rank p"
proof -
  have "0 \<le> pp_flight p" using pump.window_bound [OF assms(1)] by simp
  with assms(3) show ?thesis using assms(2,4)
    by (cases rule: pump_step.cases) (auto simp: pump_rank_def pump_locked_def pump_callback_def)
qed

lemma pump_can_step:
  assumes "pp_stop p" "pp_pc p \<noteq> PEnded"
  shows "\<exists>p'. pump_step p p' \<and> pp_stop p' = pp_stop p \<and> pp_pc p' \<noteq> pp_pc p"
proof (cases "pp_pc p")
  case PTop
  then show ?thesis using pump_top [of p] assms by fastforce
next
  case PWait
  then show ?thesis using pump_wake [of p] assms by (fastforce simp: pump_locked_def)
next
  case PIssue
  then show ?thesis using pump_call [of p] by fastforce
next
  case PFinal
  then show ?thesis using pump_final [of p] by fastforce
qed (use assms in simp)

lemma sum_sync_update:
  "i < length xs \<Longrightarrow> sync_rank x < sync_rank (xs ! i) \<Longrightarrow>
   sum_list (map sync_rank (xs[i := x])) < sum_list (map sync_rank xs)"
proof (induction xs arbitrary: i)
  case (Cons a xs)
  then show ?case by (cases i) auto
qed simp

text \<open>
  No step at all leads away from the end. A step of a stream keeps the flag of that stream, and a
  stream that has been told to stop comes closer to its end or stays where it is.
\<close>

definition soak_key :: "soak_program \<Rightarrow> nat \<times> nat \<times> nat" where
  "soak_key s = (main_rank (sp_pc s), churn_rank (sp_churn_pc s), soak_rest s)"

lemma soak_closer_key: "(s', s) \<in> soak_closer \<longleftrightarrow> (soak_key s', soak_key s) \<in> less_than <*lex*> less_than <*lex*> less_than"
  by (simp add: soak_closer_def soak_key_def)

lemma stream_any_step:
  assumes "md.reach y" "md_step b y y'" "b \<noteq> MUser"
  shows "stream_rank y' \<le> stream_rank y"
    and "md_stopping (my_obj y) \<Longrightarrow> md_winding y y' \<Longrightarrow> stream_rank y' < stream_rank y"
proof -
  have c: "md_control y" using md.reach_inv [OF assms(1)] by (simp add: md_inv_def)
  note keep = md_step_keeps_stopping [OF assms(2,3)]
  show "stream_rank y' \<le> stream_rank y"
  proof (cases "md_stopping (my_obj y)")
    case True
    then have "md_rank y' \<le> md_rank y"
      using stopping_md_step [OF c True assms(2)] md_delivery_rank [of y y'] assms(2,3) by (cases b) auto
    then show ?thesis using keep by (simp add: stream_rank_def)
  qed (use keep in \<open>simp add: stream_rank_def\<close>)
  show "stream_rank y' < stream_rank y" if "md_stopping (my_obj y)" "md_winding y y'"
    using md_stop.step_closer [OF assms(1) that] that(1) by (simp add: stream_rank_def)
qed

lemma soak_stream_step:
  assumes inv: "soak_inv s" and step: "b \<noteq> MUser" "md_step b y y'"
    and s': "y = sp_churn s \<and> s' = s\<lparr>sp_churn := y'\<rparr> \<or> y = sp_persistent s \<and> s' = s\<lparr>sp_persistent := y'\<rparr>"
  shows "(s', s) \<in> soak_closer \<or> soak_key s' = soak_key s"
    and "md_stopping (my_obj y) \<Longrightarrow> md_winding y y' \<Longrightarrow> (s', s) \<in> soak_closer"
proof -
  have "md.reach y" using s' soak_invD(2,3) [OF inv] by blast
  note rank = stream_any_step [OF this step(2,1)]
  then show "(s', s) \<in> soak_closer \<or> soak_key s' = soak_key s"
    using s' by (auto simp: soak_closer_def soak_key_def soak_rest_def)
  show "(s', s) \<in> soak_closer" if "md_stopping (my_obj y)" "md_winding y y'"
    using rank(2) [OF that] s' by (auto simp: soak_closer_def soak_rest_def)
qed

lemma soak_any_step:
  assumes inv: "soak_inv s" and st: "sp_stop s" and step: "soak_step a s s'"
  shows "sp_stop s' \<and> ((s', s) \<in> soak_closer \<or> soak_key s' = soak_key s \<and> (\<exists>b. a \<in> {APersistent b, AChurnStream b}))"
proof -
  have pc: "past_flag (sp_pc s)" using soak_invD(4) [OF inv] st by simp
  from step show ?thesis
  proof cases
    case (p_step p)
    then have "pump_rank p < pump_rank (sp_pump s)" using pump_winding [OF soak_invD(1) [OF inv] st] by blast
    then show ?thesis using p_step st by (simp add: soak_closer_def soak_rest_def)
  next
    case (d_step b y)
    then show ?thesis using soak_stream_step(1) [OF inv d_step(3,4), of s'] st by auto
  next
    case (s_step b y)
    then show ?thesis using soak_stream_step(1) [OF inv s_step(3,4), of s'] st by auto
  qed (use st pc in \<open>auto simp: soak_closer_def soak_rest_def past_flag_def intro!: sum_sync_update\<close>)
qed

lemma soak_step_closer:
  assumes inv: "soak_inv s" and st: "sp_stop s" and w: "soak_winding s s'"
  shows "sp_stop s' \<and> (s', s) \<in> soak_closer"
proof -
  from w obtain a where step: "soak_step a s s'"
    and a: "case a of APersistent b \<Rightarrow> md_stopping (my_obj (sp_persistent s)) \<and> md_winding (sp_persistent s) (sp_persistent s')
      | AChurnStream b \<Rightarrow> md_stopping (my_obj (sp_churn s)) \<and> md_winding (sp_churn s) (sp_churn s')
      | APump \<Rightarrow> pp_pc (sp_pump s') \<noteq> pp_pc (sp_pump s) | _ \<Rightarrow> True"
    by (auto simp: soak_winding_def)
  note any = soak_any_step [OF inv st step]
  show ?thesis
  proof (cases a)
    case (APersistent b)
    with step obtain y where "b \<noteq> MUser" "md_step b (sp_persistent s) y" "s' = s\<lparr>sp_persistent := y\<rparr>"
      by (auto elim: soak_stepE)
    then show ?thesis using soak_stream_step(2) [OF inv, of b "sp_persistent s" y s'] a APersistent any by simp
  next
    case (AChurnStream b)
    with step obtain y where "b \<noteq> MUser" "md_step b (sp_churn s) y" "s' = s\<lparr>sp_churn := y\<rparr>"
      by (auto elim: soak_stepE)
    then show ?thesis using soak_stream_step(2) [OF inv, of b "sp_churn s" y s'] a AChurnStream any by simp
  qed (use any in auto)
qed

lemma stream_can_wind:
  assumes "md.reach y" "md_stopping (my_obj y)" "my_pc y \<notin> {MDetached, MFinished}"
  shows "\<exists>b y'. md_step b y y' \<and> b \<noteq> MUser \<and> md_winding y y'"
  using md_stop.can_step [OF assms] unfolding md_winding_def by blast

lemma sync_can_step:
  assumes "\<not> set (sp_sync s) \<subseteq> {YEnded}"
  shows "\<exists>s'. soak_step ASync s s'"
proof -
  from assms obtain x where "x \<in> set (sp_sync s)" "x \<noteq> YEnded" by auto
  then obtain i where i: "i < length (sp_sync s)" "sp_sync s ! i \<noteq> YEnded" by (metis in_set_conv_nth)
  then show ?thesis
    using y_top [OF i(1)] y_accounts [OF i(1)] y_margin [OF i(1)] by (cases "sp_sync s ! i") blast+
qed

lemma churn_can_wind:
  assumes inv: "soak_inv s" and st: "sp_stop s" and pc: "sp_churn_pc s \<noteq> CEnded"
  shows "\<exists>s'. soak_winding s s'"
proof -
  have idle: "sp_churn_pc s \<noteq> CIdle" using soak_invD(4,8) [OF inv] st by blast
  show ?thesis
  proof (cases "sp_churn_pc s = CStopping \<and> my_pc (sp_churn s) \<noteq> MFinished")
    case True
    then have "md_stopping (my_obj (sp_churn s))" "my_pc (sp_churn s) \<notin> {MDetached, MFinished}"
      using soak_invD(9) [OF inv] by auto
    with stream_can_wind [OF soak_invD(3) [OF inv]] obtain b y where
      y: "md_step b (sp_churn s) y" "b \<noteq> MUser" "md_winding (sp_churn s) y" by blast
    then show ?thesis
      using d_step [OF y(2,1)] \<open>md_stopping (my_obj (sp_churn s))\<close> unfolding soak_winding_def
      by (intro exI [of _ "s\<lparr>sp_churn := y\<rparr>"] exI [of _ "AChurnStream b"]) simp
  next
    case False
    then have "\<exists>s'. soak_step AChurn s s'"
      using idle pc st
      by (cases "sp_churn_pc s") (blast intro: c_end c_start c_subscribe c_stop c_join c_destroy c_count c_again)+
    then show ?thesis unfolding soak_winding_def by fastforce
  qed
qed

lemma soak_can_step:
  assumes inv: "soak_inv s" and st: "sp_stop s" and pc: "sp_pc s \<noteq> KDone"
  shows "\<exists>s'. soak_winding s s'"
proof -
  have main: "\<exists>s'. soak_winding s s'" if "soak_step AMain s t" for t
    using that unfolding soak_winding_def by fastforce
  have "past_flag (sp_pc s)" using soak_invD(4) [OF inv] st by simp
  then consider "sp_pc s = KStop" | "sp_pc s = KJoinStream" | "sp_pc s = KJoinWorkers" | "sp_pc s = KShutdown"
    using pc by (auto simp: past_flag_def)
  then show ?thesis
  proof cases
    case 1
    then show ?thesis by (rule main [OF k_stop])
  next
    case 2
    show ?thesis
    proof (cases "my_pc (sp_persistent s) = MFinished")
      case True
      then show ?thesis by (rule main [OF k_join_stream [OF 2]])
    next
      case False
      have "md_stopping (my_obj (sp_persistent s))" using soak_invD(10) [OF inv] 2 .
      moreover have "my_pc (sp_persistent s) \<notin> {MDetached, MFinished}" using soak_invD(6) [OF inv] False 2 by simp
      moreover from calculation obtain b y where
        y: "md_step b (sp_persistent s) y" "b \<noteq> MUser" "md_winding (sp_persistent s) y"
        using stream_can_wind [OF soak_invD(2) [OF inv]] by blast
      ultimately show ?thesis
        using s_step [OF y(2,1)] unfolding soak_winding_def
        by (intro exI [of _ "s\<lparr>sp_persistent := y\<rparr>"] exI [of _ "APersistent b"]) simp
    qed
  next
    case 3
    consider "set (sp_sync s) \<subseteq> {YEnded}" "pp_pc (sp_pump s) = PEnded" "sp_churn_pc s = CEnded"
      | "\<not> set (sp_sync s) \<subseteq> {YEnded}" | "pp_pc (sp_pump s) \<noteq> PEnded" | "sp_churn_pc s \<noteq> CEnded" by blast
    then show ?thesis
    proof cases
      case 1
      then show ?thesis by (rule main [OF k_join [OF 3]])
    next
      case 2
      then show ?thesis using sync_can_step unfolding soak_winding_def by fastforce
    next
      case 3
      from pump_can_step [OF st 3] obtain p where
        p: "pump_step (sp_pump s) p" "pp_stop p = sp_stop s" "pp_pc p \<noteq> pp_pc (sp_pump s)" by blast
      then have "soak_step APump s (s\<lparr>sp_pump := p\<rparr>)" by (intro p_step) auto
      with p(3) show ?thesis unfolding soak_winding_def
        by (intro exI [of _ "s\<lparr>sp_pump := p\<rparr>"] exI [of _ APump]) simp
    next
      case 4
      then show ?thesis by (rule churn_can_wind [OF inv st])
    qed
  next
    case 4
    then show ?thesis by (rule main [OF k_shutdown])
  qed
qed

text \<open>A step of the program, whoever takes it.\<close>

definition soak_any :: "soak_program \<Rightarrow> soak_program \<Rightarrow> bool" where
  "soak_any s s' \<longleftrightarrow> (\<exists>a. soak_step a s s')"

lemma soak_any_keeps:
  assumes "soak_reach s" "sp_stop s" "soak_any s s'"
  shows "soak_reach s' \<and> sp_stop s' \<and> (\<forall>t. (t, s') \<in> soak_closer \<longrightarrow> (t, s) \<in> soak_closer)"
proof -
  from assms(3) obtain a where a: "soak_step a s s'" by (auto simp: soak_any_def)
  have "trans soak_closer" unfolding soak_closer_def by (intro trans_inv_image trans_lex_prod trans_less_than)
  then have "\<forall>t. (t, s') \<in> soak_closer \<longrightarrow> (t, s) \<in> soak_closer"
    using soak_any_step [OF soak_reach_inv [OF assms(1)] assms(2) a] soak_closer_key by (metis transD)
  then show ?thesis
    using soak_any_step [OF soak_reach_inv [OF assms(1)] assms(2) a] soak_reach_step [OF assms(1) a] by blast
qed


interpretation soak: stoppable_among soak_reach soak_winding sp_stop "\<lambda>s. sp_pc s = KDone" soak_closer soak_any
proof
  show "soak_reach s'" if "soak_reach s" "soak_any s s'" for s s'
    using that soak_reach_step by (auto simp: soak_any_def)
  show "sp_stop s' \<and> (\<forall>t. (t, s') \<in> soak_closer \<longrightarrow> (t, s) \<in> soak_closer)"
    if "soak_reach s" "sp_stop s" "sp_pc s \<noteq> KDone" "soak_any s s'" for s s'
    using soak_any_keeps that by blast
  show "soak_reach s'" if "soak_reach s" "soak_winding s s'" for s s'
    using that soak_reach_step by (auto simp: soak_winding_def)
  show "wf soak_closer" by (simp add: soak_closer_def wf_inv_image wf_lex_prod)
  show "sp_stop s' \<and> (s', s) \<in> soak_closer" if "soak_reach s" "sp_stop s" "soak_winding s s'" for s s'
    using soak_step_closer [OF soak_reach_inv [OF that(1)] that(2,3)] .
  show "\<exists>s'. soak_winding s s'" if "soak_reach s" "sp_stop s" "sp_pc s \<noteq> KDone" for s
    using soak_can_step [OF soak_reach_inv [OF that(1)] that(2,3)] .
qed

section \<open>The exit code\<close>

lemma fold_on_state:
  "fold (\<lambda>(st, e). soak_on_state st) log k =
     k\<lparr>sk_reconnects := sk_reconnects k + int (length (filter (\<lambda>(st, e). st = disconnected) log))\<rparr>"
  by (induction log arbitrary: k) (auto simp: soak_on_state_def)

lemma soak_main_code:
  assumes "soak_inv s" "port \<noteq> 0"
  shows "soak_main (Some port) s =
    (if (\<forall>r\<in>set (sp_answers s). result_ok r) \<and> on_candle \<in> set (my_calls (sp_persistent s))
        \<and> disconnected \<in> fst ` set (my_log (sp_persistent s)) \<and> 0 < sp_cycles s then 0 else 2)"
proof -
  have "0 < length (filter (\<lambda>h. h = on_candle) cs) \<longleftrightarrow> on_candle \<in> set cs" for cs by (auto simp: filter_empty_conv)
  moreover have "0 < length (filter (\<lambda>(st, e). st = disconnected) log) \<longleftrightarrow> disconnected \<in> fst ` set log"
    for log :: "(stream_state \<times> error option) list" by (force simp: filter_empty_conv)
  moreover have "sy_err (sp_counts s) = 0 \<longleftrightarrow> (\<forall>r\<in>set (sp_answers s). result_ok r)"
    using assms(1) by (simp add: soak_inv_def soak_counted_def filter_empty_conv)
  ultimately show ?thesis
    using assms(2) by (simp add: soak_main_def soak_exit_def stream_counts_def fold_on_state Let_def)
qed

text \<open>
  What it prints is defined whenever the status file has plausible sizes or cannot be read, and shows
  how many of the blocking calls that should succeed have failed.
\<close>

lemma soak_report_printed:
  assumes "soak_reach s" "- 1 \<le> rss_start" "rss_start < 2 ^ 62" "- 1 \<le> rss_end" "rss_end < 2 ^ 62"
  shows "\<exists>post rss. soak_report s conns rss_start rss_mid_max rss_end
    = Inr [''soak done: sync_ok='' @ show_int (sy_ok (sp_counts s)) @ '' sync_err=''
        @ show_int (int (length (filter (\<lambda>r. \<not> result_ok r) (sp_answers s)))) @ '' async='' @ post, rss]"
proof -
  have "sy_err (sp_counts s) = int (length (filter (\<lambda>r. \<not> result_ok r) (sp_answers s)))"
    using soak_reach_inv [OF assms(1)] by (simp add: soak_inv_def soak_counted_def)
  moreover have "fits 64 (rss_end - rss_start)" using assms(2-5) by (simp add: fits64_iff)
  then have "checked 64 (rss_end - rss_start) = Inr (rss_end - rss_start)" by (simp add: checked_fits)
  ultimately show ?thesis by (simp add: soak_report_def Let_def)
qed


section \<open>A lost subscription\<close>

text \<open>
  The persistent stream after \<^verbatim>\<open>main\<close> has subscribed between the copy of the registry and the
  publication of the reactor: connected, registered, nothing written.
\<close>

definition candle_request :: md_request where
  "candle_request = subscribe_candles_default [''uid'']"

definition lost_stream :: md_sys where
  "lost_stream = lost_sys candle_handlers True fast_retry candle_request"

definition watching :: "md_sys \<Rightarrow> soak_program" where
  "watching y = soak_init\<lparr>sp_pc := KWatch, sp_churn_pc := CTop, sp_persistent := y\<rparr>"

lemma persistent_run:
  assumes "(md_step MWorker)\<^sup>*\<^sup>* y y'" "soak_reach (s\<lparr>sp_persistent := y\<rparr>)"
  shows "soak_reach (s\<lparr>sp_persistent := y'\<rparr>)"
  using assms
proof (induction rule: rtranclp_induct)
  case (step y z)
  then show ?case using soak_reach_step [OF step.IH [OF step.prems] s_step [of MWorker _ z]] by simp
qed

lemma lost_stream_reach: "soak_reach (watching lost_stream)"
proof -
  let ?y = "fresh_sys candle_handlers True fast_retry"
  let ?s = "\<lambda>pc. soak_init\<lparr>sp_pc := pc\<rparr>"
  have r: "action_of candle_request = Subscribe" by (simp add: candle_request_def subscribe_candles_default_def convenience_requests)
  have "soak_step AMain soak_init ((?s KSubscribe)\<lparr>sp_persistent := sys_start ?y\<rparr>)"
    using k_start [of soak_init] by (simp add: soak_init_def)
  from persistent_run [OF copied_run soak_reach_step [OF soak_reach_init this]]
  have 1: "soak_reach ((?s KSubscribe)\<lparr>sp_persistent := copied_sys candle_handlers True fast_retry\<rparr>)" .
  have "soak_step AMain ((?s KSubscribe)\<lparr>sp_persistent := copied_sys candle_handlers True fast_retry\<rparr>)
      ((?s KSpawn)\<lparr>sp_persistent := sys_send candle_request (copied_sys candle_handlers True fast_retry)\<rparr>)"
    using k_subscribe [of "(?s KSubscribe)\<lparr>sp_persistent := copied_sys candle_handlers True fast_retry\<rparr>"]
    by (simp add: soak_init_def candle_request_def)
  from persistent_run [OF lost_run [OF r] soak_reach_step [OF 1 this]]
  have 2: "soak_reach ((?s KSpawn)\<lparr>sp_persistent := lost_stream\<rparr>)" by (simp only: lost_stream_def)
  have "soak_step AMain ((?s KSpawn)\<lparr>sp_persistent := lost_stream\<rparr>) (watching lost_stream)"
    using k_spawn [of "(?s KSpawn)\<lparr>sp_persistent := lost_stream\<rparr>"] by (simp add: watching_def soak_init_def)
  then show ?thesis by (rule soak_reach_step [OF 2])
qed

lemma winding_calls:
  assumes "soak_winding s s'"
  shows "my_calls (sp_persistent s') = my_calls (sp_persistent s)"
proof -
  have rw: "my_calls (reactor_write w y) = my_calls y" "my_calls (add_release b y) = my_calls y" for w b y
    by (simp_all add: reactor_write_def add_release_def split: option.splits)
  have md: "my_calls y' = my_calls y" if "md_step b y y'" "b \<noteq> MDelivery" for b y y'
    using that by cases (simp_all add: rw reactor_begin_def reactor_remove_hold_def)
  then have wind: "my_calls y' = my_calls y" if "md_winding y y'" for y y' using that unfolding md_winding_def by blast
  have sys: "my_calls (sys_start y) = my_calls y" "my_calls (sys_send r y) = my_calls y" "my_calls (sys_stop y) = my_calls y" for r y
    by (simp_all add: sys_start_def sys_send_def sys_stop_def rw split: prod.splits)
  from assms obtain a where step: "soak_step a s s'"
    and "case a of APersistent b \<Rightarrow> md_stopping (my_obj (sp_persistent s)) \<and> md_winding (sp_persistent s) (sp_persistent s')
      | AChurnStream b \<Rightarrow> md_stopping (my_obj (sp_churn s)) \<and> md_winding (sp_churn s) (sp_churn s')
      | APump \<Rightarrow> pp_pc (sp_pump s') \<noteq> pp_pc (sp_pump s) | _ \<Rightarrow> True"
    unfolding soak_winding_def by blast
  then have a: "case a of APersistent b \<Rightarrow> md_winding (sp_persistent s) (sp_persistent s') | _ \<Rightarrow> True"
    by (cases a) simp_all
  from step show ?thesis
  proof cases
    case (s_step b y)
    then show ?thesis using a wind by simp
  qed (simp_all add: sys)
qed

lemma winding_run_calls:
  "soak_winding\<^sup>*\<^sup>* s s' \<Longrightarrow> my_calls (sp_persistent s') = my_calls (sp_persistent s)"
  by (induction rule: rtranclp_induct) (simp_all add: winding_calls)

text \<open>
  The soak test can fail although nothing is wrong with its servers and connections: when the
  subscription of main falls between the copy of the registry and the publication of the reactor, the
  stream is connected and stays so, the subscription is registered but not written and nothing is left
  to write; the server, which has read no request, sends nothing, and the run ends with exit code 2.
\<close>

lemma soak_subscription_lost:
  "\<exists>s s'. soak_reach s \<and> sp_pc s = KWatch \<and> my_pc (sp_persistent s) = MStreaming
     \<and> md_reactor (my_obj (sp_persistent s)) \<and> \<not> md_broken (my_obj (sp_persistent s))
     \<and> md_subs (my_obj (sp_persistent s)) \<noteq> [] \<and> my_written (sp_persistent s) = [] \<and> md_queue (my_obj (sp_persistent s)) = []
     \<and> soak_writes ok (my_written (sp_persistent s)) = []
     \<and> soak_winding\<^sup>*\<^sup>* s s' \<and> sp_pc s' = KDone \<and> soak_main (Some 1) s' = 2"
proof -
  let ?s = "watching lost_stream"
  let ?f = "?s\<lparr>sp_pump := (sp_pump ?s)\<lparr>pp_stop := True\<rparr>, sp_pc := KStop\<rparr>"
  have watch: "sp_pc ?s = KWatch" by (simp add: watching_def)
  have step: "soak_step AMain ?s ?f" by (rule k_flag [OF watch])
  have f: "soak_reach ?f" "sp_stop ?f" using soak_reach_step [OF lost_stream_reach step] by simp_all
  obtain s' where s': "soak_winding\<^sup>*\<^sup>* ?f s'" "sp_pc s' = KDone" using soak.reaches_end [OF f] by blast
  have "soak_winding ?s ?f" unfolding soak_winding_def using step by (intro exI [of _ AMain]) simp
  with s'(1) have run: "soak_winding\<^sup>*\<^sup>* ?s s'" by (rule converse_rtranclp_into_rtranclp [rotated])
  have "my_calls (sp_persistent s') = []"
    using winding_run_calls [OF run] by (simp add: watching_def lost_stream_def lost_sys_def copied_sys_def fresh_sys_def)
  moreover have "soak_inv s'" using soak_reach_inv soak.run_stopping [OF s'(1) f] by blast
  ultimately have "soak_main (Some 1) s' = 2" using soak_main_code [of s' 1] by simp
  moreover have "remember_locked candle_request [] \<noteq> []"
    by (simp add: remember_locked_def candle_request_def subscribe_candles_default_def subscribe_candles_def candle_instruments_def)
  ultimately show ?thesis
    using lost_stream_reach watch run s'(2)
    by (intro exI [of _ ?s] exI [of _ s']) (simp add: watching_def lost_stream_def lost_sys_def copied_sys_def fresh_sys_def new_md_stream_def)
qed


end
