(* ===== verification/Bench_Program.thy ===== *)
theory Bench_Program
  imports Bench Soak_Program
begin

text \<open>
  \<^verbatim>\<open>main\<close> of \<^verbatim>\<open>bench/bench.cpp\<close>: the measurements in order, with what each of them prints apart
  from times. The in-process server is given by what it answers: the results of the blocking calls, the
  state in which the loop of pipelined calls has come to rest, the messages that arrive on the
  stream. \<open>Aborted\<close> is \<^verbatim>\<open>std::abort\<close>, \<open>Waiting\<close> a wait that has not ended.
\<close>

section \<open>The program\<close>

definition kStreamMessages :: int where
  "kStreamMessages = 200000"

datatype bench_line =
    DecimalLine string
  | BacktestLine int
  | SyncLine f64 f64 f64
  | AsyncLine int int
  | StreamLine int

datatype bench_outcome = Printed "bench_line list" | Aborted "bench_line list" | Waiting "bench_line list" | Undef "bench_line list" ub

definition print_then :: "bench_line list cpp \<Rightarrow> (bench_line list \<Rightarrow> bench_outcome) \<Rightarrow> bench_line list \<Rightarrow> bench_outcome" where
  "print_then c k out = (case c of Inl u \<Rightarrow> Undef out u | Inr ls \<Rightarrow> k (out @ ls))"

definition bench_stream :: "int \<Rightarrow> server_msg list \<Rightarrow> bench_line list \<Rightarrow> bench_outcome" where
  "bench_stream messages arrived out =
     (if messages \<le> fst (bench_receive messages arrived 0) then Printed (out @ [StreamLine messages]) else Waiting out)"

definition bench_rpc :: "(nat \<Rightarrow> 'a result) \<Rightarrow> (nat \<Rightarrow> f64) \<Rightarrow> bench_run \<Rightarrow> (bench_line list \<Rightarrow> bench_outcome) \<Rightarrow> bench_line list \<Rightarrow> bench_outcome" where
  "bench_rpc results elapsed r k out =
     (case bench_latency results elapsed of
        None \<Rightarrow> Aborted out
      | Some c \<Rightarrow> print_then (cbind c (\<lambda>(p50, p90, p99). Inr [SyncLine p50 p90 p99])) (\<lambda>out1.
          if br_pc r = BDone then k (out1 @ [AsyncLine kWindow (br_failed r)]) else Waiting out1) out)"

definition bench_main :: "(f64 \<Rightarrow> f64) \<Rightarrow> (nat \<Rightarrow> 'a result) \<Rightarrow> (nat \<Rightarrow> f64) \<Rightarrow> bench_run \<Rightarrow> server_msg list \<Rightarrow> bench_outcome" where
  "bench_main sin_fn results elapsed r arrived =
     print_then (cbind bench_decimal (\<lambda>sum. Inr [DecimalLine sum]))
       (print_then (cbind (bench_backtest sin_fn) (\<lambda>rep. Inr [BacktestLine (rep_trades rep)]))
         (bench_rpc results elapsed r (bench_stream kStreamMessages arrived))) []"

section \<open>What it prints\<close>

text \<open>
  Against its own server the benchmark prints its five lines: the constant checksum, the number
  of trades, three latencies in order, the number of failures among the 50000 pipelined calls, and
  the 200000 candles.
\<close>

lemma bench_main_output:
  assumes "\<forall>k<kIters. elapsed k \<noteq> NaN" "\<forall>k<kIters. result_ok (results (kWarmup + k))"
    and "bench.reach r" "br_pc r = BDone"
    and "\<exists>q\<in>set reqs. has_subscribe_candles_request q" "\<forall>k. ok k"
  shows "\<exists>trades a b c. bench_main sin_fn results elapsed r (bench_market_data kStreamMessages ok reqs)
      = Printed [DecimalLine ''123456'', BacktestLine trades, SyncLine a b c, AsyncLine 256 (br_failed r), StreamLine 200000]
    \<and> not_above a b \<and> not_above b c \<and> 0 \<le> br_failed r \<and> br_failed r \<le> 50000"
proof -
  obtain rep where rep: "bench_backtest sin_fn = Inr rep" using bench_backtest_runs by blast
  have ok: "(\<exists>k<kIters. \<not> result_ok (results (kWarmup + k))) = False" using assms(2) by blast
  obtain a b c where lat: "bench_latency results elapsed = Some (Inr (a, b, c))" "not_above a b" "not_above b c"
    using bench_latency_report [OF assms(1), of results] unfolding ok if_False by blast
  have "0 < kStreamMessages" by (simp add: kStreamMessages_def)
  then have recv: "fst (bench_receive kStreamMessages (bench_market_data kStreamMessages ok reqs) 0) = kStreamMessages"
    using bench_stream_counts [OF assms(5,6)] unfolding Let_def by blast
  have "bench_counts r" by (rule bench_counts_reach [OF assms(3)])
  then have "0 \<le> br_failed r \<and> br_failed r \<le> 50000" using assms(4) by (simp add: bench_counts_def kTotal_def)
  moreover have "bench_main sin_fn results elapsed r (bench_market_data kStreamMessages ok reqs)
      = Printed [DecimalLine ''123456'', BacktestLine (rep_trades rep), SyncLine a b c, AsyncLine 256 (br_failed r), StreamLine 200000]"
    using assms(4)
    by (simp add: bench_main_def bench_rpc_def bench_stream_def print_then_def rep lat(1) recv bench_decimal_values kWindow_def)
      (simp add: kStreamMessages_def)
  ultimately show ?thesis using lat(2,3) by blast
qed

text \<open>
  Without an arriving candle the stream benchmark waits for ever: that is what a subscription lost
  between the copy of the registry and the publication of the reactor leads to (\<open>lost_sys_reach\<close>),
  as the server writes nothing before it has read one.
\<close>

lemma bench_stream_waits:
  assumes "\<forall>q\<in>set reqs. \<not> has_subscribe_candles_request q" "0 < messages"
  shows "bench_stream messages (bench_market_data messages ok reqs) out = Waiting out"
proof -
  have "bench_market_data messages ok reqs = []"
    using assms(1) by (induction reqs) simp_all
  then show ?thesis using assms(2) by (simp add: bench_stream_def)
qed

end
