(* ===== verification/Unit_Tests.thy ===== *)
theory Unit_Tests
  imports Decimal_String Async_Calls Market_Data_Runs Strategies
begin

text \<open>
  The repository's own unit tests (\<^verbatim>\<open>tests/decimal_test.cpp\<close>, \<^verbatim>\<open>tests/rate_limiter_test.cpp\<close>,
  \<^verbatim>\<open>tests/client_test.cpp\<close> and parts of \<^verbatim>\<open>tests/indicators_test.cpp\<close> and
  \<^verbatim>\<open>tests/stream_test.cpp\<close>) on the definitions of the development: each lemma is a test with its
  expectations, evaluated by the kernel. They tie the definitions to behaviour that the
  authors of the code have written down.
\<close>

section \<open>decimal_test.cpp\<close>

lemma Decimal_NormalizesNanoOverflow: "mk_decimal 1 1500000000 = Inr \<lparr>units = 2, nano = 500000000\<rparr>"
  by code_simp

lemma Decimal_NormalizesMixedSigns:
  "mk_decimal 1 (- 500000000) = Inr \<lparr>units = 0, nano = 500000000\<rparr>"
  "mk_decimal (- 1) 250000000 = Inr \<lparr>units = 0, nano = - 750000000\<rparr>"
  by code_simp+

text \<open>An operator applied to constructed decimals.\<close>

definition dec2 :: "(decimal \<Rightarrow> decimal \<Rightarrow> decimal cpp) \<Rightarrow> int \<times> int \<Rightarrow> int \<times> int \<Rightarrow> decimal cpp" where
  "dec2 f a b = cbind (mk_decimal (fst a) (snd a)) (\<lambda>x. cbind (mk_decimal (fst b) (snd b)) (\<lambda>y. f x y))"

definition dec1 :: "(decimal \<Rightarrow> 'a cpp) \<Rightarrow> int \<times> int \<Rightarrow> 'a cpp" where
  "dec1 f a = cbind (mk_decimal (fst a) (snd a)) f"

lemma Decimal_Arithmetic:
  "dec2 decimal_add (10, 500000000) (2, 250000000) = mk_decimal 12 750000000"
  "dec2 decimal_sub (10, 500000000) (2, 250000000) = mk_decimal 8 250000000"
  "dec1 (\<lambda>a. decimal_scale a 2) (10, 500000000) = mk_decimal 21 0"
  "dec2 decimal_mul (10, 500000000) (2, 250000000) = mk_decimal 23 625000000"
  "dec1 (\<lambda>a. decimal_div_int a 2) (10, 500000000) = mk_decimal 5 250000000"
  "dec2 decimal_div (1, 0) (3, 0) = mk_decimal 0 333333333"
  by code_simp+

lemma Decimal_NegativeArithmetic:
  "dec1 decimal_neg (- 10, - 500000000) = mk_decimal 10 500000000"
  "dec1 (\<lambda>a. decimal_scale a 2) (- 10, - 500000000) = mk_decimal (- 21) 0"
  "dec2 decimal_add (- 10, - 500000000) (10, 500000000) = mk_decimal 0 0"
  "dec2 decimal_div (- 1, 0) (2, 0) = mk_decimal 0 (- 500000000)"
  by code_simp+

lemma Decimal_Comparison:
  "dec2 (\<lambda>a b. if decimal_lt a b then Inr a else Inl OutOfRange) (1, 999999999) (2, 0) = mk_decimal 1 999999999"
  "dec2 (\<lambda>a b. if decimal_gt a b then Inr a else Inl OutOfRange) (0, 1) (0, - 1) = mk_decimal 0 1"
  "dec2 (\<lambda>a b. if decimal_le a b then Inr a else Inl OutOfRange) (5, 0) (5, 0) = mk_decimal 5 0"
  "dec2 (\<lambda>a b. if decimal_ne a b then Inr a else Inl OutOfRange) (5, 0) (5, 1) = mk_decimal 5 0"
  by code_simp+

text \<open>Rules by which the printing loops compute on numerals.\<close>

lemma fill_buf_numeral:
  "fill_buf (numeral k) f buf = fill_buf (pred_numeral k) (f div 10) (digit_char (f mod 10) # buf)"
  unfolding numeral_eq_Suc [of k] by simp

lemma trim_len_numeral:
  "trim_len buf (numeral k) = (if buf ! pred_numeral k = CHR ''0'' then trim_len buf (pred_numeral k) else numeral k)"
  unfolding numeral_eq_Suc [of k] by simp

lemma show_nat_steps:
  "n < 10 \<Longrightarrow> show_nat n = [digit_char n]"
  "10 \<le> n \<Longrightarrow> show_nat n = show_nat (n div 10) @ [digit_char (n mod 10)]"
  by (subst show_nat.simps, simp)+

lemmas print_simps = decimal_to_string_def abs_units_def frac_string_def fill_buf_numeral trim_len_numeral show_nat_steps
  digit_chars

lemma Decimal_ToString:
  "decimal_to_string \<lparr>units = 123, nano = 0\<rparr> = ''123''"
  "decimal_to_string \<lparr>units = 123, nano = 450000000\<rparr> = ''123.45''"
  "decimal_to_string \<lparr>units = 0, nano = - 500000000\<rparr> = ''-0.5''"
  "decimal_to_string \<lparr>units = - 7, nano = - 10000000\<rparr> = ''-7.01''"
  "decimal_to_string \<lparr>units = 0, nano = 1\<rparr> = ''0.000000001''"
  by (simp_all add: print_simps)

lemma Decimal_FromString:
  "from_string ''123.45'' = cbind (mk_decimal 123 450000000) (\<lambda>d. Inr (Some d))"
  "from_string ''-0.5'' = cbind (mk_decimal 0 (- 500000000)) (\<lambda>d. Inr (Some d))"
  "from_string ''42'' = cbind (mk_decimal 42 0) (\<lambda>d. Inr (Some d))"
  "from_string ''0.000000001'' = cbind (mk_decimal 0 1) (\<lambda>d. Inr (Some d))"
  "from_string ''abc'' = Inr None"
  "from_string [] = Inr None"
  "from_string ''1.2.3'' = Inr None"
  by code_simp+

lemma Decimal_QuotationRoundTrip:
  "dec1 (\<lambda>d. Inr (to_quotation d)) (314, 159000000) = Inr \<lparr>q_units = 314, q_nano = 159000000\<rparr>"
  "decimal_of_quotation \<lparr>q_units = 314, q_nano = 159000000\<rparr> = mk_decimal 314 159000000"
  by code_simp+

lemma Money_RoundTrip:
  "money_to_pb \<lparr>currency = ''rub'', amount = \<lparr>units = 99, nano = 990000000\<rparr>\<rparr>
   = \<lparr>mv_currency = ''rub'', mv_units = 99, mv_nano = 990000000\<rparr>"
  "money_of_pb \<lparr>mv_currency = ''rub'', mv_units = 99, mv_nano = 990000000\<rparr>
   = Inr \<lparr>currency = ''rub'', amount = \<lparr>units = 99, nano = 990000000\<rparr>\<rparr>"
  "money_to_string \<lparr>currency = ''rub'', amount = \<lparr>units = 99, nano = 990000000\<rparr>\<rparr> = ''99.99 rub''"
proof -
  show "money_to_string \<lparr>currency = ''rub'', amount = \<lparr>units = 99, nano = 990000000\<rparr>\<rparr> = ''99.99 rub''"
    by (simp add: money_to_string_def print_simps)
qed code_simp+

section \<open>rate_limiter_test.cpp\<close>

definition test_kMethod :: string where
  "test_kMethod = ''tinkoff.public.invest.api.contract.v1.UsersService/GetAccounts''"

definition test_kInfo :: string where
  "test_kInfo = ''tinkoff.public.invest.api.contract.v1.UsersService/GetInfo''"

text \<open>A sequence of \<^verbatim>\<open>try_acquire\<close> calls at one time, and what they return.\<close>

fun try_all :: "int \<Rightarrow> string list \<Rightarrow> limiter \<Rightarrow> bool list" where
  "try_all now [] l = []"
| "try_all now (m # ms) l = (case try_acquire m now l of (ok, l') \<Rightarrow> ok # try_all now ms l')"

lemma RateLimiter_UnconfiguredPassesEverything:
  "\<not> enabled (mk_limiter 60000)"
  "try_all now [test_kMethod] (mk_limiter 60000) = [True]"
  "acquire test_kMethod (now, []) (mk_limiter 60000) = (True, mk_limiter 60000)"
  by (simp_all add: enabled_def mk_limiter_def try_acquire_def acquire_def)

lemma RateLimiter_TryAcquireHonoursLimit:
  "enabled (set_limit [test_kMethod] 2 (mk_limiter 200))"
  "try_all 1000000000 [test_kMethod, test_kMethod, test_kMethod, ''unknown/Method''] (set_limit [test_kMethod] 2 (mk_limiter 200))
   = [True, True, False, True]"
  by code_simp+

lemma RateLimiter_AcquireBlocksUntilWindowRollsOver:
  defines "l \<equiv> snd (try_acquire test_kMethod 1000000000 (set_limit [test_kMethod] 1 (mk_limiter 200)))"
  shows "\<not> fst (acquire test_kMethod (1000000000, [(\<lambda>l. l, 1199999999)]) l)"
    and "fst (acquire test_kMethod (1000000000, [(\<lambda>l. l, 1199999999), (\<lambda>l. l, 1200000000)]) l)"
  unfolding l_def by code_simp+

lemma RateLimiter_ConfigureFromTariffResponse:
  "try_all 1000000000 [test_kMethod, test_kMethod, test_kInfo]
     (configure [\<lparr>ul_limit_per_minute = 1, ul_methods = [''/'' @ test_kMethod]\<rparr>, \<lparr>ul_limit_per_minute = 0, ul_methods = [test_kInfo]\<rparr>]
       (mk_limiter 200))
   = [True, False, True]"
  by code_simp

lemma RateLimiter_GroupsShareOneWindow:
  "try_all 1000000000 [''svc/A'', ''svc/B'', ''svc/A''] (set_limit [''svc/A'', ''svc/B''] 2 (mk_limiter 200))
   = [True, True, False]"
  by code_simp

section \<open>client_test.cpp\<close>

definition test_client :: client where
  "test_client = mk_client (\<lambda>_. None) (default_config\<lparr>cfg_token := ''test-token'', cfg_app_name := ''tinvest-tests'', cfg_use_tls := False\<rparr>)"

text \<open>\<^verbatim>\<open>MockUsers\<close>: the answer of each method, \<^verbatim>\<open>GetInfo\<close> by the number of the call.\<close>

definition mock_accounts :: "string list reply" where
  "mock_accounts = \<lparr>rep_code = OK, rep_error_message = [], rep_trailing = [], rep_resp = [''acc-1'']\<rparr>"

definition mock_margin :: "unit reply" where
  "mock_margin = \<lparr>rep_code = NOT_FOUND, rep_error_message = ''30042'',
     rep_trailing = [(''message'', ''Account margin status not found''), (''x-tracking-id'', ''trk-42'')], rep_resp = ()\<rparr>"

definition mock_info :: "int \<Rightarrow> string reply" where
  "mock_info k =
     (if k = 1
      then \<lparr>rep_code = RESOURCE_EXHAUSTED, rep_error_message = ''80002'',
        rep_trailing = [(''x-ratelimit-reset'', ''0''), (''message'', ''Request limit exceeded'')], rep_resp = []\<rparr>
      else \<lparr>rep_code = OK, rep_error_message = [], rep_trailing = [], rep_resp = ''mock''\<rparr>)"

definition env_of :: "(int \<Rightarrow> 'r reply) \<Rightarrow> 'r call_env" where
  "env_of answer = \<lparr>env_others = (\<lambda>_ l. l), env_clock = (\<lambda>_. (0, [])), env_now = (\<lambda>_. 0), env_call = (\<lambda>k ctx. answer k)\<rparr>"

lemma test_context:
  "setup_context test_client (default_call_options\<lparr>co_retry := b\<rparr>) now empty_context =
     Inr \<lparr>ctx_metadata = [(''authorization'', ''Bearer test-token''), (''x-app-name'', ''tinvest-tests'')], ctx_deadline = None\<rparr>"
  by (simp add: setup_context_def test_client_def mk_client_def default_config_def default_call_options_def
      effective_timeout_def add_metadata_def empty_context_def)

lemma no_limit_acquire: "acquire m ts (mk_limiter w) = (True, mk_limiter w)"
  by (simp add: acquire_def mk_limiter_def)

lemma ClientTest_SyncCallReturnsDataAndSendsMetadata:
  "unary_sync test_client default_call_options test_kMethod (env_of (\<lambda>_. mock_accounts)) (mk_limiter 60000) =
     ([Acquired test_kMethod, Called \<lparr>ctx_metadata = [(''authorization'', ''Bearer test-token''), (''x-app-name'', ''tinvest-tests'')],
         ctx_deadline = None\<rparr>],
      mk_limiter 60000, Returned (Value [''acc-1'']))"
  using test_context [of None 0]
  by (simp add: unary_sync_def unary_loop.simps env_of_def no_limit_acquire mock_accounts_def default_call_options_def)

lemma ClientTest_ErrorMappingFromTrailingMetadata:
  "make_error mock_margin = Inr \<lparr>err_code = NOT_FOUND, err_message = ''Account margin status not found'',
     err_api_code = ''30042'', err_tracking_id = ''trk-42'',
     err_ratelimit = \<lparr>rli_limit = - 1, rli_remaining = - 1, rli_reset_seconds = - 1\<rparr>\<rparr>"
  by (simp add: make_error_def mock_margin_def get_metadata_def get_int_metadata_def Let_def is_digit_def)

lemma mock_info_error:
  "\<exists>e. make_error (mock_info 1) = Inr e \<and> err_code e = RESOURCE_EXHAUSTED \<and> rli_reset_seconds (err_ratelimit e) = 0"
proof -
  have "get_int_metadata (rep_trailing (mock_info 1)) ''x-ratelimit-reset'' = Inr 0"
    using get_int_metadata_show [of "rep_trailing (mock_info 1)" "''x-ratelimit-reset''" 0]
    by (simp add: mock_info_def show_int_def show_nat_steps digit_chars fits32_iff)
  then show ?thesis
    by (simp add: make_error_def mock_info_def get_metadata_def get_int_metadata_def Let_def is_digit_def)
qed

text \<open>The first answer of \<^verbatim>\<open>GetInfo\<close> is retried once, after 200 ms, unless the caller forbids it.\<close>

lemma ClientTest_RateLimitedCallIsRetried:
  "\<exists>evs l. unary_sync test_client default_call_options test_kInfo (env_of mock_info) (mk_limiter 60000) = (evs, l, Returned (Value ''mock''))
     \<and> n_calls evs = 2 \<and> Slept 200 \<in> set evs"
proof -
  obtain e where e: "make_error (mock_info 1) = Inr e" "err_code e = RESOURCE_EXHAUSTED" "rli_reset_seconds (err_ratelimit e) = 0"
    using mock_info_error by blast
  have c: "rep_code (mock_info 1) \<noteq> OK" "rep_code (mock_info 2) = OK" "rep_resp (mock_info 2) = ''mock''"
    by (simp_all add: mock_info_def)
  have r: "retryable (cfg_retry (cl_config test_client)) default_call_options e" "retry_delay 1 e = 200"
      "max_calls test_client = 3" "rp_max_wait (cfg_retry (cl_config test_client)) = 65000"
    using e by (simp_all add: retryable_def retry_delay_def max_calls_def test_client_def mk_client_def default_config_def
        default_retry_policy_def default_call_options_def)
  have two: "unary_loop test_client default_call_options test_kInfo (env_of mock_info) 2 (mk_limiter 60000)
      = ([Acquired test_kInfo, Called \<lparr>ctx_metadata = [(''authorization'', ''Bearer test-token''), (''x-app-name'', ''tinvest-tests'')],
           ctx_deadline = None\<rparr>], mk_limiter 60000, Returned (Value ''mock''))"
    using test_context [of None 0] c
    by (subst unary_loop.simps) (simp add: env_of_def no_limit_acquire default_call_options_def)
  show ?thesis
    using test_context [of None 0] c e(1) r two
    by (simp add: unary_sync_def unary_loop.simps [of _ _ _ _ 1] env_of_def no_limit_acquire default_call_options_def)
qed

lemma ClientTest_RetryCanBeDisabledPerCall:
  "\<exists>evs l e. unary_sync test_client (default_call_options\<lparr>co_retry := Some False\<rparr>) test_kInfo (env_of mock_info) (mk_limiter 60000)
       = (evs, l, Returned (Failure e))
     \<and> err_code e = RESOURCE_EXHAUSTED \<and> rli_reset_seconds (err_ratelimit e) = 0 \<and> n_calls evs = 1"
proof -
  obtain e where e: "make_error (mock_info 1) = Inr e" "err_code e = RESOURCE_EXHAUSTED" "rli_reset_seconds (err_ratelimit e) = 0"
    using mock_info_error by blast
  have "rep_code (mock_info 1) \<noteq> OK" by (simp add: mock_info_def)
  then show ?thesis
    using test_context [of "Some False" 0] e
    by (simp add: unary_sync_def unary_loop.simps [of _ _ _ _ 1] env_of_def no_limit_acquire retryable_def)
qed

lemma ClientTest_ClientSideRateLimitFailsFastOnAsync:
  "map_sum id as_reports (unary_async test_client default_call_options test_kMethod () 1000000001 0 a
     (async_init (snd (try_acquire test_kMethod 1000000000 (set_limit [test_kMethod] 1 (mk_limiter 60000))))))
   = Inr [(0, Failure client_limit_error)]"
  "err_code client_limit_error = RESOURCE_EXHAUSTED" "err_api_code client_limit_error = ''client''"
proof -
  let ?l = "snd (try_acquire test_kMethod 1000000000 (set_limit [test_kMethod] 1 (mk_limiter 60000)))"
  have "fst (try_acquire test_kMethod 1000000001 ?l) = False" by code_simp
  then show "map_sum id as_reports (unary_async test_client default_call_options test_kMethod () 1000000001 0 a (async_init ?l))
      = Inr [(0, Failure client_limit_error)]"
    by (cases "try_acquire test_kMethod 1000000001 ?l") (simp add: unary_async_def async_init_def)
qed (simp_all add: client_limit_error_def default_error_def)

text \<open>The call, gRPC's completion with the answer of the server, and the end of the completion.\<close>

lemma ClientTest_AsyncCallCompletes:
  "\<exists>s1 s2 s3. unary_async test_client default_call_options test_kMethod () clock 0 a (async_init (mk_limiter 60000)) = Inr s1
     \<and> as_reports s1 = []
     \<and> async_callback a mock_accounts s1 = Inr s2 \<and> as_reports s2 = [(0, Value [''acc-1''])]
     \<and> async_delete a s2 = Inr s3 \<and> as_heap s3 = (\<lambda>_. None)"
  using test_context [of None 0]
  by (simp add: unary_async_def async_callback_def async_delete_def async_init_def try_acquire_def mk_limiter_def
      mock_accounts_def default_call_options_def fun_eq_iff)

section \<open>stream_test.cpp\<close>

text \<open>The second \<^verbatim>\<open>stop\<close> finds nothing to release and no thread to join.\<close>

lemma StreamTest_StopIsIdempotent: "sys_stop (sys_stop y) = sys_stop y"
  by (cases "md_reactor (my_obj y) \<and> \<not> md_hold_released (my_obj y)")
    (auto simp: sys_stop_def md_stop_def Let_def add_release_def)

section \<open>indicators_test.cpp\<close>

definition test_bar :: "real \<Rightarrow> real \<Rightarrow> real \<Rightarrow> bar" where
  "test_bar h l c = \<lparr>bar_time = 0, bar_open = 0, bar_high = Fin h, bar_low = Fin l, bar_close = Fin c, bar_volume = 0\<rparr>"

lemma period_three: "period_size 3 = 3"
  by (simp add: period_size_def)

lemmas donchian_simps = mk_donchian_def dc_push_def dc_ready_def dc_upper_def dc_lower_def max_element_def min_element_def period_three f64_ops

lemma Donchian_TracksWindowExtremes:
  "\<not> dc_ready (fold dc_push [(Fin 10, Fin 5), (Fin 12, Fin 6)] (mk_donchian 3))"
  "dc_ready (fold dc_push [(Fin 10, Fin 5), (Fin 12, Fin 6), (Fin 11, Fin 4)] (mk_donchian 3))"
  "dc_upper (fold dc_push [(Fin 10, Fin 5), (Fin 12, Fin 6), (Fin 11, Fin 4), (Fin 9, Fin 7)] (mk_donchian 3)) = Inr (Fin 12)"
  "dc_lower (fold dc_push [(Fin 10, Fin 5), (Fin 12, Fin 6), (Fin 11, Fin 4), (Fin 9, Fin 7)] (mk_donchian 3)) = Inr (Fin 4)"
  "dc_upper (fold dc_push [(Fin 10, Fin 5), (Fin 12, Fin 6), (Fin 11, Fin 4), (Fin 9, Fin 7), (Fin 8, Fin 6)] (mk_donchian 3)) = Inr (Fin 11)"
  "dc_lower (fold dc_push [(Fin 10, Fin 5), (Fin 12, Fin 6), (Fin 11, Fin 4), (Fin 9, Fin 7), (Fin 8, Fin 6)] (mk_donchian 3)) = Inr (Fin 4)"
  by (simp_all add: donchian_simps)

lemma DonchianStrategy_BuysOnBreakout:
  "\<exists>s. run_strategy donchian_breakout_on_bar
       [test_bar 10 9 (19 / 2), test_bar 10 9 (19 / 2), test_bar 10 9 (19 / 2), test_bar 12 10 (23 / 2)]
       (mk_donchian_breakout 3 3) = Inr ([Hold, Hold, Hold, Buy], s)"
  by (simp add: donchian_breakout_on_bar_def mk_donchian_breakout_def breaks_up_def breaks_down_def test_bar_def
      donchian_simps Let_def)

end
