(* ===== verification/Double_Tests.thy ===== *)
theory Double_Tests
  imports Unit_Tests Backtest Decimal_Double
begin

text \<open>
  The unit tests that compute with doubles (\<^verbatim>\<open>tests/indicators_test.cpp\<close>,
  \<^verbatim>\<open>tests/backtest_test.cpp\<close>, \<^verbatim>\<open>Decimal.FromDouble\<close> of \<^verbatim>\<open>tests/decimal_test.cpp\<close>), evaluated
  with the rounding of \<open>Float64\<close>. Where all intermediate results are multiples of a power of two the
  value is exact and the equation is stronger than the test, which allows a tolerance.
\<close>

section \<open>Exact results\<close>

lemma fl_quarters [simp]:
  "numeral m \<le> (2 ^ 53 :: int) \<Longrightarrow> fl (numeral m / 2) = Fin (numeral m / 2)"
  "numeral m \<le> (2 ^ 53 :: int) \<Longrightarrow> fl (numeral m / 4) = Fin (numeral m / 4)"
  "numeral m \<le> (2 ^ 53 :: int) \<Longrightarrow> fl (- (numeral m / 2)) = Fin (- (numeral m / 2))"
  "numeral m \<le> (2 ^ 53 :: int) \<Longrightarrow> fl (- (numeral m / 4)) = Fin (- (numeral m / 4))"
  "fl (1 / 2) = Fin (1 / 2)" "fl (1 / 4) = Fin (1 / 4)" "fl (- (1 / 2)) = Fin (- (1 / 2))" "fl (- (1 / 4)) = Fin (- (1 / 4))"
  using fl_dyadic [of "numeral m" 1] fl_dyadic [of "numeral m" 2] fl_dyadic [of "- numeral m" 1] fl_dyadic [of "- numeral m" 2]
    fl_dyadic [of 1 1] fl_dyadic [of 1 2] fl_dyadic [of "- 1" 1] fl_dyadic [of "- 1" 2]
  by simp_all

lemmas double_simps = f64_ops f64_of_int_def size_double_def feq_def period_size_def

text \<open>The bound computation is evaluated before what follows it.\<close>

lemma cbind_weak_cong: "c = c' \<Longrightarrow> cbind c f = cbind c' f"
  by simp

section \<open>indicators_test.cpp\<close>

lemma Sma_ExactRollingAverage:
  "\<not> sma_ready (fold sma_push [Fin 1, Fin 2] (mk_sma 3))"
  "sma_ready (fold sma_push [Fin 1, Fin 2, Fin 3] (mk_sma 3))"
  "sma_value (fold sma_push [Fin 1, Fin 2, Fin 3] (mk_sma 3)) = Fin 2"
  "sma_value (fold sma_push [Fin 1, Fin 2, Fin 3, Fin 7] (mk_sma 3)) = Fin 4"
  by (simp_all add: sma_push_def sma_ready_def sma_value_def mk_sma_def double_simps Let_def)

lemma Ema_SeedsWithSmaThenSmooths:
  "\<not> ema_ready (fold ema_push [Fin 2, Fin 4] (mk_ema 3))"
  "ema_ready (fold ema_push [Fin 2, Fin 4, Fin 6] (mk_ema 3))"
  "ema_value (fold ema_push [Fin 2, Fin 4, Fin 6] (mk_ema 3)) = Fin 4"
  "ema_value (fold ema_push [Fin 2, Fin 4, Fin 6, Fin 8] (mk_ema 3)) = Fin 6"
  by (simp_all add: ema_push_def ema_ready_def ema_value_def mk_ema_def sma_push_def sma_ready_def sma_value_def
      mk_sma_def double_simps Let_def)

lemmas rsi_simps = rsi_push_def rsi_ready_def rsi_value_def mk_rsi_def gain_of_def loss_of_def double_simps Let_def

lemma Rsi_ExtremesOnMonotonicSeries:
  "rsi_ready (fold (\<lambda>i. rsi_push (Fin (real i))) [1..<11] (mk_rsi 5))"
  "rsi_value (fold (\<lambda>i. rsi_push (Fin (real i))) [1..<11] (mk_rsi 5)) = Fin 100"
  "rsi_ready (fold (\<lambda>i. rsi_push (Fin (real i))) (rev [1..<11]) (mk_rsi 5))"
  "rsi_value (fold (\<lambda>i. rsi_push (Fin (real i))) (rev [1..<11]) (mk_rsi 5)) = Fin 0"
  by (simp_all add: upt_rec rsi_simps)

lemmas bb_simps = bb_push_def bb_ready_def bb_middle_def bb_stddev_def bb_upper_def bb_lower_def mk_bollinger_def double_simps Let_def

lemma Bollinger_CollapsesOnConstant:
  "bb_ready (fold bb_push (replicate 5 (Fin 10)) (mk_bollinger 5 (Fin 2)))"
  "bb_middle (fold bb_push (replicate 5 (Fin 10)) (mk_bollinger 5 (Fin 2))) = Fin 10"
  "bb_upper (fold bb_push (replicate 5 (Fin 10)) (mk_bollinger 5 (Fin 2))) = Fin 10"
  "bb_lower (fold bb_push (replicate 5 (Fin 10)) (mk_bollinger 5 (Fin 2))) = Fin 10"
  by (simp_all add: numeral_eq_Suc bb_simps)

lemma Bollinger_BoundsData:
  "bb_ready (fold bb_push [Fin 1, Fin 3, Fin 5, Fin 7] (mk_bollinger 4 (Fin 2)))"
  "bb_middle (fold bb_push [Fin 1, Fin 3, Fin 5, Fin 7] (mk_bollinger 4 (Fin 2))) = Fin 4"
  "Fin 7 < bb_upper (fold bb_push [Fin 1, Fin 3, Fin 5, Fin 7] (mk_bollinger 4 (Fin 2)))"
  "bb_lower (fold bb_push [Fin 1, Fin 3, Fin 5, Fin 7] (mk_bollinger 4 (Fin 2))) < Fin 1"
proof -
  let ?b = "fold bb_push [Fin 1, Fin 3, Fin 5, Fin 7] (mk_bollinger 4 (Fin 2))"
  show "bb_ready ?b" and m: "bb_middle ?b = Fin 4" by (simp_all add: bb_simps)
  obtain r where r: "fl (sqrt 5) = Fin r" "2 \<le> r" "r \<le> 3"
  proof -
    have b: "2 \<le> sqrt 5" "sqrt 5 \<le> 3" by (auto intro: real_le_rsqrt real_le_lsqrt)
    then have "fl (sqrt 5) = Fin (rnd64 (sqrt 5))" by (intro fl_small) simp
    then show thesis
      using that ieee.rnd_ge_exact [OF b(1) ieee.rnd_numeral] ieee.rnd_le_exact [OF b(2) ieee.rnd_numeral] by simp
  qed
  have sd: "bb_stddev ?b = Fin r" using m r(1) by (simp add: bb_simps)
  obtain q where q: "fl (2 * r) = Fin q" "4 \<le> q" "q \<le> 6"
  proof -
    have b: "4 \<le> 2 * r" "2 * r \<le> 6" using r by simp_all
    then have "fl (2 * r) = Fin (rnd64 (2 * r))" by (intro fl_small) simp
    then show thesis
      using that ieee.rnd_ge_exact [OF b(1) ieee.rnd_numeral] ieee.rnd_le_exact [OF b(2) ieee.rnd_numeral] by simp
  qed
  have "bb_mult ?b = Fin 2" by (simp add: bb_simps)
  then have p: "bb_mult ?b * bb_stddev ?b = Fin q" using sd q(1) by (simp add: f64_ops)
  have "8 \<le> rnd64 (4 + q)" by (rule ieee.rnd_ge_exact) (use q(2) in \<open>simp_all add: ieee.rnd_numeral\<close>)
  moreover have "fl (4 + q) = Fin (rnd64 (4 + q))" using q by (intro fl_small) simp
  ultimately show "Fin 7 < bb_upper ?b" unfolding bb_upper_def m p by (simp add: f64_ops)
  have "rnd64 (4 - q) \<le> 0" by (rule ieee.rnd_nonpos) (use q(2) in simp)
  moreover have "fl (4 - q) = Fin (rnd64 (4 - q))" using q by (intro fl_small) simp
  ultimately show "bb_lower ?b < Fin 1" unfolding bb_lower_def m p by (simp add: f64_ops)
qed

lemma SmaCrossStrategy_EmitsBuyOnGoldenCross:
  "\<exists>s. run_strategy (\<lambda>b s. Inr (sma_cross_on_bar b s))
       (map (\<lambda>c. test_bar 0 0 c) [10, 9, 8, 7, 6, 5, 9, 13, 17, 21]) (mk_sma_cross 2 4)
     = Inr ([Hold, Hold, Hold, Hold, Hold, Hold, Buy, Hold, Hold, Hold], s)"
  by (simp add: sma_cross_on_bar_def mk_sma_cross_def test_bar_def sma_push_def sma_ready_def sma_value_def mk_sma_def
      double_simps Let_def cong: cbind_weak_cong)

section \<open>decimal_test.cpp\<close>

lemma Decimal_FromDouble:
  "from_double (Fin (3 / 2)) = Inr \<lparr>units = 1, nano = 500000000\<rparr>"
  "from_double (Fin (- (9 / 4))) = Inr \<lparr>units = - 2, nano = - 250000000\<rparr>"
  by (simp_all add: from_double_def int64_of_f64_def llround_def Decimal_Double.truncate_def round_away_def checked_def from_total_def
      fits64_iff fits128_iff kNano_def sdiv_nonneg smod_nonneg sdiv_neg smod_neg narrow_def double_simps Let_def)

section \<open>backtest_test.cpp\<close>

definition make_bars :: "int list \<Rightarrow> bar list" where
  "make_bars closes = map (\<lambda>(i, c). bar_at (1700000000 + 86400 * int i) c) (enumerate 0 closes)"

lemmas bt_simps = run_backtest_def bt_init_def bt_bar_def mark_to_market_def fill_def record_bar_def closing_trade_def
  close_open_def bt_report_def count_wins_def scripted_def bar_at_def make_bars_def fmax_def double_simps

lemma Backtest_OpenPositionClosedAtEnd:
  "\<exists>r. run_backtest (\<lambda>_. ''scripted'') scripted [Hold, Buy, Hold] (make_bars [100, 100, 150]) (Fin 0) (Fin 252) = Inr (r, [])
     \<and> rep_trades r = 1 \<and> total_return_pct r = Fin 50"
  by (simp add: bt_simps Let_def narrow_def cong: cbind_weak_cong)

lemma Backtest_MaxDrawdownOnRoundTrip:
  "\<exists>r. run_backtest (\<lambda>_. ''scripted'') scripted [Buy, Hold, Hold, Hold, Sell] (make_bars [100, 100, 200, 100, 100])
       (Fin 0) (Fin 252) = Inr (r, [])
     \<and> max_drawdown_pct r = Fin 50 \<and> total_return_pct r = Fin 0"
  by (simp add: bt_simps Let_def narrow_def cong: cbind_weak_cong)

lemma Backtest_FlatStrategyHasNoTradesOrDrawdown:
  "\<exists>r. run_backtest (\<lambda>_. ''scripted'') scripted [] (make_bars [100, 90, 80, 70]) (Fin 0) (Fin 252) = Inr (r, [])
     \<and> rep_trades r = 0 \<and> total_return_pct r = Fin 0 \<and> max_drawdown_pct r = Fin 0"
  by (simp add: bt_simps Let_def narrow_def cong: cbind_weak_cong)

end
