(* ===== verification/Spec2Isabelle.thy ===== *)
theory Spec2Isabelle
  imports Services Server_Restart Task_Ownership Stream_Examples Stream_Restart Resubscription Bench_Program Double_Tests
begin

text \<open>
  Verification development for the C++ SDK of the T-Invest trading API (a header-only library with
  two source files, \<^verbatim>\<open>src/client.cpp\<close> and \<^verbatim>\<open>src/market_data_stream.cpp\<close>), its examples and
  its benchmarks.

  \<^bold>\<open>The program.\<close> A \<^verbatim>\<open>Client\<close> owns a gRPC channel, a configuration and a \<^verbatim>\<open>RateLimiter\<close>.
  The service wrappers of \<^verbatim>\<open>services.hpp\<close> turn each unary RPC into a blocking call, a callback
  call and an awaitable call; all go through \<^verbatim>\<open>detail/unary.hpp\<close>, which takes a slot from the
  limiter, sets up the context, and for blocking calls retries. The streams keep a worker thread
  that reconnects with a growing delay: \<^verbatim>\<open>ServerStream\<close> for the server-side streams and
  \<^verbatim>\<open>MarketDataStream\<close> for the bidirectional one, with a registry of subscriptions that is
  replayed on every connection. Prices are fixed-point \<^verbatim>\<open>Decimal\<close>s; the algorithmic part
  (indicators, strategies, backtester) works on doubles.

  \<^bold>\<open>The theories,\<close> each importing the ones it needs:
  \<^item> \<open>Prelude\<close>: outcomes of C++ expressions (\<open>cpp\<close>: undefined behaviour is a value), integers of
    a width, decimal printing, trailing windows.
  \<^item> \<open>Decimal\<close>, \<open>Decimal_String\<close>, \<open>Decimal_Double\<close> (\<^verbatim>\<open>decimal.hpp\<close>): a decimal is the record of
    units and nanos, its meaning the number of nanos \<open>dec_total\<close>; arithmetic in 128 bits; text;
    conversion to and from double. Shown: the class invariant, exactness or half-nano error of the
    operators, every overflow and division by zero as a named outcome, the round trips, and exactly
    which texts are accepted.
  \<^item> \<open>Float64\<close>: IEEE binary64 rounding and arithmetic with infinities and invalid results; the
    locale \<open>fp_rounding\<close> is what the proofs use of it.
  \<^item> \<open>Error\<close> (\<^verbatim>\<open>error.hpp\<close>), \<open>Client\<close> (\<^verbatim>\<open>client.hpp\<close>, \<^verbatim>\<open>call_options.hpp\<close>,
    \<^verbatim>\<open>client.cpp\<close>): errors and results, configuration, channel and call contexts.
  \<^item> \<open>Rate_Limiter\<close> (\<^verbatim>\<open>rate_limiter.hpp\<close>): groups, method table, \<^verbatim>\<open>acquire\<close> split at its wait, where
    the other threads come in. Shown over all interleavings: at most the limit per window, twice that in a
    sliding window; which of the threads that wait for a window get through.
  \<^item> \<open>Unary\<close>, \<open>Async_Calls\<close> (\<^verbatim>\<open>detail/unary.hpp\<close>) and \<open>Services\<close> (\<^verbatim>\<open>services.hpp\<close>): the retry loop with
    its events; the callback call as a machine of calls, completions and the objects they share; the
    wrapper tables and \<^verbatim>\<open>load_rate_limits\<close>. Shown: what is returned, how often the server is called,
    how long is waited; one callback per call and no object used after or left without its deletion; the
    limits that a tariff sets.
  \<^item> \<open>Coroutines\<close> (\<^verbatim>\<open>awaitable.hpp\<close>): tasks, awaiters and \<^verbatim>\<open>sync_wait\<close> over a store of frames.
    Shown: a run is the direct execution of the body. \<open>Task_Ownership\<close>: the same tasks as
    variables that are moved, assigned, awaited and destroyed. Shown: exclusive ownership, and exactly which
    operations are undefined.
  \<^item> \<open>Stream_Loop\<close>, \<open>Server_Stream\<close> (\<^verbatim>\<open>streams/server_stream.hpp\<close>), \<open>Subscriptions\<close> and
    \<open>Market_Data_Stream\<close> (\<^verbatim>\<open>streams/market_data_stream.hpp\<close>, \<^verbatim>\<open>market_data_stream.cpp\<close>): every
    region between two lock operations is one definition on the record of the guarded fields, and a
    step relation interleaves the worker, the user's threads and the gRPC callbacks. These two machines
    have one worker at a time: \<^verbatim>\<open>start\<close> has the guard that the previous worker has finished, which the
    code lacks. Shown: delivery of data, order and completeness of writes, and that a stream winds
    down after stop, because stop cancels the call: gRPC's completions are counted on only once
    \<^verbatim>\<open>TryCancel\<close> was called. \<open>Market_Data_Runs\<close>: the operations as functions on
    the machine, and the subscription that a healthy connection never sends. \<open>Resubscription\<close>: from
    one connection to the next. Shown: a reconnection that holds ends with the whole registry sent
    again. \<open>Stream_Restart\<close>, \<open>Server_Restart\<close>: the two objects with any number of workers and without
    that guard, as executable machines. Shown: they refine to one worker when start comes after the
    join, so the state callback sees a conforming sequence, the reactor is used correctly and every open
    call is cancelled by stop; when start does not wait for the join, a reactor dangles, the reports of two workers
    mix, and a server stream outlives its stop.
  \<^item> \<open>Indicators\<close>, \<open>Strategies\<close>, \<open>Backtest\<close> (\<^verbatim>\<open>algo/\<close>): the streaming indicators, the six
    strategies and the backtester. Shown: windows, ranges, the signals as functions of the price
    history, the trade log as the list of round trips.
  \<^item> \<open>Account_Examples\<close>, \<open>Stream_Examples\<close>, \<open>Backtest_Example\<close> (\<^verbatim>\<open>examples/\<close>): the six example
    programs on top of the components, with their requests and output as a trace. Shown: the
    request sequences, coroutine and blocking session alike, that paper trading agrees with the
    backtester, and that the backtest example is defined on well-formed candles.
  \<^item> \<open>Bench\<close>, \<open>Load_Window\<close>, \<open>Mock_Servers\<close>, \<open>Soak_Program\<close>, \<open>Bench_Program\<close>
    (\<^verbatim>\<open>bench/bench.cpp\<close>, \<^verbatim>\<open>bench/soak.cpp\<close>): the computations of the benchmarks, the loops that keep
    calls in flight as step relations, the in-process servers and the counters, and the two programs:
    the soak test as the interleaving of all its threads with two streams, the benchmark as the
    sequence of its measurements. Shown: the checksum, percentiles as order statistics and in
    order, bounded windows without lost wake-ups, that the soak test ends after its stop flag whatever
    the interleaving and the answers of the server, and what its exit code means.
  \<^item> \<open>Unit_Tests\<close>, \<open>Double_Tests\<close> (\<^verbatim>\<open>tests/\<close>): the repository's unit tests, evaluated on the
    definitions; those on doubles where the arithmetic is exact.

  \<^bold>\<open>Interfaces\<close> are locales, interpreted in the theory that provides them: \<open>canonical_repr\<close>
  (decimals), \<open>fp_rounding\<close> (doubles), \<open>window_counter\<close> (limiter groups), \<open>stream_machine\<close> (both
  stream classes), \<open>stoppable\<close> (both stream classes when stopped, the soak test, a reconnection) and its
  extension \<open>stoppable_among\<close> (the same among steps that are not counted on),
  \<open>action_simulation\<close> (the objects with several workers against those with one), \<open>dictionary\<close> (the
  registry's map), \<open>bounded_deque\<close> (the windowed indicators), \<open>crossing\<close> (the crossing strategies), \<open>window_pump\<close> (the loops that keep calls in flight).

  \<^bold>\<open>Bounds.\<close> There is no fuel. The retry loop terminates by the measure of the attempts that are
  left; the benchmark loops run their constant number of times; \<^verbatim>\<open>acquire\<close> consumes the list of
  its wake-ups, each with what other threads did and a clock reading, and says whether it has returned,
  with the theorem which wake-ups let it return; the worker loops of the streams, which may run forever, are
  step relations, and that they end after a stop and that a reconnection is completed is proved by
  well-founded orders. Counters that the code keeps in an \<^verbatim>\<open>int\<close> and that count attempts, trades or
  bars are unbounded or come with the hypothesis that they fit. The limiter's window is converted to
  nanoseconds exactly (64 bits in the code, the same below 292 years).

  \<^bold>\<open>Outside code\<close> is a parameter or an environment step: the server's answers, the clocks, the
  file system, what other threads do to the limiter, user callbacks, and the gRPC library, whose
  callbacks come only as documented. The generated messages are records of the fields that are read.

  \<^bold>\<open>Not modelled:\<close> the generated protobuf and gRPC code (not in the repository), the include
  umbrellas and class declarations without code, the tests whose doubles are inexact or that need a running
  server, the clocks, the conversion of doubles to text by \<^verbatim>\<open>printf\<close>, and memory-order effects
  below the mutexes. Every other operation of the library, the examples and the benchmarks that
  computes or changes state has its definition.

  This theory holds what spans the algorithmic components and the decimals.
\<close>

section \<open>From candles to a report\<close>

text \<open>
  C38: a history of well-formed candles backtests without undefined behaviour. Its complete candles, in
  order, become bars with the candle's time and volume and with its open, high, low and close price in
  the field of that name, each converted as units plus nanos with two roundings; and the report of
  DonchianBreakout with positive periods records exactly the round trips of the breakout rules on those bars.
\<close>

theorem candles_to_report:
  assumes "\<forall>c\<in>set cs. candle_ok c" "2 \<le> length (filter hc_is_complete cs)" "0 < e" "fits 32 e" "0 < x" "fits 32 x"
    and "bars = map candle_bar (filter hc_is_complete cs)"
  shows "bars_of cs = Inr bars
    \<and> (\<exists>as rep s' n ivs tail. run_backtest strategy_name (\<lambda>b s. on_bar s b) (DonchianBreakout (mk_donchian_breakout e x)) bars
        commission_pct annualization = Inr (rep, s')
      \<and> as = map (\<lambda>i. breakout_rule e x (take i bars) (bars ! i)) [0..<length bars]
      \<and> round_trips as n ivs
      \<and> (tail = [] \<and> n = length bars \<or> tail = [(n, length bars - 1)] \<and> held_from as n)
      \<and> trade_log rep = map (\<lambda>(i, j). trade_of (commission_pct / Fin 100) (bars ! i) (bars ! j)) (ivs @ tail))"
proof -
  have b: "bars_of cs = Inr bars" "2 \<le> length bars" "\<forall>b\<in>set bars. bar_high b \<noteq> NaN \<and> bar_low b \<noteq> NaN"
    using bars_of_candles [OF assms(1)] bars_of_ok [OF assms(1)] assms(2,7) by auto
  obtain as s1 where r: "run_strategy donchian_breakout_on_bar bars (mk_donchian_breakout e x) = Inr (as, s1)"
    "length as = length bars" "\<forall>i<length bars. as ! i = breakout_rule e x (take i bars) (bars ! i)"
    using donchian_run [OF assms(3-6) b(3)] by blast
  have as: "as = map (\<lambda>i. breakout_rule e x (take i bars) (bars ! i)) [0..<length bars]"
    using r(2,3) by (intro nth_equalityI) simp_all
  from backtest_log [OF run_strategy_donchian [OF r(1)] b(2), of strategy_name commission_pct annualization] as b(1)
  show ?thesis by blast
qed

text \<open>Candles whose four prices differ by quarters, the third one not complete.\<close>

definition quarter_candle :: "int \<Rightarrow> historic_candle" where
  "quarter_candle p = \<lparr>hc_time_seconds = p, hc_open = \<lparr>q_units = p, q_nano = 250000000\<rparr>,
     hc_high = \<lparr>q_units = p, q_nano = 750000000\<rparr>, hc_low = \<lparr>q_units = p, q_nano = 0\<rparr>,
     hc_close = \<lparr>q_units = p, q_nano = 500000000\<rparr>, hc_volume = p, hc_is_complete = (p \<noteq> 7)\<rparr>"

lemma rnd64_quarters:
  assumes "\<bar>m\<bar> \<le> 2 ^ 53"
  shows "rnd64 (of_int m / 4) = of_int m / 4"
  using rnd64_dyadic [OF assms, of "- 2"] by (simp add: powr_minus_divide)

lemma quarter_bar:
  assumes "0 \<le> p" "p < 100"
  shows "candle_bar (quarter_candle p) = \<lparr>bar_time = p, bar_open = Fin (of_int p + 1 / 4), bar_high = Fin (of_int p + 3 / 4),
     bar_low = Fin (of_int p), bar_close = Fin (of_int p + 1 / 2), bar_volume = Fin (of_int p)\<rparr>"
proof -
  have sum: "rnd64 (of_int p + of_int k / 4) = of_int p + of_int k / 4" if "k \<in> {0..3}" for k
    using that assms rnd64_quarters [of "4 * p + k"] by (simp add: add_divide_distrib)
  have exact: "rnd64 (1 / 4) = 1 / 4" "rnd64 (1 / 2) = 1 / 2" "rnd64 (3 / 4) = 3 / 4"
    using rnd64_quarters [of 1] rnd64_quarters [of 2] rnd64_quarters [of 3] by simp_all
  show ?thesis
    using assms fl_int [of p] sum [of 0] sum [of 1] sum [of 2] sum [of 3]
    by (simp add: candle_bar_def quarter_candle_def price_of_def exact)
qed

theorem candles_to_report_witness:
  "\<exists>rep s'. bars_of (map quarter_candle [1, 5, 7, 2]) = Inr (map (\<lambda>p. \<lparr>bar_time = p, bar_open = Fin (of_int p + 1 / 4),
        bar_high = Fin (of_int p + 3 / 4), bar_low = Fin (of_int p), bar_close = Fin (of_int p + 1 / 2),
        bar_volume = Fin (of_int p)\<rparr>) [1, 5, 2])
    \<and> run_backtest strategy_name (\<lambda>b s. on_bar s b) (DonchianBreakout (mk_donchian_breakout 1 1))
        (map (candle_bar \<circ> quarter_candle) [1, 5, 2]) (Fin 0) (Fin 252) = Inr (rep, s')"
proof -
  let ?cs = "map quarter_candle [1, 5, 7, 2]"
  have h: "\<forall>c\<in>set ?cs. candle_ok c" "2 \<le> length (filter hc_is_complete ?cs)" "(0 :: int) < 1" "fits 32 1"
    "map (candle_bar \<circ> quarter_candle) [1, 5, 2] = map candle_bar (filter hc_is_complete ?cs)"
    by (simp_all add: quarter_candle_def candle_ok_def quotation_ok_def dec_inv_def fits64_iff fits32_iff kNano_def)
  from candles_to_report [OF h(1,2,3,4,3,4,5), of "Fin 0" "Fin 252"] show ?thesis
    by (elim exE conjE) (intro exI conjI, simp_all add: quarter_bar)
qed

end
